(* ===== verification/Tewta_Prelude.thy ===== *)
theory Tewta_Prelude
  imports Main "HOL-Library.Word" "HOL-Library.List_Lexorder" "HOL-Library.Multiset"
begin

text \<open>
  What the component theories share: the machine types of the Rust sources, the three
  ways a Rust operation can end (a value, an error, a panic), the control flow of one
  iteration of a loop, writes into fixed-size buffers, and the generic facts on words
  and lists that the component proofs use through the collections declared here.
\<close>

unbundle bit_operations_syntax

section \<open>Collections of facts\<close>

named_theorems u8_facts \<open>facts on single bytes, proved by enumeration\<close>
named_theorems loop_facts \<open>closed forms of the loops of the source\<close>
named_theorems wf_intros \<open>well-formedness of the values the operations build\<close>

section \<open>Machine types\<close>

type_synonym u8 = "8 word"
type_synonym u16 = "16 word"
type_synonym u32 = "32 word"
type_synonym u64 = "64 word"
type_synonym bytes = "u8 list"

text \<open>
  A \<open>usize\<close> that only counts elements of a collection in memory is a \<open>nat\<close>; where the
  code's arithmetic on it can overflow, the bound is written out in the model.
\<close>

type_synonym usize = nat

definition usize_max :: nat where
  "usize_max = 2 ^ 64 - 1"

section \<open>Outcomes\<close>

text \<open>
  A panic of the source (\<open>assert!\<close>, an index out of range, \<open>unwrap\<close> of nothing,
  \<open>unreachable!\<close>, \<open>todo!\<close>) is the value \<open>Panics\<close>; an operation that returns is \<open>Returns\<close>.
\<close>

datatype 'a outcome = Returns 'a | Panics

fun bind_outcome :: "'a outcome \<Rightarrow> ('a \<Rightarrow> 'b outcome) \<Rightarrow> 'b outcome" where
  "bind_outcome (Returns a) f = f a"
| "bind_outcome Panics f = Panics"

lemma bind_outcome_Returns_iff:
  "bind_outcome m f = Returns b \<longleftrightarrow> (\<exists>a. m = Returns a \<and> f a = Returns b)"
  by (cases m) auto

lemma bind_outcome_Panics_iff:
  "bind_outcome m f = Panics \<longleftrightarrow> m = Panics \<or> (\<exists>a. m = Returns a \<and> f a = Panics)"
  by (cases m) auto

lemma bind_outcome_assoc:
  "bind_outcome (bind_outcome m f) g = bind_outcome m (\<lambda>a. bind_outcome (f a) g)"
  by (cases m) auto

text \<open>One iteration of a loop body goes on, returns from the function, or panics.\<close>

datatype 'a flow = Next | Return 'a | Abort

section \<open>Buffers\<close>

text \<open>
  \<open>copy_at off src dst\<close> is \<open>dst[off..off+src.len()].copy_from_slice(src)\<close>.
\<close>

definition copy_at :: "nat \<Rightarrow> 'a list \<Rightarrow> 'a list \<Rightarrow> 'a list" where
  "copy_at off src dst = take off dst @ src @ drop (off + length src) dst"

lemma length_copy_at [simp]:
  "off + length src \<le> length dst \<Longrightarrow> length (copy_at off src dst) = length dst"
  by (simp add: copy_at_def)

lemma copy_at_whole: "length src = length dst \<Longrightarrow> copy_at 0 src dst = src"
  by (simp add: copy_at_def)

text \<open>
  A loop \<open>for i in 0..n { d[i] = f(i) }\<close> leaves \<open>f\<close> in the first \<open>n\<close> places and nothing
  of what was there before.
\<close>

definition fill_loop :: "(nat \<Rightarrow> 'a) \<Rightarrow> nat \<Rightarrow> 'a list \<Rightarrow> 'a list" where
  "fill_loop f n mem = fold (\<lambda>i d. d[i := f i]) [0..<n] mem"

lemma fill_loop_closed [loop_facts]:
  "n \<le> length mem \<Longrightarrow> fill_loop f n mem = map f [0..<n] @ drop n mem"
proof (induction n)
  case 0
  then show ?case by (simp add: fill_loop_def)
next
  case (Suc n)
  then have "fill_loop f (Suc n) mem = (map f [0..<n] @ drop n mem)[n := f n]"
    by (simp add: fill_loop_def)
  also have "\<dots> = map f [0..<Suc n] @ drop (Suc n) mem"
    using Suc.prems by (simp add: list_update_append Cons_nth_drop_Suc [symmetric])
  finally show ?case .
qed

lemma fill_loop_all: "length mem = n \<Longrightarrow> fill_loop f n mem = map f [0..<n]"
  by (simp add: fill_loop_closed)

section \<open>Bytes\<close>

text \<open>A fact on all bytes is a fact on 256 numerals.\<close>

lemma all_u8:
  assumes "list_all (\<lambda>n. P (word_of_nat n)) [0..<256]"
  shows "P (x :: u8)"
proof -
  have "unat x < 256"
    using unsigned_less [of x] by simp
  then have "unat x \<in> set [0..<256]"
    by simp
  with assms have "P (word_of_nat (unat x))"
    unfolding list_all_iff by blast
  then show ?thesis by simp
qed

lemma upt_256:
  "[0..<256] =
    [0, 1, 2, 3, 4, 5, 6, 7, 8, 9, 10, 11, 12, 13, 14, 15, 16, 17, 18, 19, 20, 21, 22, 23, 24,
     25, 26, 27, 28, 29, 30, 31, 32, 33, 34, 35, 36, 37, 38, 39, 40, 41, 42, 43, 44, 45, 46,
     47, 48, 49, 50, 51, 52, 53, 54, 55, 56, 57, 58, 59, 60, 61, 62, 63, 64, 65, 66, 67, 68,
     69, 70, 71, 72, 73, 74, 75, 76, 77, 78, 79, 80, 81, 82, 83, 84, 85, 86, 87, 88, 89, 90,
     91, 92, 93, 94, 95, 96, 97, 98, 99, 100, 101, 102, 103, 104, 105, 106, 107, 108, 109, 110,
     111, 112, 113, 114, 115, 116, 117, 118, 119, 120, 121, 122, 123, 124, 125, 126, 127, 128,
     129, 130, 131, 132, 133, 134, 135, 136, 137, 138, 139, 140, 141, 142, 143, 144, 145, 146,
     147, 148, 149, 150, 151, 152, 153, 154, 155, 156, 157, 158, 159, 160, 161, 162, 163, 164,
     165, 166, 167, 168, 169, 170, 171, 172, 173, 174, 175, 176, 177, 178, 179, 180, 181, 182,
     183, 184, 185, 186, 187, 188, 189, 190, 191, 192, 193, 194, 195, 196, 197, 198, 199, 200,
     201, 202, 203, 204, 205, 206, 207, 208, 209, 210, 211, 212, 213, 214, 215, 216, 217, 218,
     219, 220, 221, 222, 223, 224, 225, 226, 227, 228, 229, 230, 231, 232, 233, 234, 235, 236,
     237, 238, 239, 240, 241, 242, 243, 244, 245, 246, 247, 248, 249, 250, 251, 252, 253, 254,
     255]"
  by code_simp

lemmas byte_cases = upt_256 list.pred_inject

lemma xor_u8_cancel [simp]: "(a :: u8) XOR (a XOR b) = b"
  by (simp flip: xor.assoc)

lemma xor_u8_inj: "(a :: u8) XOR b = a XOR c \<longleftrightarrow> b = c"
proof
  assume "a XOR b = a XOR c"
  then have "a XOR (a XOR b) = a XOR (a XOR c)" by (rule arg_cong)
  then show "b = c" by simp
qed simp

lemma xor_u8_eq_0 [simp]: "(a :: u8) XOR b = 0 \<longleftrightarrow> a = b"
proof
  assume "a XOR b = 0"
  then have "a XOR (a XOR b) = a XOR 0" by (rule arg_cong)
  then show "a = b" by simp
qed simp

section \<open>Lists\<close>

lemma ex_nat_split: "(\<exists>n. P n) \<longleftrightarrow> P 0 \<or> (\<exists>n. P (Suc n))"
  by (metis not0_implies_Suc)

lemma sorted_wrt_take: "sorted_wrt r xs \<Longrightarrow> sorted_wrt r (take n xs)"
  by (metis append_take_drop_id sorted_wrt_append)

lemma filter_id_iff: "filter p xs = xs \<longleftrightarrow> (\<forall>x\<in>set xs. p x)"
  by (induction xs) (auto dest: filter_eq_ConsD)

text \<open>
  The part of a sorted list that \<open>truncate\<close> cuts off is never better than what it keeps.
\<close>

lemma take_sort_key_best:
  assumes "x \<in> set (take n (sort_key f xs))" and "y \<in> set (drop n (sort_key f xs))"
  shows "f x \<le> f y"
proof -
  let ?s = "sort_key f xs"
  have "sorted (map f (take n ?s @ drop n ?s))"
    by simp
  then have "sorted (map f (take n ?s) @ map f (drop n ?s))"
    by (simp only: map_append)
  with assms show ?thesis
    by (auto simp: sorted_append)
qed

lemma unat_min: "unat (min a b) = min (unat a) (unat (b :: 'a::len word))"
  by (simp add: min_def word_le_nat_alt)

end
