(* ===== verification/Peer_Id.thy ===== *)
theory Peer_Id
  imports Tewta_Prelude
begin

text \<open>
  \<open>src/peers.rs\<close> and \<open>src/util.rs\<close>: the 256-bit identifiers of peers and keys, their XOR
  distance, the mask test, the Kademlia bucket of one peer seen from another, the generation
  of an identifier that lies in a given bucket, and the order.
  An uninitialised array of the source is an arbitrary 32-byte value that the operation
  receives as an argument (\<open>mem\<close>), so that "every byte is written" is a theorem.
\<close>

section \<open>Identifiers\<close>

datatype PeerID = PeerID (peer_bytes: bytes)

type_synonym KeyID = PeerID

text \<open>The Rust type is \<open>Box<[u8; 32]>\<close>: 32 bytes, always.\<close>

definition wf_peer :: "PeerID \<Rightarrow> bool" where
  "wf_peer p \<longleftrightarrow> length (peer_bytes p) = 32"

lemma wf_peer_PeerID [simp]: "wf_peer (PeerID bs) \<longleftrightarrow> length bs = 32"
  by (simp add: wf_peer_def)

lemma wf_peer_length [simp, dest]: "wf_peer p \<Longrightarrow> length (peer_bytes p) = 32"
  by (simp add: wf_peer_def)

text \<open>
  \<open>impl Ord\<close> and \<open>impl PartialOrd\<close>: the comparison of the byte arrays, which the standard library
  makes lexicographically. The order class of the library is read off \<open>partial_cmp\<close>, as the
  operators of Rust are.
\<close>

datatype Ordering = Less | Equal | Greater

fun cmp_bytes :: "bytes \<Rightarrow> bytes \<Rightarrow> Ordering" where
  "cmp_bytes [] [] = Equal"
| "cmp_bytes [] (y # ys) = Less"
| "cmp_bytes (x # xs) [] = Greater"
| "cmp_bytes (x # xs) (y # ys) =
     (if x < y then Less else if y < x then Greater else cmp_bytes xs ys)"

definition cmp :: "PeerID \<Rightarrow> PeerID \<Rightarrow> Ordering" where
  "cmp p q = cmp_bytes (peer_bytes p) (peer_bytes q)"

definition partial_cmp :: "PeerID \<Rightarrow> PeerID \<Rightarrow> Ordering option" where
  "partial_cmp p q = Some (cmp_bytes (peer_bytes p) (peer_bytes q))"

lemma cmp_bytes_Less: "cmp_bytes xs ys = Less \<longleftrightarrow> xs < ys"
  by (induction xs ys rule: cmp_bytes.induct) auto

lemma cmp_bytes_Equal: "cmp_bytes xs ys = Equal \<longleftrightarrow> xs = ys"
  by (induction xs ys rule: cmp_bytes.induct) auto

instantiation PeerID :: linorder
begin

definition less_eq_PeerID :: "PeerID \<Rightarrow> PeerID \<Rightarrow> bool" where
  "less_eq_PeerID p q \<longleftrightarrow> partial_cmp p q = Some Less \<or> partial_cmp p q = Some Equal"

definition less_PeerID :: "PeerID \<Rightarrow> PeerID \<Rightarrow> bool" where
  "less_PeerID p q \<longleftrightarrow> partial_cmp p q = Some Less"

instance
  by intro_classes
    (auto simp: less_eq_PeerID_def less_PeerID_def partial_cmp_def cmp_bytes_Less cmp_bytes_Equal
      PeerID.expand)

end

lemma cmp_bytes_self [simp]: "cmp_bytes xs xs = Equal"
  by (simp add: cmp_bytes_Equal)

lemma cmp_linorder:
  "cmp p q = (if p < q then Less else if p = q then Equal else Greater)"
  by (cases "cmp p q")
    (auto simp: cmp_def less_PeerID_def partial_cmp_def cmp_bytes_Less cmp_bytes_Equal
      PeerID.expand)

section \<open>Distance\<close>

text \<open>
  \<open>PeerID::distance\<close>: the loop over the 32 positions of an array that was uninitialised.
\<close>

definition distance_in :: "bytes \<Rightarrow> PeerID \<Rightarrow> PeerID \<Rightarrow> bytes" where
  "distance_in mem p q = fill_loop (\<lambda>i. peer_bytes p ! i XOR peer_bytes q ! i) 32 mem"

text \<open>What the loop computes.\<close>

definition distance :: "PeerID \<Rightarrow> PeerID \<Rightarrow> bytes" where
  "distance p q = map2 (XOR) (peer_bytes p) (peer_bytes q)"

lemma length_distance [simp]:
  "wf_peer p \<Longrightarrow> wf_peer q \<Longrightarrow> length (distance p q) = 32"
  by (simp add: distance_def)

lemma distance_nth:
  "wf_peer p \<Longrightarrow> wf_peer q \<Longrightarrow> i < 32 \<Longrightarrow>
    distance p q ! i = peer_bytes p ! i XOR peer_bytes q ! i"
  by (simp add: distance_def)

lemma distance_in_eq:
  assumes "wf_peer p" and "wf_peer q" and "length mem = 32"
  shows "distance_in mem p q = distance p q"
  using assms
  by (auto simp: distance_in_def fill_loop_all distance_def intro: nth_equalityI)

lemma distance_self: "distance p p = replicate (length (peer_bytes p)) 0"
  by (auto simp: distance_def intro: nth_equalityI)

lemma distance_commute: "distance p q = distance q p"
  by (auto simp: distance_def xor.commute intro: nth_equalityI)

lemma distance_cancel:
  assumes "wf_peer p" and "wf_peer q" and "wf_peer r"
    and eq: "distance p q = distance p r"
  shows "q = r"
proof (rule PeerID.expand, rule nth_equalityI)
  show "length (peer_bytes q) = length (peer_bytes r)"
    using assms by simp
next
  fix i
  assume "i < length (peer_bytes q)"
  then have "i < 32" using assms by simp
  then have "peer_bytes p ! i XOR peer_bytes q ! i = peer_bytes p ! i XOR peer_bytes r ! i"
    using assms by (simp flip: distance_nth)
  then show "peer_bytes q ! i = peer_bytes r ! i"
    by (simp only: xor_u8_inj)
qed

section \<open>Masks\<close>

text \<open>
  \<open>PeerID::matches\<close>: the loop indexes both arrays at every position of the mask, so a mask
  longer than 32 bytes panics, at once where debug assertions are on (\<open>debug_assert!\<close>), on
  the first index out of range otherwise (unless a mismatch has returned before).
\<close>

fun matches_loop :: "bytes \<Rightarrow> bytes \<Rightarrow> bytes \<Rightarrow> nat list \<Rightarrow> bool outcome" where
  "matches_loop a b msk [] = Returns True"
| "matches_loop a b msk (i # is) =
     (if i < length a \<and> i < length b
      then if a ! i AND msk ! i \<noteq> b ! i AND msk ! i then Returns False
           else matches_loop a b msk is
      else Panics)"

definition matches_checked :: "bool \<Rightarrow> PeerID \<Rightarrow> PeerID \<Rightarrow> bytes \<Rightarrow> bool outcome" where
  "matches_checked debug_assertions p other msk =
     (if debug_assertions \<and> \<not> length msk \<le> 32 then Panics
      else matches_loop (peer_bytes p) (peer_bytes other) msk [0..<length msk])"

text \<open>The test itself, for callers that have checked the length of the mask.\<close>

definition matches :: "PeerID \<Rightarrow> PeerID \<Rightarrow> bytes \<Rightarrow> bool" where
  "matches p other msk \<longleftrightarrow>
     (\<forall>i<length msk. peer_bytes p ! i AND msk ! i = peer_bytes other ! i AND msk ! i)"

lemma matches_loop_eq:
  "\<forall>i\<in>set is. i < length a \<and> i < length b \<Longrightarrow>
    matches_loop a b msk is =
      Returns (\<forall>i\<in>set is. a ! i AND msk ! i = b ! i AND msk ! i)"
  by (induction "is") auto

lemma matches_checked_eq:
  assumes "wf_peer p" and "wf_peer q" and "length msk \<le> 32"
  shows "matches_checked dbg p q msk = Returns (matches p q msk)"
  using assms
  by (auto simp: matches_checked_def matches_def matches_loop_eq)

lemma matches_code [code]:
  "matches p other msk \<longleftrightarrow>
     list_all (\<lambda>i. peer_bytes p ! i AND msk ! i = peer_bytes other ! i AND msk ! i)
       [0..<length msk]"
  by (auto simp: matches_def list_all_iff)

lemma matches_refl [simp]: "matches p p msk"
  by (simp add: matches_def)

section \<open>Buckets\<close>

text \<open>
  One round of \<open>PeerID::bucket\<close>: the four two-bit digits of the XOR of two bytes, from the
  most significant one. Each \<open>match\<close> of the source has an \<open>unreachable!()\<close> arm.
\<close>

definition bucket_digit :: "nat \<Rightarrow> u8 \<Rightarrow> u8 \<Rightarrow> u8 \<Rightarrow> u8 \<Rightarrow> u8 \<Rightarrow> (nat \<times> nat) flow" where
  "bucket_digit level d m v1 v2 v3 =
     (if d AND m = 0 then Next
      else if d AND m = v1 then Return (level, 0)
      else if d AND m = v2 then Return (level, 1)
      else if d AND m = v3 then Return (level, 2)
      else Abort)"

fun flow_seq :: "'a flow \<Rightarrow> 'a flow \<Rightarrow> 'a flow" where
  "flow_seq Next f = f"
| "flow_seq (Return a) f = Return a"
| "flow_seq Abort f = Abort"

definition bucket_round :: "nat \<Rightarrow> u8 \<Rightarrow> (nat \<times> nat) flow" where
  "bucket_round i d =
     (if d = 0 then Next
      else flow_seq (bucket_digit (4 * i) d 0b11000000 0b01000000 0b10000000 0b11000000)
          (flow_seq (bucket_digit (4 * i + 1) d 0b00110000 0b00010000 0b00100000 0b00110000)
          (flow_seq (bucket_digit (4 * i + 2) d 0b00001100 0b00000100 0b00001000 0b00001100)
             (bucket_digit (4 * i + 3) d 0b00000011 0b00000001 0b00000010 0b00000011))))"

fun bucket_loop :: "bytes \<Rightarrow> bytes \<Rightarrow> nat list \<Rightarrow> (nat \<times> nat) option outcome" where
  "bucket_loop a b [] = Returns None"
| "bucket_loop a b (i # is) =
     (case bucket_round i (a ! i XOR b ! i) of
        Next \<Rightarrow> bucket_loop a b is
      | Return r \<Rightarrow> Returns (Some r)
      | Abort \<Rightarrow> Panics)"

definition bucket_checked :: "PeerID \<Rightarrow> PeerID \<Rightarrow> (nat \<times> nat) option outcome" where
  "bucket_checked p other = bucket_loop (peer_bytes p) (peer_bytes other) [0..<32]"

text \<open>
  The specification: an identifier is a sequence of 128 base-4 digits, the bucket level is
  the first position at which two identifiers differ, and the bucket number is the XOR of
  the two digits there, less one.
\<close>

definition byte_digit :: "nat \<Rightarrow> u8 \<Rightarrow> nat" where
  "byte_digit k b = unat b div 4 ^ (3 - k) mod 4"

definition peer_digit :: "nat \<Rightarrow> PeerID \<Rightarrow> nat" where
  "peer_digit l p = byte_digit (l mod 4) (peer_bytes p ! (l div 4))"

definition first_digit :: "u8 \<Rightarrow> (nat \<times> nat) option" where
  "first_digit d =
     (case filter (\<lambda>k. byte_digit k d \<noteq> 0) [0, 1, 2, 3] of
        [] \<Rightarrow> None
      | k # _ \<Rightarrow> Some (k, byte_digit k d - 1))"

fun first_bucket :: "nat \<Rightarrow> bytes \<Rightarrow> (nat \<times> nat) option" where
  "first_bucket i [] = None"
| "first_bucket i (d # ds) =
     (case first_digit d of
        Some (k, c) \<Rightarrow> Some (4 * i + k, c)
      | None \<Rightarrow> first_bucket (Suc i) ds)"

definition bucket :: "PeerID \<Rightarrow> PeerID \<Rightarrow> (nat \<times> nat) option" where
  "bucket p q = first_bucket 0 (distance p q)"

lemma first_digit_cases:
  "first_digit d =
     (if byte_digit 0 d \<noteq> 0 then Some (0, byte_digit 0 d - 1)
      else if byte_digit 1 d \<noteq> 0 then Some (1, byte_digit 1 d - 1)
      else if byte_digit 2 d \<noteq> 0 then Some (2, byte_digit 2 d - 1)
      else if byte_digit 3 d \<noteq> 0 then Some (3, byte_digit 3 d - 1)
      else None)"
  by (simp add: first_digit_def)

lemma byte_digit_numeral:
  "byte_digit 0 b = unat b div 64 mod 4" "byte_digit 1 b = unat b div 16 mod 4"
  "byte_digit 2 b = unat b div 4 mod 4" "byte_digit 3 b = unat b mod 4"
  "byte_digit (Suc 0) b = unat b div 16 mod 4"
  by (simp_all add: byte_digit_def)

lemma bucket_digit_eq:
  "bucket_digit l d 0b11000000 0b01000000 0b10000000 0b11000000 =
     (if byte_digit 0 d = 0 then Next else Return (l, byte_digit 0 d - 1))"
  "bucket_digit l d 0b00110000 0b00010000 0b00100000 0b00110000 =
     (if byte_digit 1 d = 0 then Next else Return (l, byte_digit 1 d - 1))"
  "bucket_digit l d 0b00001100 0b00000100 0b00001000 0b00001100 =
     (if byte_digit 2 d = 0 then Next else Return (l, byte_digit 2 d - 1))"
  "bucket_digit l d 0b00000011 0b00000001 0b00000010 0b00000011 =
     (if byte_digit 3 d = 0 then Next else Return (l, byte_digit 3 d - 1))"
  by (rule all_u8, simp only: byte_cases,
      intro conjI; simp add: bucket_digit_def byte_digit_numeral)+

lemma flow_chain:
  fixes a b c e i :: nat
  shows "flow_seq (if a = 0 then Next else Return (4 * i, a - 1))
     (flow_seq (if b = 0 then Next else Return (4 * i + 1, b - 1))
     (flow_seq (if c = 0 then Next else Return (4 * i + 2, c - 1))
        (if e = 0 then Next else Return (4 * i + 3, e - 1)))) =
   (case (if a \<noteq> 0 then Some (0, a - 1) else if b \<noteq> 0 then Some (1, b - 1)
      else if c \<noteq> 0 then Some (2, c - 1) else if e \<noteq> 0 then Some (3, e - 1) else None) of
      None \<Rightarrow> Next | Some (k, n) \<Rightarrow> Return (4 * i + k, n))"
  by (cases a; cases b; cases c; cases e) simp_all

lemma bucket_round_eq:
  "bucket_round i d =
     (case first_digit d of None \<Rightarrow> Next | Some (k, c) \<Rightarrow> Return (4 * i + k, c))"
proof (cases "d = 0")
  case True
  then show ?thesis
    by (simp add: bucket_round_def first_digit_cases byte_digit_def)
next
  case False
  show ?thesis
    unfolding bucket_round_def bucket_digit_eq first_digit_cases flow_chain if_not_P [OF False]
    by (rule refl)
qed

lemma unat_u8_less: "unat (d :: u8) < 256"
  using unsigned_less [of d] by simp

text \<open>
  A byte whose leading base-4 digits are zero is as small as the remaining ones allow.
\<close>

lemma leading_zero:
  fixes m :: nat
  assumes "m div 4 < 4" and "m div 4 mod 4 = 0"
  shows "m < 4"
proof -
  have "m div 4 = 0" using assms by (metis mod_less)
  then show ?thesis by (simp add: div_eq_0_iff)
qed

lemma leading_digit:
  fixes n :: nat
  assumes "n < 256"
  shows "n div 64 < 4"
    and "n div 64 mod 4 = 0 \<Longrightarrow> n div 16 < 4"
    and "n div 64 mod 4 = 0 \<Longrightarrow> n div 16 mod 4 = 0 \<Longrightarrow> n div 4 < 4"
    and "n div 64 mod 4 = 0 \<Longrightarrow> n div 16 mod 4 = 0 \<Longrightarrow> n div 4 mod 4 = 0 \<Longrightarrow> n < 4"
proof -
  have eqs: "n div 16 div 4 = n div 64" "n div 4 div 4 = n div 16"
    by (simp_all flip: div_mult2_eq)
  show 1: "n div 64 < 4"
    using assms by (simp add: less_mult_imp_div_less)
  show 2: "n div 16 < 4" if "n div 64 mod 4 = 0"
    using leading_zero [of "n div 16"] 1 that by (simp only: eqs)
  show 3: "n div 4 < 4" if "n div 64 mod 4 = 0" and "n div 16 mod 4 = 0"
    using leading_zero [of "n div 4"] 2 that by (simp only: eqs)
  show "n < 4" if "n div 64 mod 4 = 0" and "n div 16 mod 4 = 0" and "n div 4 mod 4 = 0"
    using leading_zero [of n] 3 that by simp
qed

lemma first_digit_None: "first_digit d = None \<longleftrightarrow> d = 0"
proof
  assume "first_digit d = None"
  then have "byte_digit 0 d = 0 \<and> byte_digit 1 d = 0 \<and> byte_digit 2 d = 0 \<and> byte_digit 3 d = 0"
    by (simp add: first_digit_def split: if_splits)
  then have "unat d = 0"
    unfolding byte_digit_numeral using leading_digit(4) [OF unat_u8_less [of d]] by (metis mod_less)
  then show "d = 0" by (simp add: unat_eq_0)
next
  assume "d = 0"
  then show "first_digit d = None" by (simp add: first_digit_def byte_digit_def)
qed

lemma first_digit_0 [simp]: "first_digit 0 = None"
  by (simp add: first_digit_None)

lemma first_digit_SomeE:
  assumes "first_digit d = Some (k, c)"
  obtains "k = 0" "byte_digit 0 d = Suc c"
    | "k = 1" "byte_digit 1 d = Suc c" "byte_digit 0 d = 0"
    | "k = 2" "byte_digit 2 d = Suc c" "byte_digit 0 d = 0" "byte_digit 1 d = 0"
    | "k = 3" "byte_digit 3 d = Suc c" "byte_digit 0 d = 0" "byte_digit 1 d = 0"
        "byte_digit 2 d = 0"
  using assms by (auto simp: first_digit_def split: if_splits)

lemma first_digit_SomeD:
  assumes "first_digit d = Some (k, c)"
  shows "k < 4" and "c < 3" and "unat d div 4 ^ (3 - k) = Suc c"
proof -
  from assms have "k < 4 \<and> unat d div 4 ^ (3 - k) = Suc c \<and> unat d div 4 ^ (3 - k) < 4"
  proof (cases rule: first_digit_SomeE)
    case 1
    then show ?thesis
      using leading_digit(1) [OF unat_u8_less [of d]] by (simp add: byte_digit_numeral)
  next
    case 2
    then show ?thesis
      using leading_digit(2) [OF unat_u8_less [of d]] by (simp add: byte_digit_numeral)
  next
    case 3
    then show ?thesis
      using leading_digit(3) [OF unat_u8_less [of d]] by (simp add: byte_digit_numeral)
  next
    case 4
    have "unat d < 4"
      by (rule leading_digit(4) [OF unat_u8_less]) (simp_all only: 4 flip: byte_digit_numeral)
    moreover have "unat d mod 4 = Suc c" by (simp only: 4 flip: byte_digit_numeral)
    ultimately show ?thesis using 4(1) by simp
  qed
  then show "k < 4" and "c < 3" and "unat d div 4 ^ (3 - k) = Suc c"
    by simp_all
qed

lemma first_digit_less:
  assumes d: "first_digit d = Some (k, c)" and e: "first_digit e = Some (k', c')"
    and less: "k' < k \<or> k = k' \<and> c < c'"
  shows "d < e"
proof -
  let ?m = "(4 :: nat) ^ (3 - k)" and ?m' = "(4 :: nat) ^ (3 - k')"
  have "unat d = Suc c * ?m + unat d mod ?m"
    using div_mult_mod_eq [of "unat d" ?m] by (simp only: first_digit_SomeD(3) [OF d])
  moreover have "unat d mod ?m < ?m" by (rule mod_less_divisor) simp
  ultimately have "unat d < Suc (Suc c) * ?m"
    unfolding mult_Suc by linarith
  moreover have "unat e = Suc c' * ?m' + unat e mod ?m'"
    using div_mult_mod_eq [of "unat e" ?m'] by (simp only: first_digit_SomeD(3) [OF e])
  then have "Suc c' * ?m' \<le> unat e" by linarith
  moreover have "Suc (Suc c) * 4 ^ (3 - k) \<le> Suc c' * 4 ^ (3 - k')"
  proof (cases "k' < k")
    case True
    then have "Suc (3 - k) \<le> 3 - k'"
      using first_digit_SomeD(1) [OF d] by simp
    from power_increasing [OF this, of "4 :: nat"]
    have "4 * 4 ^ (3 - k) \<le> (4 :: nat) ^ (3 - k')" by simp
    moreover have "Suc (Suc c) * 4 ^ (3 - k) \<le> 4 * 4 ^ (3 - k)"
      using first_digit_SomeD(2) [OF d] by (intro mult_right_mono) simp_all
    moreover have "1 * 4 ^ (3 - k') \<le> Suc c' * 4 ^ (3 - k')"
      by (intro mult_right_mono) simp_all
    ultimately show ?thesis by linarith
  next
    case False
    with less have "Suc (Suc c) \<le> Suc c'" and "k' = k" by auto
    then show ?thesis by (simp only: mult_right_mono)
  qed
  ultimately show ?thesis by (simp add: word_less_nat_alt)
qed

section \<open>The loop of \<open>bucket\<close> and its specification\<close>

lemma bucket_loop_eq:
  "bucket_loop a b [i..<n] = Returns (first_bucket i (map (\<lambda>j. a ! j XOR b ! j) [i..<n]))"
proof (induction "n - i" arbitrary: i)
  case 0
  then show ?case by simp
next
  case (Suc m)
  then have "i < n" and "m = n - Suc i" by simp_all
  with Suc.hyps(1) show ?case
    by (simp add: upt_conv_Cons bucket_round_eq split: option.splits)
qed

lemma distance_conv_map:
  "wf_peer p \<Longrightarrow> wf_peer q \<Longrightarrow>
    distance p q = map (\<lambda>j. peer_bytes p ! j XOR peer_bytes q ! j) [0..<32]"
  by (auto simp: distance_def intro: nth_equalityI)

lemma bucket_checked_eq:
  "wf_peer p \<Longrightarrow> wf_peer q \<Longrightarrow> bucket_checked p q = Returns (bucket p q)"
  by (simp add: bucket_checked_def bucket_def bucket_loop_eq distance_conv_map)

lemma first_bucket_None: "first_bucket i ds = None \<longleftrightarrow> (\<forall>d\<in>set ds. d = 0)"
  by (induction i ds rule: first_bucket.induct) (auto simp: first_digit_None split: option.splits)

lemma first_bucket_zeros:
  "first_bucket i (replicate n 0 @ ds) = first_bucket (i + n) ds"
  by (induction n arbitrary: i) simp_all

lemma first_bucket_range:
  "first_bucket i ds = Some (l, c) \<Longrightarrow> 4 * i \<le> l \<and> l < 4 * (i + length ds) \<and> c < 3"
  by (induction i ds rule: first_bucket.induct)
    (fastforce split: option.splits dest: first_digit_SomeD)+

lemma first_bucket_less:
  assumes "first_bucket i ds = Some (l, c)" and "first_bucket i es = Some (l', c')"
    and "length ds = length es" and "l' < l \<or> l = l' \<and> c < c'"
  shows "ds < es"
  using assms
proof (induction i ds arbitrary: es rule: first_bucket.induct)
  case (1 i)
  then show ?case by simp
next
  case (2 i d ds)
  then obtain e es' where es: "es = e # es'" and len: "length ds = length es'"
    by (cases es) auto
  consider (both) "d = 0" "e = 0" | (right) "d = 0" "e \<noteq> 0"
    | (left) "d \<noteq> 0" "e = 0" | (none) "d \<noteq> 0" "e \<noteq> 0"
    by blast
  then show ?case
  proof cases
    case both
    then show ?thesis
      using 2 es len by simp
  next
    case right
    then show ?thesis by (simp add: es word_neq_0_conv)
  next
    case left
    then have "first_bucket (Suc i) es' = Some (l', c')"
      using 2 es by simp
    then have "4 * Suc i \<le> l'"
      using first_bucket_range by blast
    moreover have "l < 4 * Suc i"
      using left 2 by (auto split: option.splits simp: first_digit_None dest: first_digit_SomeD)
    ultimately show ?thesis
      using 2 by auto
  next
    case none
    then obtain k k' where "first_digit d = Some (k, c)" "l = 4 * i + k"
        "first_digit e = Some (k', c')" "l' = 4 * i + k'"
      using 2 es by (auto split: option.splits simp: first_digit_None)
    then have "d < e"
      using 2(5) by (intro first_digit_less [of d k c e k' c']) auto
    then show ?thesis by (simp add: es)
  qed
qed


text \<open>
  Peers in a deeper bucket, or in a lower bucket of the same level, are closer.
\<close>

lemma bucket_closer:
  assumes "wf_peer p" and "wf_peer q" and "wf_peer r"
    and "bucket p q = Some (l, c)" and "bucket p r = Some (l', c')"
    and "l' < l \<or> l = l' \<and> c < c'"
  shows "distance p q < distance p r"
  using assms unfolding bucket_def by (intro first_bucket_less [of 0 _ l c _ l' c']) auto

lemma bucket_commute: "bucket p q = bucket q p"
  by (simp add: bucket_def distance_commute)

lemma bucket_range: "wf_peer p \<Longrightarrow> wf_peer q \<Longrightarrow> bucket p q = Some (l, c) \<Longrightarrow> l < 128 \<and> c < 3"
  by (auto simp: bucket_def dest: first_bucket_range)

lemma distance_zero_iff:
  assumes "wf_peer p" and "wf_peer q"
  shows "(\<forall>d\<in>set (distance p q). d = 0) \<longleftrightarrow> p = q"
proof
  assume "\<forall>d\<in>set (distance p q). d = 0"
  with assms have "distance p q = distance p p"
    by (metis distance_self length_distance replicate_eqI wf_peer_length)
  with assms show "p = q"
    by (metis distance_cancel)
qed (simp add: distance_self)

lemma bucket_None_iff: "wf_peer p \<Longrightarrow> wf_peer q \<Longrightarrow> bucket p q = None \<longleftrightarrow> p = q"
  by (simp add: bucket_def first_bucket_None distance_zero_iff)

lemma first_bucket_Some_iff:
  "first_bucket i ds = Some (l, c) \<longleftrightarrow>
     (\<exists>j k. j < length ds \<and> (\<forall>j'<j. ds ! j' = 0) \<and> first_digit (ds ! j) = Some (k, c)
       \<and> l = 4 * (i + j) + k)"
proof (induction i ds rule: first_bucket.induct)
  case (1 i)
  then show ?case by simp
next
  case (2 i d ds)
  show ?case
  proof (cases "first_digit d")
    case None
    then have [simp]: "d = 0" by (simp add: first_digit_None)
    have "(\<exists>j k. j < length (d # ds) \<and> (\<forall>j'<j. (d # ds) ! j' = 0)
        \<and> first_digit ((d # ds) ! j) = Some (k, c) \<and> l = 4 * (i + j) + k) \<longleftrightarrow>
      (\<exists>j k. j < length ds \<and> (\<forall>j'<j. ds ! j' = 0)
        \<and> first_digit (ds ! j) = Some (k, c) \<and> l = 4 * (Suc i + j) + k)"
      by (subst ex_nat_split) (simp add: All_less_Suc2)
    with 2 None show ?thesis by simp
  next
    case (Some kc)
    then have "d \<noteq> 0" by (auto simp: first_digit_None [symmetric])
    then show ?thesis
      using Some by (cases kc) (auto simp: gr0_conv_Suc nth_Cons' dest: spec [of _ 0])
  qed
qed


subsection \<open>The bucket by digits\<close>

lemma byte_digit_bits: "byte_digit k b = take_bit 2 (drop_bit (2 * (3 - k)) (unat b))"
  by (simp add: byte_digit_def take_bit_eq_mod drop_bit_eq_div power_mult)

lemma byte_digit_xor: "byte_digit k (a XOR b) = byte_digit k a XOR byte_digit k b"
  by (simp only: byte_digit_bits unsigned_xor_eq drop_bit_xor take_bit_xor)

lemma xor_nat_eq_0: "(a :: nat) XOR b = 0 \<longleftrightarrow> a = b"
  by (metis xor.assoc xor.left_neutral xor_self_eq)

lemma first_digit_Some_iff:
  "first_digit d = Some (k, c) \<longleftrightarrow>
     k < 4 \<and> (\<forall>k'<k. byte_digit k' d = 0) \<and> byte_digit k d = Suc c"
proof
  assume "first_digit d = Some (k, c)"
  then show "k < 4 \<and> (\<forall>k'<k. byte_digit k' d = 0) \<and> byte_digit k d = Suc c"
    by (cases rule: first_digit_SomeE) (simp_all add: less_Suc_eq numeral_eq_Suc)
next
  assume k: "k < 4 \<and> (\<forall>k'<k. byte_digit k' d = 0) \<and> byte_digit k d = Suc c"
  then consider "k = 0" | "k = 1" | "k = 2" | "k = 3" by linarith
  then show "first_digit d = Some (k, c)"
    using k by cases (simp_all add: first_digit_def)
qed

lemma byte_zero_iff_digits: "d = 0 \<longleftrightarrow> (\<forall>k<4. byte_digit k d = 0)"
  unfolding first_digit_None [symmetric]
  by (auto simp: first_digit_def less_Suc_eq numeral_eq_Suc)

lemma digits_below_iff:
  fixes j k :: nat
  assumes "k < 4"
  shows "(\<forall>l<4 * j + k. P (l div 4) (l mod 4)) \<longleftrightarrow> (\<forall>i<j. \<forall>r<4. P i r) \<and> (\<forall>r<k. P j r)"
proof (intro iffI conjI allI impI)
  fix i r :: nat
  assume all: "\<forall>l<4 * j + k. P (l div 4) (l mod 4)" and "i < j" and "r < 4"
  then have "4 * i + r < 4 * j + k" by linarith
  with all have "P ((4 * i + r) div 4) ((4 * i + r) mod 4)" by blast
  with \<open>r < 4\<close> show "P i r" by simp
next
  fix r
  assume all: "\<forall>l<4 * j + k. P (l div 4) (l mod 4)" and "r < k"
  then have "4 * j + r < 4 * j + k" by linarith
  with all have "P ((4 * j + r) div 4) ((4 * j + r) mod 4)" by blast
  with \<open>r < k\<close> assms show "P j r" by simp
next
  fix l
  assume all: "(\<forall>i<j. \<forall>r<4. P i r) \<and> (\<forall>r<k. P j r)" and l: "l < 4 * j + k"
  show "P (l div 4) (l mod 4)"
  proof (cases "l div 4 < j")
    case True
    with all show ?thesis by simp
  next
    case False
    with l assms have "l div 4 = j" by linarith
    with l have "l mod 4 < k" using div_mult_mod_eq [of l 4] by linarith
    with all \<open>l div 4 = j\<close> show ?thesis by simp
  qed
qed

lemma bucket_Some_iff:
  assumes p: "wf_peer p" and q: "wf_peer q"
  shows "bucket p q = Some (l, c) \<longleftrightarrow>
    l < 128 \<and> (\<forall>l'<l. peer_digit l' p = peer_digit l' q)
      \<and> peer_digit l p XOR peer_digit l q = Suc c"
proof -
  let ?d = "distance p q"
  have digit: "byte_digit r (?d ! i) = 0 \<longleftrightarrow>
      byte_digit r (peer_bytes p ! i) = byte_digit r (peer_bytes q ! i)" if "i < 32" for i r
    using that p q by (simp add: distance_nth byte_digit_xor xor_nat_eq_0)
  have "bucket p q = Some (l, c) \<longleftrightarrow>
      (\<exists>j k. j < 32 \<and> k < 4 \<and> l = 4 * j + k
        \<and> (\<forall>i<j. \<forall>r<4. byte_digit r (?d ! i) = 0) \<and> (\<forall>r<k. byte_digit r (?d ! j) = 0)
        \<and> byte_digit k (?d ! j) = Suc c)"
    unfolding bucket_def first_bucket_Some_iff first_digit_Some_iff
    using p q by (auto simp: byte_zero_iff_digits)
  also have "\<dots> \<longleftrightarrow> l div 4 < 32
      \<and> (\<forall>l'<l. byte_digit (l' mod 4) (?d ! (l' div 4)) = 0)
      \<and> byte_digit (l mod 4) (?d ! (l div 4)) = Suc c" (is "?L \<longleftrightarrow> ?R")
  proof
    assume ?L
    then obtain j k where "j < 32" "k < 4" and l: "l = 4 * j + k"
      and "(\<forall>i<j. \<forall>r<4. byte_digit r (?d ! i) = 0) \<and> (\<forall>r<k. byte_digit r (?d ! j) = 0)"
      and "byte_digit k (?d ! j) = Suc c"
      by blast
    moreover from this have "l div 4 = j" and "l mod 4 = k" by simp_all
    ultimately show ?R
      using digits_below_iff [of k j "\<lambda>i r. byte_digit r (?d ! i) = 0"] by simp
  next
    assume ?R
    moreover have l: "l = 4 * (l div 4) + l mod 4" by simp
    ultimately show ?L
      using digits_below_iff [of "l mod 4" "l div 4" "\<lambda>i r. byte_digit r (?d ! i) = 0"]
      by (intro exI [of _ "l div 4"] exI [of _ "l mod 4"]) simp
  qed
  also have "\<dots> \<longleftrightarrow> l < 128 \<and> (\<forall>l'<l. peer_digit l' p = peer_digit l' q)
      \<and> peer_digit l p XOR peer_digit l q = Suc c"
  proof -
    have "l div 4 < 32 \<longleftrightarrow> l < 128" by arith
    moreover have "byte_digit (l' mod 4) (?d ! (l' div 4)) = 0 \<longleftrightarrow> peer_digit l' p = peer_digit l' q"
      if "l' \<le> l" and "l < 128" for l'
    proof -
      have "l' div 4 < 32" using that by arith
      then show ?thesis by (simp add: digit peer_digit_def)
    qed
    moreover have "byte_digit (l mod 4) (?d ! (l div 4)) = peer_digit l p XOR peer_digit l q"
      if "l < 128"
      using that p q by (simp add: distance_nth byte_digit_xor peer_digit_def)
    ultimately show ?thesis by auto
  qed
  finally show ?thesis .
qed

section \<open>Generating an identifier in a bucket\<close>

text \<open>
  The twelve arms of the nested \<open>match\<close>: the mask for \<open>bucket_level.rem_euclid(4)\<close> and
  \<open>bucket_id\<close>; other values are \<open>unreachable_unchecked\<close> (\<open>None\<close>).
\<close>

definition flip_mask :: "nat \<Rightarrow> nat \<Rightarrow> u8 option" where
  "flip_mask r bucket_id =
     (let arms =
       [[0b01000000, 0b10000000, 0b11000000],
        [0b00010000, 0b00100000, 0b00110000],
        [0b00000100, 0b00001000, 0b00001100],
        [0b00000001, 0b00000010, 0b00000011]]
      in if r < 4 \<and> bucket_id < 3 then Some (arms ! r ! bucket_id) else None)"

definition generate_in_bucket_in :: "bytes \<Rightarrow> PeerID \<Rightarrow> usize \<Rightarrow> usize \<Rightarrow> PeerID outcome" where
  "generate_in_bucket_in mem p bucket_level bucket_id =
     (if bucket_level < 128 \<and> bucket_id < 3 then
        let i = bucket_level div 4;
            target = copy_at 0 (take i (peer_bytes p)) mem
        in (case flip_mask (bucket_level mod 4) bucket_id of
              None \<Rightarrow> Panics
            | Some m \<Rightarrow>
                let target = target[i := peer_bytes p ! i XOR m]
                in Returns (PeerID (copy_at (i + 1) (drop (i + 1) (peer_bytes p)) target)))
      else Panics)"

definition generate_in_bucket :: "PeerID \<Rightarrow> usize \<Rightarrow> usize \<Rightarrow> PeerID" where
  "generate_in_bucket p bucket_level bucket_id =
     (let i = bucket_level div 4
      in PeerID ((peer_bytes p)[i := peer_bytes p ! i XOR the (flip_mask (bucket_level mod 4) bucket_id)]))"

lemma flip_mask_digit:
  assumes "r < 4" and "c < 3"
  shows "\<exists>m. flip_mask r c = Some m \<and> first_digit m = Some (r, c)"
proof -
  have "r = 0 \<or> r = 1 \<or> r = 2 \<or> r = 3" and "c = 0 \<or> c = 1 \<or> c = 2"
    using assms by arith+
  then show ?thesis
    by (elim disjE; simp add: flip_mask_def first_digit_def byte_digit_numeral)
qed

lemma wf_generate [simp]: "wf_peer p \<Longrightarrow> wf_peer (generate_in_bucket p l c)"
  by (simp add: generate_in_bucket_def Let_def)

lemma generate_in_bucket_in_eq:
  assumes p: "wf_peer p" and mem: "length mem = 32" and l: "l < 128" and c: "c < 3"
  shows "generate_in_bucket_in mem p l c = Returns (generate_in_bucket p l c)"
proof -
  let ?b = "peer_bytes p" and ?i = "l div 4"
  obtain m where m: "flip_mask (l mod 4) c = Some m"
    using flip_mask_digit [of "l mod 4" c] c by auto
  have i: "?i < 32" using l by simp
  have "copy_at (?i + 1) (drop (?i + 1) ?b) ((copy_at 0 (take ?i ?b) mem)[?i := ?b ! ?i XOR m])
      = ?b[?i := ?b ! ?i XOR m]"
    using p mem i
    by (auto simp: copy_at_def nth_append nth_list_update min_def intro!: nth_equalityI)
  then show ?thesis
    using l c by (simp add: generate_in_bucket_in_def generate_in_bucket_def Let_def m)
qed

lemma distance_generate:
  assumes p: "wf_peer p" and l: "l < 128" and m: "flip_mask (l mod 4) c = Some m"
  shows "distance p (generate_in_bucket p l c) =
    replicate (l div 4) 0 @ m # replicate (31 - l div 4) 0"
proof -
  have "l div 4 < 32" using l by simp
  then show ?thesis
    using p m
    by (auto simp: distance_def generate_in_bucket_def Let_def nth_append nth_list_update nth_Cons'
        intro!: nth_equalityI)
qed

lemma bucket_generate:
  assumes p: "wf_peer p" and l: "l < 128" and c: "c < 3"
  shows "bucket p (generate_in_bucket p l c) = Some (l, c)"
proof -
  obtain m where "flip_mask (l mod 4) c = Some m" and "first_digit m = Some (l mod 4, c)"
    using flip_mask_digit [of "l mod 4" c] c by auto
  then show ?thesis
    using p l by (simp add: bucket_def distance_generate first_bucket_zeros)
qed

section \<open>Properties\<close>

text \<open>
  C28: the bucket of one peer as seen from another is computed without a panic for any two
  identities, and is the position and value of the first base-4 digit in which they differ
  (none exactly for equal identities).
\<close>

theorem bucket_is_first_difference:
  assumes "wf_peer p" and "wf_peer q"
  shows "\<exists>r. bucket_checked p q = Returns r \<and>
    (case r of
       None \<Rightarrow> p = q
     | Some (l, c) \<Rightarrow> l < 128 \<and> c < 3 \<and> (\<forall>l'<l. peer_digit l' p = peer_digit l' q)
         \<and> peer_digit l p XOR peer_digit l q = Suc c)"
proof (cases "bucket p q")
  case None
  then show ?thesis using bucket_checked_eq [OF assms] bucket_None_iff [OF assms] by simp
next
  case (Some lc)
  then obtain l c where lc: "bucket p q = Some (l, c)" by (cases lc) auto
  then show ?thesis
    using bucket_checked_eq [OF assms] bucket_Some_iff [OF assms, of l c] bucket_range [OF assms lc] by simp
qed

theorem bucket_is_first_difference_witness:
  "\<exists>r. bucket_checked (PeerID (replicate 32 0)) (PeerID (replicate 31 0 @ [1])) = Returns r \<and>
    (case r of
       None \<Rightarrow> PeerID (replicate 32 0) = PeerID (replicate 31 0 @ [1])
     | Some (l, c) \<Rightarrow> l < 128 \<and> c < 3
         \<and> (\<forall>l'<l. peer_digit l' (PeerID (replicate 32 0)) = peer_digit l' (PeerID (replicate 31 0 @ [1])))
         \<and> peer_digit l (PeerID (replicate 32 0)) XOR peer_digit l (PeerID (replicate 31 0 @ [1])) = Suc c)"
  by (rule bucket_is_first_difference) simp_all

text \<open>
  The buckets refine the XOR distance, as the lookups assume: a peer in a later bucket of
  \<open>p\<close> (a higher level, or the same level and a lower bucket of it) is strictly closer to \<open>p\<close>.
\<close>

theorem later_bucket_is_closer:
  assumes "wf_peer p" and "wf_peer q" and "wf_peer r"
    and "bucket_checked p q = Returns (Some (l, c))" and "bucket_checked p r = Returns (Some (l', c'))"
    and "l' < l \<or> l = l' \<and> c < c'"
  shows "distance p q < distance p r"
  using assms bucket_checked_eq bucket_closer by auto

theorem later_bucket_is_closer_witness:
  "distance (PeerID (replicate 32 0)) (PeerID (0 # 1 # replicate 30 9))
    < distance (PeerID (replicate 32 0)) (PeerID (128 # replicate 31 0))"
proof (rule later_bucket_is_closer)
  show "bucket_checked (PeerID (replicate 32 0)) (PeerID (0 # 1 # replicate 30 9)) = Returns (Some (7, 0))"
    by code_simp
  show "bucket_checked (PeerID (replicate 32 0)) (PeerID (128 # replicate 31 0)) = Returns (Some (0, 1))"
    by code_simp
qed simp_all

text \<open>
  Whatever the uninitialised buffers hold, \<open>distance\<close> is the byte-wise exclusive or of the
  identities; it is symmetric, zero exactly between equal identities, and determines one
  identity from the other.
\<close>

theorem distance_is_a_metric:
  assumes "wf_peer p" and "wf_peer q" and "wf_peer r" and "length mem = 32" and "length mem' = 32"
  shows "distance_in mem p q = map2 (XOR) (peer_bytes p) (peer_bytes q)
    \<and> distance_in mem p q = distance_in mem' q p
    \<and> ((\<forall>d\<in>set (distance_in mem p q). d = 0) \<longleftrightarrow> p = q)
    \<and> (distance_in mem p q = distance_in mem' p r \<longrightarrow> q = r)"
proof -
  have eq: "distance_in m a b = distance a b" if "length m = 32" "wf_peer a" "wf_peer b" for m a b
    using that distance_in_eq by simp
  have "distance p q = map2 (XOR) (peer_bytes p) (peer_bytes q)"
    using assms by (auto simp: distance_nth intro!: nth_equalityI)
  then show ?thesis
    using assms distance_commute [of p q] distance_zero_iff [of p q] distance_cancel [of p q r]
    by (auto simp: eq)
qed

theorem distance_is_a_metric_witness:
  "distance_in (replicate 32 7) (PeerID (replicate 32 5)) (PeerID (replicate 32 1)) = replicate 32 4"
proof -
  have "distance_in (replicate 32 7) (PeerID (replicate 32 5)) (PeerID (replicate 32 1)) =
      map2 (XOR) (peer_bytes (PeerID (replicate 32 5))) (peer_bytes (PeerID (replicate 32 1)))"
    using distance_is_a_metric [of "PeerID (replicate 32 5)" "PeerID (replicate 32 1)" "PeerID (replicate 32 1)"
        "replicate 32 7" "replicate 32 9"]
    by simp
  also have "\<dots> = replicate 32 4"
    by (simp add: zip_replicate)
  finally show ?thesis .
qed

text \<open>
  \<open>generate_in_bucket\<close> returns, on every valid bucket and whatever its uninitialised buffer
  holds, an identity of that very bucket, and panics on any other bucket.
\<close>

theorem generated_peer_is_in_bucket:
  assumes "wf_peer p" and "length mem = 32"
  shows "if l < 128 \<and> c < 3
    then \<exists>t. generate_in_bucket_in mem p l c = Returns t \<and> wf_peer t
           \<and> bucket_checked p t = Returns (Some (l, c))
    else generate_in_bucket_in mem p l c = Panics"
proof (cases "l < 128 \<and> c < 3")
  case True
  then show ?thesis
    using assms generate_in_bucket_in_eq bucket_generate bucket_checked_eq [OF assms(1)] by simp
next
  case False
  then show ?thesis by (auto simp: generate_in_bucket_in_def)
qed

theorem generated_peer_is_in_bucket_witness:
  "\<exists>t. generate_in_bucket_in (replicate 32 1) (PeerID (replicate 32 0)) 127 2 = Returns t \<and> wf_peer t
    \<and> bucket_checked (PeerID (replicate 32 0)) t = Returns (Some (127, 2))"
  using generated_peer_is_in_bucket [of "PeerID (replicate 32 0)" "replicate 32 1" 127 2] by simp

end
