(* ===== verification/Peer_Text.thy ===== *)
theory Peer_Text
  imports Peer_Id
begin

text \<open>
  The hexadecimal text form of an identifier (\<open>Display\<close> and \<open>FromStr\<close> of
  \<open>src/peers.rs\<close>), with the parts of the standard library it goes through: ranges of a
  \<open>&str\<close> that respect character boundaries, and \<open>u8::from_str_radix\<close>.
\<close>

section \<open>Text form\<close>

text \<open>
  A \<open>&str\<close> is its UTF-8 bytes, here as a \<^typ>\<open>string\<close>. \<open>str::get(a..b)\<close> is \<open>None\<close> when the range
  ends past the string or cuts a character.
\<close>

definition char_boundary :: "string \<Rightarrow> nat \<Rightarrow> bool" where
  "char_boundary s i \<longleftrightarrow>
     i = 0 \<or> i = length s
     \<or> i < length s \<and> \<not> (128 \<le> (of_char (s ! i) :: nat) \<and> of_char (s ! i) < (192 :: nat))"

definition str_get :: "string \<Rightarrow> nat \<Rightarrow> nat \<Rightarrow> string option" where
  "str_get s a b =
     (if a \<le> b \<and> char_boundary s a \<and> char_boundary s b then Some (take (b - a) (drop a s)) else None)"

definition hex_digit :: "nat \<Rightarrow> char" where
  "hex_digit n = ''0123456789abcdef'' ! n"

text \<open>\<open>impl Display for PeerID\<close>: \<open>{:02x}\<close> for every byte.\<close>

definition show_byte :: "u8 \<Rightarrow> string" where
  "show_byte b = [hex_digit (unat b div 16), hex_digit (unat b mod 16)]"

definition show_peer :: "PeerID \<Rightarrow> string" where
  "show_peer p = concat (map show_byte (peer_bytes p))"

text \<open>The standard library's \<open>u8::from_str_radix(s, 16)\<close>: a leading \<open>+\<close> is accepted.\<close>

datatype int_error_kind = EmptyInput | InvalidDigit | PosOverflow

definition to_digit16 :: "char \<Rightarrow> nat option" where
  "to_digit16 ch =
     (let n = (of_char ch :: nat)
      in if 48 \<le> n \<and> n \<le> 57 then Some (n - 48)
         else if 97 \<le> n \<and> n \<le> 102 then Some (n - 87)
         else if 65 \<le> n \<and> n \<le> 70 then Some (n - 55)
         else None)"

fun radix16_loop :: "nat \<Rightarrow> string \<Rightarrow> int_error_kind + u8" where
  "radix16_loop acc [] = Inr (word_of_nat acc)"
| "radix16_loop acc (ch # cs) =
     (case to_digit16 ch of
        None \<Rightarrow> Inl InvalidDigit
      | Some d \<Rightarrow> if acc * 16 + d > 255 then Inl PosOverflow else radix16_loop (acc * 16 + d) cs)"

definition u8_from_str_radix16 :: "string \<Rightarrow> int_error_kind + u8" where
  "u8_from_str_radix16 s =
     (case s of
        [] \<Rightarrow> Inl EmptyInput
      | ch # cs \<Rightarrow>
          if cs = [] \<and> (ch = CHR ''+'' \<or> ch = CHR ''-'') then Inl InvalidDigit
          else if ch = CHR ''+'' then radix16_loop 0 cs
          else radix16_loop 0 s)"

text \<open>\<open>impl FromStr for PeerID\<close>: 32 rounds, the first error ends the parse.\<close>

fun from_str_loop :: "string \<Rightarrow> nat list \<Rightarrow> int_error_kind + bytes" where
  "from_str_loop s [] = Inr []"
| "from_str_loop s (i # is) =
     (let t = (case str_get s (i * 2) (i * 2 + 2) of Some t \<Rightarrow> t | None \<Rightarrow> [])
      in case u8_from_str_radix16 t of
           Inl e \<Rightarrow> Inl e
         | Inr b \<Rightarrow> (case from_str_loop s is of Inl e \<Rightarrow> Inl e | Inr bs \<Rightarrow> Inr (b # bs)))"

definition peer_from_str :: "string \<Rightarrow> int_error_kind + PeerID" where
  "peer_from_str s =
     (case from_str_loop s [0..<32] of Inl e \<Rightarrow> Inl e | Inr bs \<Rightarrow> Inr (PeerID bs))"

lemma show_byte_ascii: "\<forall>ch\<in>set (show_byte b). (of_char ch :: nat) < 128"
  by (rule all_u8, simp only: byte_cases)
    (intro conjI; simp add: show_byte_def hex_digit_def)

lemma radix16_show_byte: "u8_from_str_radix16 (show_byte b) = Inr b"
  by (rule all_u8, simp only: byte_cases)
    (intro conjI; simp add: show_byte_def hex_digit_def u8_from_str_radix16_def to_digit16_def)

lemma length_show_byte [simp]: "length (show_byte b) = 2"
  by (simp add: show_byte_def)

lemma length_concat_show [simp]: "length (concat (map show_byte bs)) = 2 * length bs"
  by (induction bs) simp_all

lemma ascii_char_boundary:
  "\<forall>ch\<in>set s. (of_char ch :: nat) < 128 \<Longrightarrow> char_boundary s i \<longleftrightarrow> i \<le> length s"
  using nth_mem [of i s] by (cases "i < length s") (auto simp: char_boundary_def not_le)

lemma take_2_show: "i < length bs \<Longrightarrow> take 2 (drop (2 * i) (concat (map show_byte bs))) = show_byte (bs ! i)"
proof (induction bs arbitrary: i)
  case (Cons b bs)
  then show ?case by (cases i) simp_all
qed simp

lemma from_str_loop_show:
  assumes ascii: "\<forall>ch\<in>set t. (of_char ch :: nat) < 128" and "\<forall>i\<in>set is. i < length bs"
  shows "from_str_loop (concat (map show_byte bs) @ t) is = Inr (map (\<lambda>i. bs ! i) is)"
  using assms(2)
proof (induction "is")
  case (Cons i "is")
  let ?s = "concat (map show_byte bs) @ t"
  have "\<forall>ch\<in>set ?s. (of_char ch :: nat) < 128"
    using ascii show_byte_ascii by auto
  then have "str_get ?s (i * 2) (i * 2 + 2) = Some (show_byte (bs ! i))"
    using Cons.prems take_2_show [of i bs]
    by (simp add: str_get_def ascii_char_boundary mult.commute)
  with Cons show ?case by (simp add: radix16_show_byte)
qed simp

lemma peer_from_str_show:
  assumes "wf_peer p" and "\<forall>ch\<in>set t. (of_char ch :: nat) < 128"
  shows "peer_from_str (show_peer p @ t) = Inr p"
proof -
  have "map ((!) (peer_bytes p)) [0..<32] = peer_bytes p"
    using map_nth [of "peer_bytes p"] assms(1) by simp
  then show ?thesis
    using assms from_str_loop_show [of t "[0..<32]" "peer_bytes p"]
    by (simp add: peer_from_str_def show_peer_def)
qed

section \<open>Properties\<close>

text \<open>
  The text of an identity has 64 characters and is parsed back to it; \<open>FromStr\<close> also
  ignores any ASCII text that follows.
\<close>

theorem peer_text_roundtrip:
  assumes "wf_peer p" and "\<forall>ch\<in>set t. (of_char ch :: nat) < 128"
  shows "length (show_peer p) = 64 \<and> peer_from_str (show_peer p) = Inr p
    \<and> peer_from_str (show_peer p @ t) = Inr p"
  using peer_from_str_show [OF assms] peer_from_str_show [OF assms(1), of "[]"] assms(1)
  by (simp add: show_peer_def)

theorem peer_text_roundtrip_witness:
  "peer_from_str (show_peer (PeerID (replicate 32 171)) @ ''zz'') = Inr (PeerID (replicate 32 171))"
  using peer_text_roundtrip [of "PeerID (replicate 32 171)" "''zz''"] by simp

end
