(* ===== verification/Counter.thy ===== *)
theory Counter
  imports Tewta_Prelude
begin

text \<open>
  \<open>src/node/counter.rs\<close>: the atomic counter that numbers pings and requests
  (\<open>fetch_add\<close> on an \<open>AtomicU32\<close>, which wraps around), and the interface its users rely
  on: identifiers handed out within one window are pairwise different.
\<close>

section \<open>The interface\<close>

fun issue :: "('s \<Rightarrow> 'i \<times> 's) \<Rightarrow> nat \<Rightarrow> 's \<Rightarrow> 'i list" where
  "issue nxt 0 s = []"
| "issue nxt (Suc n) s = (case nxt s of (i, s') \<Rightarrow> i # issue nxt n s')"

lemma length_issue [simp]: "length (issue nxt n s) = n"
  by (induction n arbitrary: s) (auto split: prod.split)

lemma issue_take: "m \<le> n \<Longrightarrow> take m (issue nxt n s) = issue nxt m s"
proof (induction n arbitrary: m s)
  case (Suc n)
  then show ?case by (cases m) (auto split: prod.split)
qed simp

locale id_supply =
  fixes nxt :: "'s \<Rightarrow> 'i \<times> 's"
    and window :: nat
  assumes window_distinct: "distinct (issue nxt window s)"
begin

lemma distinct_below: "n \<le> window \<Longrightarrow> distinct (issue nxt n s)"
  using window_distinct [of s] issue_take [of n window nxt s] by (metis distinct_take)

lemma ids_differ:
  "i < j \<Longrightarrow> j < window \<Longrightarrow> issue nxt window s ! i \<noteq> issue nxt window s ! j"
  using window_distinct [of s] by (simp add: nth_eq_iff_index_eq)

end

section \<open>The counter\<close>

record Counter =
  counter_value :: u32

definition counter_default :: Counter where
  "counter_default = \<lparr>counter_value = 0\<rparr>"

definition counter_next :: "Counter \<Rightarrow> u32 \<times> Counter" where
  "counter_next c = (counter_value c, c\<lparr>counter_value := counter_value c + 1\<rparr>)"

lemma issue_counter_next: "issue counter_next n c = map (\<lambda>k. counter_value c + word_of_nat k) [0..<n]"
proof (induction n arbitrary: c)
  case (Suc n)
  have "map (\<lambda>k. counter_value c + word_of_nat k) [0..<Suc n] =
      counter_value c # map (\<lambda>k. counter_value c + word_of_nat (Suc k)) [0..<n]"
    by (simp add: upt_conv_Cons map_Suc_upt [symmetric] del: upt_Suc)
  with Suc show ?case by (simp add: counter_next_def add.assoc)
qed simp

lemma counter_distinct: "distinct (issue counter_next (2 ^ 32) c)"
  unfolding issue_counter_next distinct_map
  by (auto simp: inj_on_def word_of_nat_eq_iff take_bit_nat_eq_self)

interpretation ids: id_supply "counter_next :: Counter \<Rightarrow> u32 \<times> Counter" "2 ^ 32"
  by unfold_locales (rule counter_distinct)

text \<open>The window is exact: the next identifier is the first one again.\<close>

lemma counter_wraps: "issue counter_next (2 ^ 32 + 1) c ! (2 ^ 32) = issue counter_next (2 ^ 32 + 1) c ! 0"
  by (simp add: issue_counter_next del: upt_Suc)

section \<open>Properties\<close>

text \<open>
  Any \<open>2 ^ 32\<close> identifiers drawn in a row are pairwise different, and the next one is the
  first one again.
\<close>

theorem identifiers_unique_until_wrap:
  "distinct (issue counter_next (2 ^ 32) c)
    \<and> issue counter_next (2 ^ 32 + 1) c ! (2 ^ 32) = counter_value c"
proof
  show "distinct (issue counter_next (2 ^ 32) c)" by (rule ids.distinct_below) simp
  show "issue counter_next (2 ^ 32 + 1) c ! (2 ^ 32) = counter_value c"
    using counter_wraps [of c] by (simp add: issue_counter_next del: upt_Suc)
qed

end
