(* ===== verification/Log_Level.thy ===== *)
theory Log_Level
  imports Tewta_Prelude
begin

text \<open>
  \<open>src/logging.rs\<close>: the log level that a node and its connection pool share (an atomic
  byte behind an \<open>Arc\<close>), and the threshold of each of the five macros.
\<close>

record LogLevel =
  level_value :: u8

definition log_from :: "u8 \<Rightarrow> LogLevel" where
  "log_from v = \<lparr>level_value = v\<rparr>"

definition log_load :: "LogLevel \<Rightarrow> u8" where
  "log_load l = level_value l"

definition log_set :: "LogLevel \<Rightarrow> u8 \<Rightarrow> LogLevel" where
  "log_set l v = l\<lparr>level_value := v\<rparr>"

datatype log_macro = LError | LWarn | LInfo | LDebug | LTrace

fun threshold :: "log_macro \<Rightarrow> u8" where
  "threshold LError = 1"
| "threshold LWarn = 2"
| "threshold LInfo = 3"
| "threshold LDebug = 4"
| "threshold LTrace = 5"

definition logs :: "LogLevel \<Rightarrow> log_macro \<Rightarrow> bool" where
  "logs l m \<longleftrightarrow> log_load l \<ge> threshold m"

text \<open>Severities are ordered as the macros are declared, and a higher level logs more.\<close>

lemma logs_mono: "logs l m \<Longrightarrow> threshold m' \<le> threshold m \<Longrightarrow> logs l m'"
  by (auto simp: logs_def)

lemma logs_set_mono: "logs (log_set l v) m \<Longrightarrow> v \<le> w \<Longrightarrow> logs (log_set l w) m"
  by (auto simp: logs_def log_set_def log_load_def)

lemma silent_at_0: "\<not> logs (log_from 0) m"
  by (cases m) (simp_all add: logs_def log_load_def log_from_def)

end
