(* ===== verification/Events.thy ===== *)
theory Events
  imports Tewta_Prelude
begin

text \<open>
  \<open>src/node/events.rs\<close>: the listeners of one kind of event. The channels come from the
  crate \<open>async_channel\<close>: a sender is a value of a type \<open>'c\<close>, and \<open>send\<close> is the parameter
  that stands for \<open>Sender::send\<close> on an unbounded channel, \<open>None\<close> when every receiver is
  gone, otherwise the channel with the message in its queue.
\<close>

type_synonym ('c, 't) channel_send = "'c \<Rightarrow> 't \<Rightarrow> 'c option"

record 'c EventListeners =
  listeners :: "'c list"

definition listeners_default :: "'c EventListeners" where
  "listeners_default = \<lparr>listeners = []\<rparr>"

text \<open>\<open>listeners[i].send(event)\<close>, and \<open>listeners.remove(i)\<close> when it fails.\<close>

definition send_at :: "('c, 't) channel_send \<Rightarrow> 't \<Rightarrow> nat \<Rightarrow> 'c list \<Rightarrow> 'c list outcome" where
  "send_at send e i ls =
     (if i < length ls then
        (case send (ls ! i) e of
           Some c \<Rightarrow> Returns (ls[i := c])
         | None \<Rightarrow> Returns (take i ls @ drop (Suc i) ls))
      else Panics)"

fun event_loop :: "('c, 't) channel_send \<Rightarrow> 't \<Rightarrow> nat list \<Rightarrow> 'c list \<Rightarrow> 'c list outcome" where
  "event_loop send e [] ls = Returns ls"
| "event_loop send e (i # is) ls = bind_outcome (send_at send e i ls) (event_loop send e is)"

definition event :: "('c, 't) channel_send \<Rightarrow> 't \<Rightarrow> 'c EventListeners \<Rightarrow> 'c EventListeners outcome" where
  "event send e l =
     bind_outcome
       (if length (listeners l) > 1
        then event_loop send e (rev [1..<length (listeners l)]) (listeners l)
        else Returns (listeners l))
       (\<lambda>ls. bind_outcome
          (if ls \<noteq> [] then send_at send e 0 ls else Returns ls)
          (\<lambda>ls. Returns \<lparr>listeners = ls\<rparr>))"

definition listen :: "'c \<Rightarrow> 'c EventListeners \<Rightarrow> 'c EventListeners" where
  "listen fresh l = l\<lparr>listeners := listeners l @ [fresh]\<rparr>"

section \<open>What an event does\<close>

text \<open>
  The specification: every open channel receives the event exactly once, every closed one
  is dropped, and the others keep their order.
\<close>

definition broadcast :: "('c, 't) channel_send \<Rightarrow> 't \<Rightarrow> 'c list \<Rightarrow> 'c list" where
  "broadcast send e ls = List.map_filter (\<lambda>c. send c e) ls"

lemma broadcast_simps [simp]:
  "broadcast send e [] = []"
  "broadcast send e (c # ls) = (case send c e of None \<Rightarrow> [] | Some c' \<Rightarrow> [c']) @ broadcast send e ls"
  "broadcast send e (ls @ ls') = broadcast send e ls @ broadcast send e ls'"
  by (simp_all add: broadcast_def map_filter_simps map_filter_def split: option.split)

lemma broadcast_all_open:
  "\<forall>c\<in>set ls. send c e \<noteq> None \<Longrightarrow> length (broadcast send e ls) = length ls"
  by (induction ls) auto

lemma send_at_middle:
  "send_at send e (length xs) (xs @ c # ys) = Returns (xs @ broadcast send e [c] @ ys)"
  by (simp add: send_at_def split: option.split)

lemma event_loop_closed:
  "event_loop send e (rev [length zs..<length (zs @ xs)]) (zs @ xs @ ys) =
    Returns (zs @ broadcast send e xs @ ys)"
proof (induction xs arbitrary: ys rule: rev_induct)
  case (snoc x xs)
  have "rev [length zs..<length (zs @ xs @ [x])] =
      length (zs @ xs) # rev [length zs..<length (zs @ xs)]"
    by simp
  then have "event_loop send e (rev [length zs..<length (zs @ xs @ [x])]) (zs @ (xs @ [x]) @ ys) =
      bind_outcome (send_at send e (length (zs @ xs)) ((zs @ xs) @ x # ys))
        (event_loop send e (rev [length zs..<length (zs @ xs)]))"
    by (simp only: event_loop.simps append_assoc append_Cons append_Nil)
  also have "\<dots> = Returns (zs @ broadcast send e xs @ broadcast send e [x] @ ys)"
    using send_at_middle [of send e "zs @ xs" x ys] snoc.IH [of "broadcast send e [x] @ ys"] by simp
  finally show ?case by simp
qed simp

lemma event_eq: "event send e l = Returns \<lparr>listeners = broadcast send e (listeners l)\<rparr>"
proof (cases "listeners l")
  case Nil
  then show ?thesis by (simp add: event_def)
next
  case (Cons c ls)
  have loop: "event_loop send e (rev [1..<Suc (length ls)]) (c # ls) = Returns (c # broadcast send e ls)"
    using event_loop_closed [of send e "[c]" ls "[]"] by simp
  have first: "send_at send e 0 (c # xs) = Returns (broadcast send e [c] @ xs)" for xs
    using send_at_middle [of send e "[]" c xs] by simp
  show ?thesis
  proof (cases ls)
    case Nil
    with Cons first [of "[]"] show ?thesis by (simp add: event_def)
  next
    case (Cons c' ls')
    with \<open>listeners l = c # ls\<close> loop first show ?thesis
      by (simp add: event_def)
  qed
qed


section \<open>Receiving\<close>

text \<open>
  The loop in which a task takes the messages of its channel until one is the answer it waits
  for (\<open>loop { let m = receiver.recv().await.unwrap(); if .. { break .. } }\<close>), on the messages
  that arrive; \<open>None\<close> is a task that still waits.
\<close>

fun recv_until :: "('e \<Rightarrow> bool) \<Rightarrow> 'e list \<Rightarrow> ('e \<times> 'e list) option" where
  "recv_until answers [] = None"
| "recv_until answers (e # msgs) = (if answers e then Some (e, msgs) else recv_until answers msgs)"

lemma recv_until_Some_iff:
  "recv_until answers msgs = Some (e, rest) \<longleftrightarrow>
    (\<exists>pre. msgs = pre @ e # rest \<and> answers e \<and> (\<forall>x\<in>set pre. \<not> answers x))"
proof (induction msgs)
  case (Cons m msgs)
  show ?case
  proof (cases "answers m")
    case True
    have "pre = []" if "m # msgs = pre @ e # rest" "\<forall>x\<in>set pre. \<not> answers x" for pre
      using that True by (cases pre) auto
    with True show ?thesis by auto
  next
    case False
    have "(\<exists>pre. m # msgs = pre @ e # rest \<and> answers e \<and> (\<forall>x\<in>set pre. \<not> answers x)) \<longleftrightarrow>
        (\<exists>pre. msgs = pre @ e # rest \<and> answers e \<and> (\<forall>x\<in>set pre. \<not> answers x))"
      (is "?l \<longleftrightarrow> ?r")
    proof
      assume ?l
      then obtain pre where "m # msgs = pre @ e # rest" "answers e" "\<forall>x\<in>set pre. \<not> answers x" by blast
      with False show ?r by (cases pre) auto
    next
      assume ?r
      then obtain pre where "msgs = pre @ e # rest" "answers e" "\<forall>x\<in>set pre. \<not> answers x" by blast
      with False show ?l by (intro exI [of _ "m # pre"]) auto
    qed
    with Cons False show ?thesis by simp
  qed
qed simp

lemma recv_until_None_iff: "recv_until answers msgs = None \<longleftrightarrow> (\<forall>x\<in>set msgs. \<not> answers x)"
  by (induction msgs) auto

section \<open>Properties\<close>

text \<open>
  An event never panics, reaches every listener whose channel is open exactly once, drops
  the closed ones and keeps the order of the others (although the loop removes by index).
\<close>

theorem event_reaches_all:
  "event send e l = Returns \<lparr>listeners = List.map_filter (\<lambda>c. send c e) (listeners l)\<rparr>"
  by (simp add: event_eq broadcast_def)

end
