(* ===== verification/Segmented_Array.thy ===== *)
theory Segmented_Array
  imports Tewta_Prelude "HOL-Library.Sublist"
begin

text \<open>
  \<open>src/segmented_array.rs\<close>: the array whose items can be removed without changing its hash.
  The bound \<open>N\<close> on the number of segments is the first argument of the constructor loop;
  the hash of an item (\<open>T: Hash\<close>) and SHA-256 (crate \<open>sha2\<close>, whose \<open>update\<close> calls hash the
  concatenation of their arguments) are parameters.
\<close>

section \<open>Data\<close>

datatype 'a Segment =
    Item 'a
  | SubArray "'a SegmentedArray"
  | Unknown bytes
and 'a SegmentedArray = SegmentedArray (segments: "'a Segment list")

fun segment_items :: "'a Segment \<Rightarrow> 'a list"
  and array_items :: "'a SegmentedArray \<Rightarrow> 'a list" where
  "segment_items (Item x) = [x]"
| "segment_items (SubArray a) = array_items a"
| "segment_items (Unknown h) = []"
| "array_items (SegmentedArray segs) = concat (map segment_items segs)"

fun segment_hash :: "('a \<Rightarrow> bytes) \<Rightarrow> (bytes \<Rightarrow> bytes) \<Rightarrow> 'a Segment \<Rightarrow> bytes"
  and array_hash :: "('a \<Rightarrow> bytes) \<Rightarrow> (bytes \<Rightarrow> bytes) \<Rightarrow> 'a SegmentedArray \<Rightarrow> bytes" where
  "segment_hash h sha (Item x) = h x"
| "segment_hash h sha (SubArray a) = array_hash h sha a"
| "segment_hash h sha (Unknown d) = d"
| "array_hash h sha (SegmentedArray segs) = sha (concat (map (segment_hash h sha) segs))"

definition remove_segment ::
  "('a \<Rightarrow> bytes) \<Rightarrow> (bytes \<Rightarrow> bytes) \<Rightarrow> 'a SegmentedArray \<Rightarrow> usize \<Rightarrow> 'a SegmentedArray outcome" where
  "remove_segment h sha a i =
     (if i < length (segments a)
      then Returns (SegmentedArray ((segments a)[i := Unknown (segment_hash h sha (segments a ! i))]))
      else Panics)"

section \<open>Building an array\<close>

text \<open>The inner \<open>for\<close>: up to \<open>k\<close> more segments from the iterator.\<close>

fun take_more :: "nat \<Rightarrow> 'b list \<Rightarrow> 'b list \<times> 'b list" where
  "take_more 0 it = ([], it)"
| "take_more (Suc k) [] = ([], [])"
| "take_more (Suc k) (s # it) = (case take_more k it of (ss, it') \<Rightarrow> (s # ss, it'))"

lemma take_more_eq: "take_more k it = (take k it, drop k it)"
  by (induction k it rule: take_more.induct) simp_all

text \<open>The \<open>while let\<close>: one pass that packs the segments \<open>N\<close> by \<open>N\<close>.\<close>

function pack :: "nat \<Rightarrow> 'a Segment list \<Rightarrow> 'a Segment list" where
  "pack n [] = []"
| "pack n (s # it) =
     (case take_more (n - 1) it of
        (ss, it') \<Rightarrow> SubArray (SegmentedArray (s # ss)) # pack n it')"
  by pat_completeness auto
termination
  by (relation "measure (\<lambda>(n, it). length it)") (auto simp: take_more_eq)

text \<open>
  The outer \<open>loop\<close>, which returns once at most \<open>N\<close> segments are left. \<open>None\<close> is a loop that
  never returns (for \<open>N = 0\<close> the expression \<open>N-1\<close> overflows as well, which a build with
  overflow checks turns into a panic: no value either).
\<close>

partial_function (option) pack_loop :: "nat \<Rightarrow> 'a Segment list \<Rightarrow> 'a SegmentedArray option" where
  "pack_loop n segs =
     (if length segs \<le> n then Some (SegmentedArray segs) else pack_loop n (pack n segs))"

definition from_vec :: "nat \<Rightarrow> 'a list \<Rightarrow> 'a SegmentedArray option" where
  "from_vec n items = pack_loop n (map Item items)"

section \<open>One pass\<close>

lemma pack_Cons:
  "pack n (s # it) = SubArray (SegmentedArray (s # take (n - 1) it)) # pack n (drop (n - 1) it)"
  by (simp add: take_more_eq)

declare pack.simps(2) [simp del]
declare pack_Cons [simp]

lemma pack_items: "concat (map segment_items (pack n segs)) = concat (map segment_items segs)"
proof (induction n segs rule: pack.induct)
  case (2 n s it)
  have "concat (map segment_items (take (n - 1) it)) @ concat (map segment_items (drop (n - 1) it))
      = concat (map segment_items it)"
    by (simp flip: concat_append map_append)
  with 2 show ?case by (simp add: take_more_eq)
qed simp

text \<open>The number of segments is divided by \<open>n\<close>, rounding up.\<close>

lemma length_pack_le: "0 < n \<Longrightarrow> length (pack n segs) \<le> m \<longleftrightarrow> length segs \<le> m * n"
proof (induction n segs arbitrary: m rule: pack.induct)
  case (2 n s it)
  show ?case
  proof (cases m)
    case (Suc k)
    have "length (drop (n - 1) it) \<le> k * n \<longleftrightarrow> Suc (length it) \<le> n + k * n"
      using 2(2) by auto
    with 2 Suc show ?thesis by (simp add: take_more_eq mult.commute)
  qed simp
qed simp

lemma length_pack_less: "2 \<le> n \<Longrightarrow> n < length segs \<Longrightarrow> length (pack n segs) < length segs"
proof -
  assume n: "2 \<le> n" "n < length segs"
  then have "length segs \<le> (length segs - 1) * 2" by simp
  also have "\<dots> \<le> (length segs - 1) * n" using n by simp
  finally have "length (pack n segs) \<le> length segs - 1"
    using n length_pack_le [of n segs "length segs - 1"] by simp
  with n show ?thesis by simp
qed

lemma length_pack_1: "n \<le> 1 \<Longrightarrow> length (pack n segs) = length segs"
  by (induction n segs rule: pack.induct) (simp_all add: take_more_eq)

section \<open>Termination\<close>

lemma pack_loop_returns: "2 \<le> n \<Longrightarrow> \<exists>a. pack_loop n segs = Some a"
proof (induction "length segs" arbitrary: segs rule: less_induct)
  case less
  show ?case
  proof (cases "length segs \<le> n")
    case True
    then show ?thesis by (simp add: pack_loop.simps)
  next
    case False
    then obtain a where "pack_loop n (pack n segs) = Some a"
      using less length_pack_less [of n segs] by auto
    with False show ?thesis by (simp add: pack_loop.simps)
  qed
qed

lemma pack_loop_stuck: "pack_loop n segs = Some a \<Longrightarrow> n \<le> 1 \<longrightarrow> length segs \<le> n"
proof (rule pack_loop.raw_induct [where P = "\<lambda>n segs a. n \<le> 1 \<longrightarrow> length segs \<le> n"])
  fix f :: "nat \<Rightarrow> 'b Segment list \<Rightarrow> 'b SegmentedArray option" and m ss b
  assume IH: "\<And>m ss b. f m ss = Some b \<Longrightarrow> m \<le> 1 \<longrightarrow> length ss \<le> m"
    and eq: "(if length ss \<le> m then Some (SegmentedArray ss) else f m (pack m ss)) = Some b"
  show "m \<le> 1 \<longrightarrow> length ss \<le> m"
    using eq IH [of m "pack m ss" b] by (auto simp: length_pack_1 split: if_splits)
qed

lemma from_vec_None_iff: "from_vec n xs = None \<longleftrightarrow> n \<le> 1 \<and> n < length xs"
proof
  assume None: "from_vec n xs = None"
  then have "\<not> 2 \<le> n"
    using pack_loop_returns [of n "map Item xs"] by (auto simp: from_vec_def)
  moreover have "n < length xs"
    using None by (simp add: from_vec_def pack_loop.simps split: if_splits)
  ultimately show "n \<le> 1 \<and> n < length xs" by simp
next
  assume "n \<le> 1 \<and> n < length xs"
  then show "from_vec n xs = None"
    using pack_loop_stuck [of n "map Item xs"] by (cases "from_vec n xs") (auto simp: from_vec_def)
qed

section \<open>Invariants of the loop\<close>

text \<open>
  A property of segment lists that every pass keeps and that the final list turns into a
  property of the array.
\<close>

lemma pack_loop_rule:
  assumes ret: "pack_loop n segs = Some a"
    and start: "I segs"
    and step: "\<And>ss. I ss \<Longrightarrow> n < length ss \<Longrightarrow> 2 \<le> n \<Longrightarrow> I (pack n ss)"
  shows "\<exists>ss. I ss \<and> length ss \<le> n \<and> a = SegmentedArray ss"
proof (cases "2 \<le> n")
  case False
  then have "length segs \<le> n" using pack_loop_stuck [OF ret] by simp
  with ret start show ?thesis by (auto simp: pack_loop.simps)
next
  case n: True
  have "n' = n \<longrightarrow> I segs' \<longrightarrow> (\<exists>ss. I ss \<and> length ss \<le> n \<and> a' = SegmentedArray ss)"
    if "pack_loop n' segs' = Some a'" for n' segs' a'
  proof (rule pack_loop.raw_induct [OF _ that], intro impI)
    fix f m ss b
    assume IH: "\<And>m ss b. f m ss = Some b \<Longrightarrow>
        m = n \<longrightarrow> I ss \<longrightarrow> (\<exists>ss. I ss \<and> length ss \<le> n \<and> b = SegmentedArray ss)"
      and eq: "(if length ss \<le> m then Some (SegmentedArray ss) else f m (pack m ss)) = Some b"
      and "m = n" and "I ss"
    show "\<exists>ss. I ss \<and> length ss \<le> n \<and> b = SegmentedArray ss"
    proof (cases "length ss \<le> n")
      case True
      with eq \<open>m = n\<close> \<open>I ss\<close> show ?thesis by auto
    next
      case False
      with eq \<open>m = n\<close> have "f n (pack n ss) = Some b" by simp
      from IH [OF this] False step [OF \<open>I ss\<close>] n show ?thesis by simp
    qed
  qed
  with ret start show ?thesis by blast
qed

lemma from_vec_items:
  assumes "from_vec n xs = Some a"
  shows "array_items a = xs"
proof -
  have "concat (map segment_items (map Item xs)) = xs" by (induction xs) simp_all
  then have "\<exists>ss. concat (map segment_items ss) = xs \<and> length ss \<le> n \<and> a = SegmentedArray ss"
    using assms unfolding from_vec_def
    by (intro pack_loop_rule [where I = "\<lambda>ss. concat (map segment_items ss) = xs"])
      (simp_all only: pack_items)
  then show ?thesis by auto
qed

text \<open>No nested array is empty or larger than the bound.\<close>

fun segment_sized :: "nat \<Rightarrow> 'a Segment \<Rightarrow> bool" where
  "segment_sized n (SubArray (SegmentedArray ss)) \<longleftrightarrow>
     ss \<noteq> [] \<and> length ss \<le> n \<and> (\<forall>s\<in>set ss. segment_sized n s)"
| "segment_sized n (Item x) \<longleftrightarrow> True"
| "segment_sized n (Unknown h) \<longleftrightarrow> True"

lemma pack_sized:
  "1 \<le> n \<Longrightarrow> \<forall>s\<in>set ss. segment_sized n s \<Longrightarrow> \<forall>s\<in>set (pack n ss). segment_sized n s"
proof (induction n ss rule: pack.induct)
  case (2 n s it)
  then show ?case
    by (auto simp: take_more_eq dest: in_set_takeD in_set_dropD)
qed simp

lemma from_vec_sized:
  assumes "from_vec n xs = Some a"
  shows "length (segments a) \<le> n \<and> (\<forall>s\<in>set (segments a). segment_sized n s)"
proof -
  have "\<exists>ss. (\<forall>s\<in>set ss. segment_sized n s) \<and> length ss \<le> n \<and> a = SegmentedArray ss"
    using assms unfolding from_vec_def
  proof (rule pack_loop_rule)
    fix ss :: "'a Segment list"
    assume "\<forall>s\<in>set ss. segment_sized n s" and "2 \<le> n"
    then show "\<forall>s\<in>set (pack n ss). segment_sized n s"
      by (intro pack_sized) simp_all
  qed auto
  then show ?thesis by auto
qed

section \<open>Height\<close>

text \<open>
  All items of an array are at the same depth, and the depth is the least one for which
  arrays of at most \<open>n\<close> segments have room for all items.
\<close>

fun segment_depth :: "nat \<Rightarrow> 'a Segment \<Rightarrow> bool" where
  "segment_depth d (Item x) \<longleftrightarrow> d = 0"
| "segment_depth d (SubArray (SegmentedArray ss)) \<longleftrightarrow> (\<exists>d'. d = Suc d' \<and> (\<forall>s\<in>set ss. segment_depth d' s))"
| "segment_depth d (Unknown h) \<longleftrightarrow> False"

lemma pack_depth:
  "\<forall>s\<in>set ss. segment_depth d s \<Longrightarrow> \<forall>s\<in>set (pack n ss). segment_depth (Suc d) s"
proof (induction n ss rule: pack.induct)
  case (2 n s it)
  then show ?case
    by (auto simp: take_more_eq dest: in_set_takeD in_set_dropD)
qed simp

lemma from_vec_height:
  assumes "from_vec n xs = Some a"
  shows "\<exists>d. (\<forall>s\<in>set (segments a). segment_depth d s)
    \<and> length xs \<le> n ^ Suc d \<and> (d = 0 \<or> n ^ d < length xs)"
proof -
  let ?I = "\<lambda>ss. \<exists>d. (\<forall>s\<in>set ss. segment_depth d s)
      \<and> (\<forall>m. length ss \<le> m \<longleftrightarrow> length xs \<le> m * n ^ d) \<and> (d = 0 \<or> n ^ d < length xs)"
  have "?I (map Item xs)" by (intro exI [of _ 0]) auto
  moreover have "?I (pack n ss)" if "?I ss" and "n < length ss" and "2 \<le> n" for ss :: "'a Segment list"
  proof -
    from that(1) obtain d where d: "\<forall>s\<in>set ss. segment_depth d s"
      and len: "\<And>m. length ss \<le> m \<longleftrightarrow> length xs \<le> m * n ^ d"
      by blast
    have "length (pack n ss) \<le> m \<longleftrightarrow> length xs \<le> m * n ^ Suc d" for m
      using that(3) len [of "m * n"] length_pack_le [of n ss m] by (simp add: mult.assoc)
    moreover have "n ^ Suc d < length xs"
      using that(2) len [of n] by (simp add: not_le [symmetric])
    ultimately show ?thesis
      using pack_depth [OF d, of n] by (intro exI [of _ "Suc d"]) simp
  qed
  ultimately have "\<exists>ss. ?I ss \<and> length ss \<le> n \<and> a = SegmentedArray ss"
    using assms unfolding from_vec_def by (intro pack_loop_rule) blast+
  then obtain ss d where "a = SegmentedArray ss" and "length ss \<le> n"
    and "\<forall>s\<in>set ss. segment_depth d s" and "d = 0 \<or> n ^ d < length xs"
    and "length ss \<le> n \<longleftrightarrow> length xs \<le> n * n ^ d"
    by blast
  then show ?thesis by (intro exI [of _ d]) simp
qed

section \<open>Removing segments\<close>

text \<open>
  One call of \<open>remove_segment\<close>, on the array itself or on an array nested in it (the
  \<open>segments\<close> field is public, the callers reach nested arrays through it).
\<close>

inductive redacts ::
  "('a \<Rightarrow> bytes) \<Rightarrow> (bytes \<Rightarrow> bytes) \<Rightarrow> 'a SegmentedArray \<Rightarrow> 'a SegmentedArray \<Rightarrow> bool"
  for h sha where
  here: "remove_segment h sha a i = Returns b \<Longrightarrow> redacts h sha a b"
| nested: "i < length ss \<Longrightarrow> ss ! i = SubArray a \<Longrightarrow> redacts h sha a b \<Longrightarrow>
    redacts h sha (SegmentedArray ss) (SegmentedArray (ss[i := SubArray b]))"

inductive_cases redactsE: "redacts h sha a b"

lemma remove_segment_Returns:
  "remove_segment h sha (SegmentedArray ss) i = Returns b \<longleftrightarrow>
    i < length ss \<and> b = SegmentedArray (ss[i := Unknown (segment_hash h sha (ss ! i))])"
  by (auto simp: remove_segment_def)

lemma map_update_same: "i < length xs \<Longrightarrow> f x = f (xs ! i) \<Longrightarrow> map f (xs[i := x]) = map f xs"
  by (simp add: map_update list_update_same_conv)

lemma concat_update_subseq:
  "i < length xs \<Longrightarrow> subseq (f y) (f (xs ! i)) \<Longrightarrow>
    subseq (concat (map f (xs[i := y]))) (concat (map f xs))"
proof (induction xs arbitrary: i)
  case (Cons x xs)
  then show ?case
    by (cases i) (auto intro: list_emb_append_mono subseq_append_iff)
qed simp

lemma redacts_hash: "redacts h sha a b \<Longrightarrow> array_hash h sha b = array_hash h sha a"
proof (induction rule: redacts.induct)
  case (here a i b)
  then show ?case
    by (cases a) (auto simp: remove_segment_Returns map_update_same)
next
  case (nested i ss a b)
  then show ?case by (simp add: map_update_same)
qed

lemma redacts_items: "redacts h sha a b \<Longrightarrow> subseq (array_items b) (array_items a)"
proof (induction rule: redacts.induct)
  case (here a i b)
  then show ?case
    by (cases a) (auto simp: remove_segment_Returns intro: concat_update_subseq)
next
  case (nested i ss a b)
  then show ?case by (simp add: concat_update_subseq)
qed

text \<open>
  The interface: a digest that does not change along a relation does not change along its
  reflexive transitive closure.
\<close>

locale stable_digest =
  fixes digest :: "'s \<Rightarrow> 'd"
    and content :: "'s \<Rightarrow> 'x list"
    and step :: "'s \<Rightarrow> 's \<Rightarrow> bool"
  assumes step_digest: "step a b \<Longrightarrow> digest b = digest a"
    and step_content: "step a b \<Longrightarrow> subseq (content b) (content a)"
begin

lemma digest_stable: "step\<^sup>*\<^sup>* a b \<Longrightarrow> digest b = digest a"
  by (induction rule: rtranclp_induct) (auto simp: step_digest)

lemma content_shrinks: "step\<^sup>*\<^sup>* a b \<Longrightarrow> subseq (content b) (content a)"
proof (induction rule: rtranclp_induct)
  case (step b c)
  then show ?case using step_content subseq_order.order_trans by blast
qed simp

end

interpretation redaction: stable_digest "array_hash h sha" array_items "redacts h sha" for h sha
  by unfold_locales (auto intro: redacts_hash redacts_items)

section \<open>What the hash binds\<close>

text \<open>
  Two arrays of the same shape (their items erased, they are equal) with the same hash have
  the same item hashes, position by position, unless they exhibit two different inputs on
  which SHA-256 agrees. The inputs of SHA-256 in the hash of an array are its preimages.
\<close>

fun segment_preimages :: "('a \<Rightarrow> bytes) \<Rightarrow> (bytes \<Rightarrow> bytes) \<Rightarrow> 'a Segment \<Rightarrow> bytes list"
  and array_preimages :: "('a \<Rightarrow> bytes) \<Rightarrow> (bytes \<Rightarrow> bytes) \<Rightarrow> 'a SegmentedArray \<Rightarrow> bytes list" where
  "segment_preimages h sha (Item x) = []"
| "segment_preimages h sha (SubArray a) = array_preimages h sha a"
| "segment_preimages h sha (Unknown d) = []"
| "array_preimages h sha (SegmentedArray segs) =
     concat (map (segment_hash h sha) segs) # concat (map (segment_preimages h sha) segs)"

definition apart :: "('x \<Rightarrow> 'y) \<Rightarrow> 'x list \<Rightarrow> 'x list \<Rightarrow> bool" where
  "apart f xs ys \<longleftrightarrow> (\<forall>x\<in>set xs. \<forall>y\<in>set ys. f x = f y \<longrightarrow> x = y)"

definition shape :: "'a SegmentedArray \<Rightarrow> unit SegmentedArray" where
  "shape = map_SegmentedArray (\<lambda>_. ())"

lemma concat_eq_pointwise:
  assumes "list_all2 (\<lambda>x y. length (f x) = length (g y)) xs ys"
    and "concat (map f xs) = concat (map g ys)"
  shows "list_all2 (\<lambda>x y. f x = g y) xs ys"
  using assms by (induction rule: list_all2_induct) auto

lemma concat_map_pointwise: "list_all2 (\<lambda>x y. f x = g y) xs ys \<Longrightarrow> concat (map f xs) = concat (map g ys)"
  by (induction rule: list_all2_induct) auto

lemma same_shape_hash_length:
  assumes "\<And>x. length (h x) = 32" and "\<And>x. length (sha x) = 32"
    and "map_Segment (\<lambda>_. ()) s = map_Segment (\<lambda>_. ()) t"
  shows "length (segment_hash h sha s) = length (segment_hash h sha t)"
proof -
  have array: "length (array_hash h sha a) = 32" for a :: "'a SegmentedArray"
    by (cases a) (simp add: assms(2))
  show ?thesis using assms(1,3) array by (cases s; cases t) auto
qed

lemma merkle_binding_step:
  fixes h :: "'a \<Rightarrow> bytes" and s :: "'a Segment" and a :: "'a SegmentedArray"
  assumes len: "\<And>x. length (h x) = 32" "\<And>x. length (sha x) = 32"
  shows "map_Segment (\<lambda>_. ()) s = map_Segment (\<lambda>_. ()) t \<Longrightarrow>
      segment_hash h sha s = segment_hash h sha t \<Longrightarrow>
      apart sha (segment_preimages h sha s) (segment_preimages h sha t) \<Longrightarrow>
      map h (segment_items s) = map h (segment_items t)"
    and "shape a = shape b \<Longrightarrow> array_hash h sha a = array_hash h sha b \<Longrightarrow>
      apart sha (array_preimages h sha a) (array_preimages h sha b) \<Longrightarrow>
      map h (array_items a) = map h (array_items b)"
proof (induction s and a arbitrary: t and b rule: Segment.induct SegmentedArray.induct)
  case (Item x)
  then show ?case by (cases t) auto
next
  case (SubArray a)
  from SubArray.prems(1) obtain b where t: "t = SubArray b" and "shape a = shape b"
    by (cases t) (simp_all add: shape_def)
  with SubArray.IH [of b] SubArray.prems(2,3) show ?case by simp
next
  case (Unknown d)
  then show ?case by (cases t) auto
next
  case (SegmentedArray ss)
  obtain ts where b: "b = SegmentedArray ts" by (cases b)
  have shapes: "list_all2 (\<lambda>s t. map_Segment (\<lambda>_. ()) s = map_Segment (\<lambda>_. ()) t) ss ts"
    using SegmentedArray.prems(1) unfolding b
    by (simp add: shape_def list_eq_iff_nth_eq list_all2_conv_all_nth)
  moreover have "concat (map (segment_hash h sha) ss) = concat (map (segment_hash h sha) ts)"
    using SegmentedArray.prems(2,3) by (simp add: b apart_def)
  ultimately have hashes: "list_all2 (\<lambda>s t. segment_hash h sha s = segment_hash h sha t) ss ts"
    by (intro concat_eq_pointwise)
      (auto intro: list_all2_mono same_shape_hash_length [OF len])
  have below: "apart sha (segment_preimages h sha s) (segment_preimages h sha t)"
    if "s \<in> set ss" "t \<in> set ts" for s t
    using SegmentedArray.prems(3) that by (auto simp: b apart_def)
  have "list_all2 (\<lambda>s t. map h (segment_items s) = map h (segment_items t)) ss ts"
    using shapes hashes SegmentedArray.IH below by (auto simp: list_all2_conv_all_nth)
  from concat_map_pointwise [OF this] show ?case
    by (simp add: b map_concat comp_def)
qed

text \<open>The construction does not look at the items: it commutes with any map on them.\<close>

lemma pack_map: "pack n (map (map_Segment f) ss) = map (map_Segment f) (pack n ss)"
proof (induction n ss rule: pack.induct)
  case (2 n s it)
  then show ?case by (simp add: take_more_eq take_map drop_map)
qed simp

lemma from_vec_map:
  assumes "from_vec n xs = Some a"
  shows "from_vec n (map f xs) = Some (map_SegmentedArray f a)"
proof -
  have "pack_loop n (map (map_Segment f) ss) = Some (map_SegmentedArray f a)"
    if "pack_loop n ss = Some a" for ss
    using that
  proof (rule pack_loop.raw_induct [where P = "\<lambda>n ss a. pack_loop n (map (map_Segment f) ss) =
      Some (map_SegmentedArray f a)", rotated])
    fix g :: "nat \<Rightarrow> 'a Segment list \<Rightarrow> 'a SegmentedArray option" and m ss b
    assume IH: "\<And>m ss b. g m ss = Some b \<Longrightarrow>
        pack_loop m (map (map_Segment f) ss) = Some (map_SegmentedArray f b)"
      and eq: "(if length ss \<le> m then Some (SegmentedArray ss) else g m (pack m ss)) = Some b"
    show "pack_loop m (map (map_Segment f) ss) = Some (map_SegmentedArray f b)"
      using eq IH [of m "pack m ss" b]
      by (subst pack_loop.simps) (auto simp: pack_map split: if_splits)
  qed
  from this [of "map Item xs"] assms show ?thesis by (simp add: from_vec_def comp_def)
qed

lemma from_vec_shape:
  assumes "from_vec n xs = Some a" and "from_vec n ys = Some b" and "length xs = length ys"
  shows "shape a = shape b"
proof -
  have "map (\<lambda>_. ()) xs = map (\<lambda>_. ()) ys" using assms(3) by (auto intro: nth_equalityI)
  then show ?thesis
    using from_vec_map [OF assms(1), of "\<lambda>_. ()"] from_vec_map [OF assms(2), of "\<lambda>_. ()"]
    by (simp add: shape_def)
qed

lemma from_vec_binding:
  assumes "\<And>x. length (h x) = 32" and "\<And>x. length (sha x) = 32"
    and "from_vec n xs = Some a" and "from_vec n ys = Some b" and "length xs = length ys"
    and "array_hash h sha a = array_hash h sha b"
    and "apart sha (array_preimages h sha a) (array_preimages h sha b)" and "apart h xs ys"
  shows "xs = ys"
proof -
  have "map h xs = map h ys"
    using merkle_binding_step(2) [of h sha a b] from_vec_shape assms from_vec_items by metis
  with assms(5,8) show ?thesis
    by (auto simp: apart_def list_eq_iff_nth_eq)
qed

section \<open>Properties\<close>



text \<open>
  C35: the construction returns for every vector when a node may have at least two segments, and
  otherwise exactly when the vector fits in one node; with one segment per node and two items it
  never ends.
\<close>

theorem from_vec_terminates_iff:
  "(\<exists>a. from_vec n xs = Some a) \<longleftrightarrow> 2 \<le> n \<or> length xs \<le> n"
  using from_vec_None_iff [of n xs] by (cases "from_vec n xs") auto

text \<open>
  C37: replacing segments by their hashes, any number of times and at any depth, changes neither
  the hash of the array nor the order of the items that are left.
\<close>

theorem redaction_keeps_hash:
  assumes "(redacts h sha)\<^sup>*\<^sup>* a b"
  shows "array_hash h sha b = array_hash h sha a \<and> subseq (array_items b) (array_items a)"
  using redaction.digest_stable [OF assms] redaction.content_shrinks [OF assms] by blast

theorem redaction_keeps_hash_witness:
  "array_hash (\<lambda>x. [x]) rev (SegmentedArray [Unknown [1], Item 2]) =
   array_hash (\<lambda>x. [x]) rev (SegmentedArray [Item 1, Item (2::u8)])"
proof -
  have "redacts (\<lambda>x. [x]) rev (SegmentedArray [Item 1, Item (2::u8)]) (SegmentedArray [Unknown [1], Item 2])"
    by (rule redacts.here [where i = 0]) (simp add: remove_segment_def)
  then have "(redacts (\<lambda>x. [x]) rev)\<^sup>*\<^sup>* (SegmentedArray [Item 1, Item (2::u8)]) (SegmentedArray [Unknown [1], Item 2])"
    by blast
  from redaction_keeps_hash [OF this] show ?thesis by blast
qed

text \<open>
  The hash binds the vector: two vectors of the same length whose arrays have the same hash
  are equal, unless two of the inputs hashed on the way collide, or two of their items do.
\<close>

theorem array_hash_binds:
  assumes "\<And>x. length (h x) = 32" and "\<And>x. length (sha x) = 32"
    and "from_vec n xs = Some a" and "from_vec n ys = Some b" and "length xs = length ys"
    and "array_hash h sha a = array_hash h sha b"
    and "apart sha (array_preimages h sha a) (array_preimages h sha b)" and "apart h xs ys"
  shows "xs = ys"
  using from_vec_binding assms by blast

theorem array_hash_binds_witness:
  "\<exists>a. from_vec 2 [5::u8] = Some a \<and> [5::u8] = [5]"
proof -
  let ?h = "\<lambda>x :: u8. replicate 32 x" and ?sha = "\<lambda>bs :: bytes. take 32 (bs @ replicate 32 0)"
  obtain a where a: "from_vec 2 [5::u8] = Some a"
    using from_vec_None_iff [of 2 "[5::u8]"] by fastforce
  have "a = SegmentedArray [Item 5]"
    using a by (simp add: from_vec_def pack_loop.simps)
  then have "apart ?sha (array_preimages ?h ?sha a) (array_preimages ?h ?sha a)"
    by (simp add: apart_def)
  then have "[5::u8] = [5]"
    by (intro array_hash_binds [OF _ _ a a, of ?h ?sha]) (simp_all add: apart_def)
  with a show ?thesis by blast
qed

end
