(* ===== verification/Decimal.thy ===== *)
theory Decimal
  imports Tewta_Prelude
begin

text \<open>
  Decimal text of unsigned integers, as the standard library prints (\<open>{}\<close>) and parses
  (\<open>str::parse::<usize>\<close>) them.
\<close>

definition is_ascii_digit :: "char \<Rightarrow> bool" where
  "is_ascii_digit ch \<longleftrightarrow> 48 \<le> (of_char ch :: nat) \<and> of_char ch \<le> (57 :: nat)"

definition digit_value :: "char \<Rightarrow> nat" where
  "digit_value ch = of_char ch - 48"

definition digit_char :: "nat \<Rightarrow> char" where
  "digit_char d = char_of (48 + d)"

fun show_nat :: "nat \<Rightarrow> string" where
  "show_nat n = (if n < 10 then [digit_char n] else show_nat (n div 10) @ [digit_char (n mod 10)])"

declare show_nat.simps [simp del]

definition decimal_value :: "string \<Rightarrow> nat" where
  "decimal_value s = foldl (\<lambda>v ch. v * 10 + digit_value ch) 0 s"

datatype parse_int_error = PEmpty | PInvalidDigit | PPosOverflow

text \<open>\<open>usize::from_str\<close>: an optional \<open>+\<close>, then at least one digit, up to \<open>usize::MAX\<close>.\<close>

definition parse_usize :: "string \<Rightarrow> parse_int_error + usize" where
  "parse_usize s =
     (case s of
        [] \<Rightarrow> Inl PEmpty
      | ch # cs \<Rightarrow>
          if cs = [] \<and> (ch = CHR ''+'' \<or> ch = CHR ''-'') then Inl PInvalidDigit
          else let ds = (if ch = CHR ''+'' then cs else s)
               in if \<not> list_all is_ascii_digit ds then Inl PInvalidDigit
                  else if decimal_value ds > usize_max then Inl PPosOverflow
                  else Inr (decimal_value ds))"

lemma of_char_digit_char: "d < 10 \<Longrightarrow> (of_char (digit_char d) :: nat) = 48 + d"
  by (simp add: digit_char_def)

lemma digit_char_digit [simp]: "d < 10 \<Longrightarrow> is_ascii_digit (digit_char d)"
  by (simp add: is_ascii_digit_def of_char_digit_char)

lemma digit_value_char [simp]: "d < 10 \<Longrightarrow> digit_value (digit_char d) = d"
  by (simp add: digit_value_def of_char_digit_char)

lemma decimal_value_snoc: "decimal_value (s @ [ch]) = decimal_value s * 10 + digit_value ch"
  by (simp add: decimal_value_def)

lemma show_nat_digits: "list_all is_ascii_digit (show_nat n)"
proof (induction n rule: show_nat.induct)
  case (1 n)
  then show ?case by (subst show_nat.simps) simp
qed

lemma show_nat_nonempty [simp]: "show_nat n \<noteq> []"
  by (subst show_nat.simps) simp

lemma decimal_value_show [simp]: "decimal_value (show_nat n) = n"
proof (induction n rule: show_nat.induct)
  case (1 n)
  show ?case
  proof (cases "n < 10")
    case True
    then show ?thesis by (subst show_nat.simps) (simp add: decimal_value_def)
  next
    case False
    with 1 show ?thesis by (subst show_nat.simps) (simp add: decimal_value_snoc)
  qed
qed

lemma not_digit_sign: "is_ascii_digit ch \<Longrightarrow> ch \<noteq> CHR ''+'' \<and> ch \<noteq> CHR ''-''"
  by (auto simp: is_ascii_digit_def)

lemma parse_usize_digits:
  assumes "s \<noteq> []" and "list_all is_ascii_digit s"
  shows "parse_usize s =
    (if decimal_value s > usize_max then Inl PPosOverflow else Inr (decimal_value s))"
  using assms not_digit_sign by (cases s) (auto simp: parse_usize_def Let_def)

lemma parse_usize_show: "n \<le> usize_max \<Longrightarrow> parse_usize (show_nat n) = Inr n"
  by (simp add: parse_usize_digits show_nat_digits)

end
