(* ===== verification/Command_Parsing.thy ===== *)
theory Command_Parsing
  imports Decimal Peer_Id "HOL-Library.Sublist"
begin

text \<open>
  \<open>src/commands\<close>: the commands of the simulation and the parser of their destinators. The
  bytes of a \<open>&str\<close> are a \<^typ>\<open>string\<close>; an error is the static text of the source, a panic
  (an index past the end of the input, \<open>unwrap\<close> of a number that overflows) is \<open>Panics\<close>.
  The parser of the command itself is generated by \<open>structopt\<close> and is a parameter.
\<close>

datatype Command =
    Conns
  | Buckets
  | RefreshBuckets
  | SetLogLevel u8
  | PingCommand PeerID
  | Find KeyID
  | Id
  | Add bool bool "string list"
  | Fetch bool bool "string option"
  | Commit "string option" bool

datatype 'e CommandParsingError = Prefix string | Clap 'e

definition show_parsing_error :: "('e \<Rightarrow> string) \<Rightarrow> 'e CommandParsingError \<Rightarrow> string" where
  "show_parsing_error show_clap e = (case e of Prefix s \<Rightarrow> s | Clap c \<Rightarrow> show_clap c)"

section \<open>Numbers\<close>

function digit_loop :: "string \<Rightarrow> nat \<Rightarrow> nat outcome" where
  "digit_loop input i =
     (if i < length input
      then if is_ascii_digit (input ! i) then digit_loop input (Suc i) else Returns i
      else Panics)"
  by pat_completeness auto
termination
  by (relation "measure (\<lambda>(input, i). length input - i)") auto

declare digit_loop.simps [simp del]

definition read_number :: "string \<Rightarrow> (string + string \<times> usize) outcome" where
  "read_number input =
     bind_outcome (digit_loop input 0)
       (\<lambda>i. if i = 0 then Returns (Inl ''No number found'')
            else case parse_usize (take i input) of
                   Inl e \<Rightarrow> Panics
                 | Inr n \<Rightarrow> Returns (Inr (drop i input, n)))"

section \<open>Destinators\<close>

datatype DestinatorItem = Single usize | Range usize usize

text \<open>\<open>read_number(..).map_err(|_| msg)?\<close> followed by the rest of the function.\<close>

definition read_number_or ::
  "string \<Rightarrow> string \<Rightarrow> (string \<Rightarrow> usize \<Rightarrow> (string + 'a) outcome) \<Rightarrow> (string + 'a) outcome" where
  "read_number_or msg input k =
     bind_outcome (read_number input)
       (\<lambda>r. case r of Inl _ \<Rightarrow> Returns (Inl msg) | Inr (input, n) \<Rightarrow> k input n)"

definition read_destinator_item :: "string \<Rightarrow> (string + string \<times> DestinatorItem) outcome" where
  "read_destinator_item input =
     read_number_or ''No first number found'' input
       (\<lambda>input first.
          if prefix '' '' input \<or> prefix '','' input then Returns (Inr (input, Single first))
          else if prefix ''-'' input then
            read_number_or ''No second number found'' (drop 1 input)
              (\<lambda>input second. Returns (Inr (input, Range first second)))
          else Returns (Inl ''No destinator item found''))"

lemma digit_loop_Returns:
  "digit_loop input i = Returns j \<Longrightarrow>
    i \<le> j \<and> j < length input \<and> (\<forall>k. i \<le> k \<and> k < j \<longrightarrow> is_ascii_digit (input ! k))
      \<and> \<not> is_ascii_digit (input ! j)"
proof (induction input i rule: digit_loop.induct)
  case (1 input i)
  then show ?case
    by (auto simp: digit_loop.simps [of input i] split: if_splits)
      (metis le_antisym not_less_eq_eq)
qed

lemma read_number_shrinks:
  "read_number input = Returns (Inr (rest, n)) \<Longrightarrow> length rest < length input"
  by (auto simp: read_number_def bind_outcome_Returns_iff split: if_splits sum.splits
      dest: digit_loop_Returns)

lemma read_number_or_Inr_iff:
  "read_number_or msg input k = Returns (Inr y) \<longleftrightarrow>
    (\<exists>rest n. read_number input = Returns (Inr (rest, n)) \<and> k rest n = Returns (Inr y))"
  by (cases "read_number input")
    (auto simp: read_number_or_def split: sum.splits)

lemma read_item_shrinks:
  "read_destinator_item input = Returns (Inr (rest, it)) \<Longrightarrow> length rest < length input"
proof -
  assume "read_destinator_item input = Returns (Inr (rest, it))"
  then obtain mid first where first: "read_number input = Returns (Inr (mid, first))"
    and or: "rest = mid \<or> (\<exists>second. read_number (drop 1 mid) = Returns (Inr (rest, second)))"
    by (auto simp: read_destinator_item_def read_number_or_Inr_iff split: if_splits)
  from read_number_shrinks [OF first] or show ?thesis
    by (auto dest!: read_number_shrinks)
qed

function read_items :: "string \<Rightarrow> (string + string \<times> DestinatorItem list) outcome" where
  "read_items input =
     (case read_destinator_item input of
        Panics \<Rightarrow> Panics
      | Returns (Inl e) \<Rightarrow> Returns (Inl e)
      | Returns (Inr (input', destinator)) \<Rightarrow>
          if prefix '','' input' then
            bind_outcome (read_items (drop 1 input'))
              (\<lambda>r. Returns (case r of Inl e \<Rightarrow> Inl e | Inr (rest, ds) \<Rightarrow> Inr (rest, destinator # ds)))
          else if prefix '' '' input' then Returns (Inr (drop 1 input', [destinator]))
          else Returns (Inl ''Strange character in destinator sequence''))"
  by pat_completeness auto
termination
proof (relation "measure length", simp)
  fix input x2 b input' destinator
  assume "read_destinator_item input = Returns x2" "x2 = Inr b" "(input', destinator) = b"
  then have "length input' < length input" by (auto dest: read_item_shrinks)
  then show "(drop 1 input', input) \<in> measure length" by simp
qed

declare read_items.simps [simp del]

fun expand_item :: "DestinatorItem \<Rightarrow> usize list" where
  "expand_item (Single d) = [d]"
| "expand_item (Range first second) = [first..<Suc second]"

definition read_destinators :: "string \<Rightarrow> (string + string \<times> usize list) outcome" where
  "read_destinators input =
     bind_outcome (read_items input)
       (\<lambda>r. Returns (case r of Inl e \<Rightarrow> Inl e | Inr (rest, ds) \<Rightarrow> Inr (rest, concat (map expand_item ds))))"

section \<open>A whole command line\<close>

text \<open>
  \<open>str::trim\<close> removes the characters with the property \<open>White_Space\<close>, here by their UTF-8
  encodings, from both ends.
\<close>

definition utf8 :: "nat list \<Rightarrow> string" where
  "utf8 = map char_of"

definition whitespace :: "string list" where
  "whitespace =
     map utf8 ([[9], [10], [11], [12], [13], [32], [194, 133], [194, 160], [225, 154, 128],
       [226, 128, 168], [226, 128, 169], [226, 128, 175], [226, 129, 159], [227, 128, 128]]
       @ map (\<lambda>n. [226, 128, n]) [128..<139])"

function trim_start :: "string \<Rightarrow> string" where
  "trim_start s =
     (case filter (\<lambda>w. prefix w s \<and> w \<noteq> []) whitespace of
        [] \<Rightarrow> s
      | w # _ \<Rightarrow> trim_start (drop (length w) s))"
  by pat_completeness auto
termination
proof (relation "measure length", simp)
  fix s w :: string and ws
  assume "filter (\<lambda>w. prefix w s \<and> w \<noteq> []) whitespace = w # ws"
  then have "prefix w s \<and> w \<noteq> []" by (metis (mono_tags, lifting) filter_eq_ConsD)
  then show "(drop (length w) s, s) \<in> measure length"
    by (cases s) auto
qed

function trim_end :: "string \<Rightarrow> string" where
  "trim_end s =
     (case filter (\<lambda>w. suffix w s \<and> w \<noteq> []) whitespace of
        [] \<Rightarrow> s
      | w # _ \<Rightarrow> trim_end (take (length s - length w) s))"
  by pat_completeness auto
termination
proof (relation "measure length", simp)
  fix s w :: string and ws
  assume "filter (\<lambda>w. suffix w s \<and> w \<noteq> []) whitespace = w # ws"
  then have "suffix w s \<and> w \<noteq> []" by (metis (mono_tags, lifting) filter_eq_ConsD)
  then show "(take (length s - length w) s, s) \<in> measure length"
    by (cases s) (auto simp: suffix_def)
qed

declare trim_start.simps [simp del] trim_end.simps [simp del]

fun split_space :: "string \<Rightarrow> string list" where
  "split_space [] = [[]]"
| "split_space (ch # s) =
     (if ch = CHR '' '' then [] # split_space s
      else case split_space s of [] \<Rightarrow> [[ch]] | w # ws \<Rightarrow> (ch # w) # ws)"

definition parse_command ::
  "(string list \<Rightarrow> 'e + Command) \<Rightarrow> string \<Rightarrow> ('e CommandParsingError + usize list \<times> Command) outcome" where
  "parse_command from_iter_safe input =
     bind_outcome (read_destinators input)
       (\<lambda>r. case r of
          Inl e \<Rightarrow> Returns (Inl (Prefix e))
        | Inr (input, destinators) \<Rightarrow>
            let input = trim_end (trim_start input)
            in (case from_iter_safe (''Tewta'' # split_space input) of
                  Inl e \<Rightarrow> Returns (Inl (Clap e))
                | Inr command \<Rightarrow> Returns (Inr (destinators, command))))"

section \<open>Reading back what is printed\<close>

text \<open>How a user writes a destinator sequence: \<open>2-5,7\<close>.\<close>

fun show_item :: "DestinatorItem \<Rightarrow> string" where
  "show_item (Single d) = show_nat d"
| "show_item (Range first second) = show_nat first @ ''-'' @ show_nat second"

fun show_items :: "DestinatorItem list \<Rightarrow> string" where
  "show_items [] = ''''"
| "show_items [it] = show_item it"
| "show_items (it # its) = show_item it @ '','' @ show_items its"

fun item_fits :: "DestinatorItem \<Rightarrow> bool" where
  "item_fits (Single d) \<longleftrightarrow> d \<le> usize_max"
| "item_fits (Range first second) \<longleftrightarrow> first \<le> usize_max \<and> second \<le> usize_max"

lemma digit_loop_skip:
  "list_all is_ascii_digit s \<Longrightarrow> digit_loop (p @ s @ rest) (length p) = digit_loop (p @ s @ rest) (length (p @ s))"
proof (induction s arbitrary: p)
  case Nil
  then show ?case by simp
next
  case (Cons d s)
  have "digit_loop (p @ (d # s) @ rest) (length p) = digit_loop ((p @ [d]) @ s @ rest) (length (p @ [d]))"
    using Cons.prems by (subst digit_loop.simps) (simp add: nth_append)
  also have "\<dots> = digit_loop ((p @ [d]) @ s @ rest) (length ((p @ [d]) @ s))"
    using Cons.prems by (intro Cons.IH) simp
  finally show ?case by simp
qed

text \<open>The loop in closed form: the index of the first character that is no digit.\<close>

lemma digit_loop_closed:
  "digit_loop input 0 =
    (if list_all is_ascii_digit input then Panics
     else Returns (length (takeWhile is_ascii_digit input)))"
proof -
  let ?s = "takeWhile is_ascii_digit input" and ?r = "dropWhile is_ascii_digit input"
  have digits: "list_all is_ascii_digit ?s"
    by (auto simp: list_all_iff dest: set_takeWhileD)
  have "digit_loop input 0 = digit_loop (?s @ ?r) (length ?s)"
    using digit_loop_skip [OF digits, of "[]" ?r] by simp
  also have "\<dots> = (if ?r = [] then Panics else Returns (length ?s))"
  proof (cases ?r)
    case Nil
    then have len: "length ?s = length input" by (metis append_Nil2 takeWhile_dropWhile_id)
    show ?thesis by (subst digit_loop.simps) (simp add: len Nil)
  next
    case (Cons ch r)
    then have "\<not> is_ascii_digit ch" by (simp add: dropWhile_eq_Cons_conv)
    with Cons show ?thesis by (subst digit_loop.simps) (simp add: nth_append del: takeWhile_dropWhile_id)
  qed
  also have "?r = [] \<longleftrightarrow> list_all is_ascii_digit input"
    by (simp add: list_all_iff dropWhile_eq_Nil_conv)
  finally show ?thesis .
qed

lemma read_number_closed:
  "read_number input =
    (let s = takeWhile is_ascii_digit input
     in if list_all is_ascii_digit input then Panics
        else if s = [] then Returns (Inl ''No number found'')
        else if decimal_value s > usize_max then Panics
        else Returns (Inr (dropWhile is_ascii_digit input, decimal_value s)))"
proof -
  let ?s = "takeWhile is_ascii_digit input"
  have digits: "list_all is_ascii_digit ?s"
    by (auto simp: list_all_iff dest: set_takeWhileD)
  show ?thesis
    by (simp add: read_number_def digit_loop_closed Let_def parse_usize_digits [OF _ digits]
        takeWhile_eq_take [symmetric] dropWhile_eq_drop [symmetric])
qed

lemma read_number_show:
  assumes "n \<le> usize_max" and "\<not> is_ascii_digit ch"
  shows "read_number (show_nat n @ ch # rest) = Returns (Inr (ch # rest, n))"
  using assms show_nat_digits [of n]
  by (simp add: read_number_closed Let_def list_all_iff takeWhile_append dropWhile_append)

lemma separators_no_digits [simp]:
  "\<not> is_ascii_digit CHR '' ''" "\<not> is_ascii_digit CHR '',''" "\<not> is_ascii_digit CHR ''-''"
  by (simp_all add: is_ascii_digit_def)

lemma read_item_show:
  assumes "item_fits it" and "ch = CHR '' '' \<or> ch = CHR '',''"
  shows "read_destinator_item (show_item it @ ch # rest) = Returns (Inr (ch # rest, it))"
  using assms
  by (cases it) (auto simp: read_destinator_item_def read_number_or_def read_number_show)

lemma read_items_show:
  "its \<noteq> [] \<Longrightarrow> list_all item_fits its \<Longrightarrow>
    read_items (show_items its @ CHR '' '' # rest) = Returns (Inr (rest, its))"
proof (induction its rule: show_items.induct)
  case 1
  then show ?case by simp
next
  case (2 it)
  then show ?case by (subst read_items.simps) (simp add: read_item_show)
next
  case (3 it it' its)
  then show ?case by (subst read_items.simps) (simp add: read_item_show del: show_items.simps(2))
qed

section \<open>Inputs without a panic\<close>

text \<open>
  The index of \<open>read_number\<close> stays in range as long as a character other than a digit is left,
  and \<open>unwrap\<close> succeeds as long as no run of digits exceeds \<open>usize::MAX\<close>.
\<close>

definition numbers_fit :: "string \<Rightarrow> bool" where
  "numbers_fit input \<longleftrightarrow>
     (\<forall>s. sublist s input \<and> list_all is_ascii_digit s \<longrightarrow> decimal_value s \<le> usize_max)"

definition safe_end :: "string \<Rightarrow> bool" where
  "safe_end input \<longleftrightarrow>
     input \<noteq> [] \<and> \<not> is_ascii_digit (last input) \<and> last input \<notin> {CHR '','', CHR ''-''}"

lemma numbers_fit_suffix: "numbers_fit input \<Longrightarrow> suffix rest input \<Longrightarrow> numbers_fit rest"
  unfolding numbers_fit_def using sublist_order.order_trans suffix_imp_sublist by blast

lemma safe_end_suffix: "safe_end input \<Longrightarrow> suffix rest input \<Longrightarrow> rest \<noteq> [] \<Longrightarrow> safe_end rest"
  by (auto simp: safe_end_def suffix_def)

lemma safe_end_no_panic_read:
  assumes "safe_end input" and "numbers_fit input"
  shows "read_number input \<noteq> Panics"
proof -
  let ?s = "takeWhile is_ascii_digit input"
  have "\<not> list_all is_ascii_digit input"
    using assms(1) by (auto simp: safe_end_def list_all_iff dest: last_in_set)
  moreover have "sublist ?s input" "list_all is_ascii_digit ?s"
    by (auto simp: list_all_iff takeWhile_is_prefix dest: set_takeWhileD)
  then have "decimal_value ?s \<le> usize_max"
    using assms(2) by (simp add: numbers_fit_def)
  ultimately show ?thesis by (simp add: read_number_closed Let_def)
qed

lemma read_number_suffix:
  "read_number input = Returns (Inr (rest, n)) \<Longrightarrow> safe_end input \<Longrightarrow> suffix rest input \<and> safe_end rest"
  using safe_end_suffix [of input rest]
  by (fastforce simp: read_number_closed Let_def suffix_dropWhile dropWhile_eq_Nil_conv list_all_iff
      split: if_splits)

lemma safe_tail:
  assumes "safe_end (ch # rest)" and "ch = CHR '','' \<or> ch = CHR ''-''"
  shows "safe_end rest \<and> suffix rest (ch # rest)"
  using assms by (auto simp: safe_end_def suffix_ConsI split: if_splits)

lemma read_number_or_Panics_iff:
  "read_number_or msg input k = Panics \<longleftrightarrow>
    read_number input = Panics \<or>
    (\<exists>rest n. read_number input = Returns (Inr (rest, n)) \<and> k rest n = Panics)"
  by (cases "read_number input") (auto simp: read_number_or_def split: sum.splits)

lemma tail_safe:
  assumes "safe_end mid" and "prefix [ch] mid" and "ch = CHR '','' \<or> ch = CHR ''-''"
  shows "safe_end (drop 1 mid) \<and> suffix (drop 1 mid) mid"
  using assms safe_tail by (cases mid) auto

lemma read_item_no_panic:
  assumes "safe_end input" and "numbers_fit input"
  shows "read_destinator_item input \<noteq> Panics"
proof
  assume "read_destinator_item input = Panics"
  then obtain mid n where mid: "read_number input = Returns (Inr (mid, n))"
    and minus: "prefix ''-'' mid" and bad: "read_number (drop 1 mid) = Panics"
    using safe_end_no_panic_read [OF assms]
    by (auto simp: read_destinator_item_def read_number_or_Panics_iff split: if_splits)
  from read_number_suffix [OF mid assms(1)] tail_safe [of mid] minus
  have "safe_end (drop 1 mid)" "suffix (drop 1 mid) input"
    by (auto intro: suffix_order.trans)
  with assms(2) bad show False
    using safe_end_no_panic_read numbers_fit_suffix by blast
qed

lemma read_item_suffix:
  assumes "read_destinator_item input = Returns (Inr (rest, it))" and "safe_end input"
  shows "suffix rest input \<and> safe_end rest"
proof -
  from assms(1) obtain mid first where mid: "read_number input = Returns (Inr (mid, first))"
    and or: "rest = mid \<or> prefix ''-'' mid \<and> (\<exists>second. read_number (drop 1 mid) = Returns (Inr (rest, second)))"
    by (auto simp: read_destinator_item_def read_number_or_Inr_iff split: if_splits)
  from read_number_suffix [OF mid assms(2)] have mid_ok: "suffix mid input" "safe_end mid" by simp_all
  from or show ?thesis
  proof
    assume "prefix ''-'' mid \<and> (\<exists>second. read_number (drop 1 mid) = Returns (Inr (rest, second)))"
    then show ?thesis
      using tail_safe [OF mid_ok(2)] mid_ok(1) read_number_suffix [of "drop 1 mid" rest]
      by (metis suffix_order.trans)
  qed (use mid_ok in simp)
qed

lemma read_items_no_panic: "safe_end input \<Longrightarrow> numbers_fit input \<Longrightarrow> read_items input \<noteq> Panics"
proof (induction input rule: read_items.induct)
  case (1 input)
  have rec: "read_items (drop 1 rest) \<noteq> Panics"
    if "read_destinator_item input = Returns (Inr (rest, it))" and comma: "prefix '','' rest" for rest it
  proof -
    from read_item_suffix [OF that(1) 1(2)] tail_safe [of rest] comma
    have "safe_end (drop 1 rest)" "suffix (drop 1 rest) input"
      by (auto intro: suffix_order.trans)
    with that 1(3) show ?thesis
      using numbers_fit_suffix by (intro 1(1)) auto
  qed
  then show ?case
    using read_item_no_panic [OF 1(2,3)]
    by (subst read_items.simps) (auto split: outcome.splits sum.splits simp: bind_outcome_Panics_iff)
qed


section \<open>Whole command lines\<close>

lemma read_destinators_show:
  assumes "its \<noteq> []" and "list_all item_fits its"
  shows "read_destinators (show_items its @ CHR '' '' # rest) = Returns (Inr (rest, concat (map expand_item its)))"
  using read_items_show [OF assms] by (simp add: read_destinators_def)

lemma expand_items_set:
  "d \<in> set (concat (map expand_item its)) \<longleftrightarrow>
    (\<exists>it \<in> set its. case it of Single e \<Rightarrow> d = e | Range first second \<Rightarrow> first \<le> d \<and> d \<le> second)"
proof -
  have "d \<in> set (expand_item it) \<longleftrightarrow>
      (case it of Single e \<Rightarrow> d = e | Range first second \<Rightarrow> first \<le> d \<and> d \<le> second)" for it
    by (cases it) auto
  then show ?thesis by simp
qed

section \<open>Properties\<close>

text \<open>
  C38: a destinator sequence that fits the machine is read back: from the printed items and a space,
  \<open>read_destinators\<close> returns the rest of the line and exactly the nodes that the items name, in
  order, every range with both its ends.
\<close>

theorem destinators_roundtrip:
  assumes "its \<noteq> []" and "list_all item_fits its"
  shows "\<exists>ds. read_destinators (show_items its @ CHR '' '' # rest) = Returns (Inr (rest, ds))
    \<and> ds = concat (map expand_item its)
    \<and> (\<forall>d. d \<in> set ds \<longleftrightarrow> (\<exists>it\<in>set its. case it of Single e \<Rightarrow> d = e | Range first second \<Rightarrow> first \<le> d \<and> d \<le> second))"
  using read_destinators_show [OF assms] expand_items_set by blast

theorem destinators_roundtrip_witness:
  "read_destinators (show_items [Range 2 5, Single 7] @ '' ping'') = Returns (Inr (''ping'', [2, 3, 4, 5, 7]))"
proof -
  have "list_all item_fits [Range 2 5, Single 7]" by (simp add: usize_max_def)
  from destinators_roundtrip [OF _ this, of "''ping''"] show ?thesis by (simp add: numeral_eq_Suc)
qed

text \<open>
  C39: a line makes the parser of destinators panic only in two ways: by ending in a digit, a comma or
  a dash (or being empty), where an index runs out of the line, or by a run of digits that exceeds
  \<open>usize::MAX\<close>; and a line of digits only, such as a lone node number, always does.
\<close>

theorem destinators_panic_bounds:
  assumes "safe_end input" and "numbers_fit input" and "list_all is_ascii_digit digits"
  shows "read_destinators input \<noteq> Panics \<and> read_destinators digits = Panics"
proof
  show "read_destinators input \<noteq> Panics"
    using read_items_no_panic [OF assms(1,2)]
    by (auto simp: read_destinators_def bind_outcome_Panics_iff split: sum.splits)
  have "read_destinator_item digits = Panics"
    using assms(3) by (simp add: read_destinator_item_def read_number_or_def read_number_closed Let_def)
  then show "read_destinators digits = Panics"
    by (simp add: read_destinators_def read_items.simps [of digits])
qed

theorem destinators_panic_bounds_witness:
  "read_destinators ''ping'' \<noteq> Panics \<and> read_destinators ''12'' = Panics"
proof (rule destinators_panic_bounds)
  show "safe_end ''ping''" by (simp add: safe_end_def is_ascii_digit_def)
  have "s = []" if s: "sublist s ''ping''" "list_all is_ascii_digit s" for s
  proof (rule ccontr)
    assume "s \<noteq> []"
    then have "hd s \<in> set s" by simp
    moreover from this s(1) have "hd s \<in> set ''ping''" using set_mono_sublist by blast
    ultimately show False using s(2) by (auto simp: list_all_iff is_ascii_digit_def)
  qed
  then show "numbers_fit ''ping''" by (fastforce simp: numbers_fit_def decimal_value_def)
  show "list_all is_ascii_digit ''12''" by (simp add: is_ascii_digit_def)
qed

end
