(* ===== verification/Crypto_Lib.thy ===== *)
theory Crypto_Lib
  imports Peer_Id
begin

text \<open>
  What the program calls in third-party crates, as parameters: the RSA operations of the
  crate \<open>rsa\<close>, SHA-256 of the crate \<open>sha2\<close>, and the serialisation of the crate \<open>protocol\<close>.
  Their errors are opaque texts. The laws state the documented behaviour that the theorems
  about the callers name as a hypothesis. The random choices of \<open>OsRng\<close> are an argument
  of the operations that make them.
\<close>

type_synonym lib_error = string

record ('pk, 'sk, 'rng) crypto_lib =
  key_new :: "bytes \<Rightarrow> bytes \<Rightarrow> lib_error + 'pk"
  key_e :: "'pk \<Rightarrow> bytes"
  key_n :: "'pk \<Rightarrow> bytes"
  pss_sign :: "'sk \<Rightarrow> 'rng \<Rightarrow> bytes \<Rightarrow> lib_error + bytes"
  pss_verify :: "'pk \<Rightarrow> bytes \<Rightarrow> bytes \<Rightarrow> lib_error + unit"
  oaep_encrypt :: "'pk \<Rightarrow> 'rng \<Rightarrow> bytes \<Rightarrow> lib_error + bytes"
  oaep_decrypt :: "'sk \<Rightarrow> bytes \<Rightarrow> lib_error + bytes"
  sha256 :: "bytes \<Rightarrow> bytes"

text \<open>
  \<open>key_new lib n e\<close> is \<open>RsaPublicKey::new\<close> on the integers with the little-endian bytes \<open>n\<close>
  and \<open>e\<close>; \<open>key_e\<close> and \<open>key_n\<close> are \<open>e().to_bytes_le()\<close> and \<open>n().to_bytes_le()\<close>.
\<close>

definition sha_law :: "('pk, 'sk, 'rng) crypto_lib \<Rightarrow> bool" where
  "sha_law lib \<longleftrightarrow> (\<forall>x. length (sha256 lib x) = 32)"

definition key_law :: "('pk, 'sk, 'rng) crypto_lib \<Rightarrow> 'pk \<Rightarrow> bool" where
  "key_law lib pk \<longleftrightarrow> key_new lib (key_n lib pk) (key_e lib pk) = Inr pk"

definition sign_law :: "('pk, 'sk, 'rng) crypto_lib \<Rightarrow> 'pk \<Rightarrow> 'sk \<Rightarrow> bool" where
  "sign_law lib pk sk \<longleftrightarrow>
     (\<forall>r d s. pss_sign lib sk r d = Inr s \<longrightarrow> pss_verify lib pk d s = Inr ())"

definition encrypt_law :: "('pk, 'sk, 'rng) crypto_lib \<Rightarrow> 'pk \<Rightarrow> 'sk \<Rightarrow> bool" where
  "encrypt_law lib pk sk \<longleftrightarrow>
     (\<forall>r m c. oaep_encrypt lib pk r m = Inr c \<longrightarrow> oaep_decrypt lib sk c = Inr m)"

section \<open>Serialisation\<close>

record 'a codec =
  raw_bytes :: "'a \<Rightarrow> lib_error + bytes"
  from_raw_bytes :: "bytes \<Rightarrow> lib_error + 'a"

definition codec_law :: "'a codec \<Rightarrow> bool" where
  "codec_law c \<longleftrightarrow> (\<forall>x bs. raw_bytes c x = Inr bs \<longrightarrow> from_raw_bytes c bs = Inr x)"

text \<open>
  \<open>impl protocol::Parcel for PeerID\<close>: an identity is serialised as the array of its bytes, with the
  crate's reader and writer of \<open>[u8; 32]\<close>. The law is what the reader promises: it takes off the
  front of its input what the writer has put there, and yields 32 bytes.
\<close>

definition peer_write_field :: "(bytes \<Rightarrow> lib_error + bytes) \<Rightarrow> PeerID \<Rightarrow> lib_error + bytes" where
  "peer_write_field write_array p = write_array (peer_bytes p)"

definition peer_read_field ::
  "(bytes \<Rightarrow> lib_error + bytes \<times> bytes) \<Rightarrow> bytes \<Rightarrow> lib_error + PeerID \<times> bytes" where
  "peer_read_field read_array inp =
     (case read_array inp of Inl e \<Rightarrow> Inl e | Inr (bs, rest) \<Rightarrow> Inr (PeerID bs, rest))"

definition array_law :: "(bytes \<Rightarrow> lib_error + bytes) \<Rightarrow> (bytes \<Rightarrow> lib_error + bytes \<times> bytes) \<Rightarrow> bool" where
  "array_law write_array read_array \<longleftrightarrow>
     (\<forall>bs out rest. write_array bs = Inr out \<longrightarrow> read_array (out @ rest) = Inr (bs, rest))
   \<and> (\<forall>inp bs rest. read_array inp = Inr (bs, rest) \<longrightarrow> length bs = 32)"

lemma peer_field_roundtrip:
  "array_law write_array read_array \<Longrightarrow> peer_write_field write_array p = Inr out \<Longrightarrow>
    peer_read_field read_array (out @ rest) = Inr (p, rest)"
  by (simp add: array_law_def peer_write_field_def peer_read_field_def)

lemma peer_read_field_wf [wf_intros]:
  "array_law write_array read_array \<Longrightarrow> peer_read_field read_array inp = Inr (p, rest) \<Longrightarrow> wf_peer p"
  unfolding array_law_def peer_read_field_def by (auto split: sum.splits) blast

section \<open>Hashing and identities\<close>

text \<open>
  \<open>src/hash.rs\<close>: the bytes that \<open>update_hasher\<close> feeds to SHA-256, hashed, and copied over
  an uninitialised array.
\<close>

definition hash_in :: "bytes \<Rightarrow> ('pk, 'sk, 'rng) crypto_lib \<Rightarrow> ('a \<Rightarrow> bytes) \<Rightarrow> 'a \<Rightarrow> bytes" where
  "hash_in mem lib update_hasher x = copy_at 0 (sha256 lib (update_hasher x)) mem"

lemma hash_in_eq:
  "sha_law lib \<Longrightarrow> length mem = 32 \<Longrightarrow> hash_in mem lib upd x = sha256 lib (upd x)"
  by (simp add: hash_in_def sha_law_def copy_at_whole)

text \<open>\<open>impl Hashable for PeerID\<close>.\<close>

definition peer_update_hasher :: "PeerID \<Rightarrow> bytes" where
  "peer_update_hasher p = peer_bytes p"

text \<open>\<open>impl From<&rsa::RsaPublicKey> for PeerID\<close>.\<close>

definition peer_id_of_key_in :: "bytes \<Rightarrow> ('pk, 'sk, 'rng) crypto_lib \<Rightarrow> 'pk \<Rightarrow> PeerID" where
  "peer_id_of_key_in mem lib pk =
     (let e = key_e lib pk; n = key_n lib pk; e = e @ n; result = sha256 lib e
      in PeerID (copy_at 0 result mem))"

definition peer_id_of_key :: "('pk, 'sk, 'rng) crypto_lib \<Rightarrow> 'pk \<Rightarrow> PeerID" where
  "peer_id_of_key lib pk = PeerID (sha256 lib (key_e lib pk @ key_n lib pk))"

lemma peer_id_of_key_in_eq:
  "sha_law lib \<Longrightarrow> length mem = 32 \<Longrightarrow> peer_id_of_key_in mem lib pk = peer_id_of_key lib pk"
  by (simp add: peer_id_of_key_in_def peer_id_of_key_def sha_law_def copy_at_whole)

lemma wf_peer_id_of_key [wf_intros]: "sha_law lib \<Longrightarrow> wf_peer (peer_id_of_key lib pk)"
  by (simp add: peer_id_of_key_def sha_law_def)

end
