(* ===== verification/Samples.thy ===== *)
theory Samples
  imports Crypto_Lib
begin

text \<open>
  Concrete instances of the third-party parameters, on which the witnesses of the theorems
  are evaluated: a toy signature and encryption scheme whose keys are bytes, a serialisation
  by position in a table, and some identities.
\<close>

definition sample_lib :: "(u8, u8, unit) crypto_lib" where
  "sample_lib =
     \<lparr>key_new = (\<lambda>n e. case n of [k] \<Rightarrow> Inr k | _ \<Rightarrow> Inl ''bad key''),
      key_e = (\<lambda>_. [3]),
      key_n = (\<lambda>k. [k]),
      pss_sign = (\<lambda>sk r d. Inr (sk # d)),
      pss_verify = (\<lambda>pk d s. if s = pk # d then Inr () else Inl ''bad signature''),
      oaep_encrypt = (\<lambda>pk r m. Inr (pk # m)),
      oaep_decrypt = (\<lambda>sk c. case c of k # m \<Rightarrow> if k = sk then Inr m else Inl ''bad padding'' | [] \<Rightarrow> Inl ''empty''),
      sha256 = (\<lambda>x. take 32 (rev x @ replicate 32 0))\<rparr>"

lemma sample_lib_sel [simp]:
  "key_new sample_lib [k] e = Inr k" "key_e sample_lib k = [3]" "key_n sample_lib k = [k]"
  "pss_sign sample_lib sk r d = Inr (sk # d)"
  "pss_verify sample_lib k d s = (if s = k # d then Inr () else Inl ''bad signature'')"
  "oaep_encrypt sample_lib k r m = Inr (k # m)"
  "oaep_decrypt sample_lib sk (k # m) = (if k = sk then Inr m else Inl ''bad padding'')"
  "sha256 sample_lib x = take 32 (rev x @ replicate 32 0)"
  by (simp_all add: sample_lib_def)

lemma sample_laws [simp]:
  "sha_law sample_lib" "key_law sample_lib k" "sign_law sample_lib k k" "encrypt_law sample_lib k k"
  by (auto simp: sha_law_def key_law_def sign_law_def encrypt_law_def)

definition table_codec :: "'a list \<Rightarrow> 'a codec" where
  "table_codec xs =
     \<lparr>raw_bytes = (\<lambda>x. if x \<in> set xs then Inr [word_of_nat (length (takeWhile (\<lambda>y. y \<noteq> x) xs))]
                       else Inl ''not in the table''),
      from_raw_bytes = (\<lambda>bs. case bs of
          [b] \<Rightarrow> if unat b < length xs then Inr (xs ! unat b) else Inl ''no such entry''
        | _ \<Rightarrow> Inl ''not one byte'')\<rparr>"

lemma raw_bytes_table:
  "raw_bytes (table_codec xs) x =
    (if x \<in> set xs then Inr [word_of_nat (length (takeWhile (\<lambda>y. y \<noteq> x) xs))] else Inl ''not in the table'')"
  by (simp add: table_codec_def)

lemma table_codec_law: "length xs \<le> 256 \<Longrightarrow> codec_law (table_codec xs)"
proof -
  assume len: "length xs \<le> 256"
  have "from_raw_bytes (table_codec xs) bs = Inr x" if "raw_bytes (table_codec xs) x = Inr bs" for x bs
  proof -
    let ?i = "length (takeWhile (\<lambda>y. y \<noteq> x) xs)"
    from that have x: "x \<in> set xs" and bs: "bs = [word_of_nat ?i]"
      by (auto simp: raw_bytes_table split: if_splits)
    from x have i: "?i < length xs" "xs ! ?i = x"
      by (induction xs) auto
    with len have "unat (word_of_nat ?i :: u8) = ?i"
      by (simp add: unat_of_nat)
    with i bs show ?thesis by (simp add: table_codec_def)
  qed
  then show ?thesis by (simp add: codec_law_def)
qed

definition sample_peer :: "u8 \<Rightarrow> PeerID" where
  "sample_peer b = PeerID (b # replicate 31 0)"

lemma wf_sample_peer [simp]: "wf_peer (sample_peer b)"
  by (simp add: sample_peer_def)

lemma sample_peer_inj [simp]: "sample_peer b = sample_peer c \<longleftrightarrow> b = c"
  by (simp add: sample_peer_def)

end
