(* ===== verification/Signed_Data.thy ===== *)
theory Signed_Data
  imports Samples
begin

text \<open>
  \<open>src/signed_data.rs\<close>: data with the public key and the signature of its author.
  Serialising the data is \<open>raw_bytes(..).unwrap()\<close>: a codec that fails makes both operations
  panic.
\<close>

record 'a SignedData =
  sd_data :: 'a
  sd_rsa_public_key_exponent :: bytes
  sd_rsa_public_key_modulus :: bytes
  sd_signature :: bytes

definition verify ::
  "('pk, 'sk, 'rng) crypto_lib \<Rightarrow> 'a codec \<Rightarrow> 'a SignedData \<Rightarrow> (lib_error + PeerID) outcome" where
  "verify lib c sd =
     (case key_new lib (sd_rsa_public_key_modulus sd) (sd_rsa_public_key_exponent sd) of
        Inl e \<Rightarrow> Returns (Inl e)
      | Inr rsa_public_key \<Rightarrow>
          (case raw_bytes c (sd_data sd) of
             Inl e \<Rightarrow> Panics
           | Inr bytes \<Rightarrow>
               let hash = sha256 lib bytes
               in (case pss_verify lib rsa_public_key hash (sd_signature sd) of
                     Inl e \<Rightarrow> Returns (Inl e)
                   | Inr _ \<Rightarrow> Returns (Inr (peer_id_of_key lib rsa_public_key)))))"

definition into_verified ::
  "('pk, 'sk, 'rng) crypto_lib \<Rightarrow> 'a codec \<Rightarrow> 'a SignedData \<Rightarrow> (lib_error + PeerID \<times> 'a) outcome" where
  "into_verified lib c sd =
     bind_outcome (verify lib c sd)
       (\<lambda>r. Returns (case r of Inl e \<Rightarrow> Inl e | Inr peer_id \<Rightarrow> Inr (peer_id, sd_data sd)))"

definition sign ::
  "('pk, 'sk, 'rng) crypto_lib \<Rightarrow> 'a codec \<Rightarrow> 'rng \<Rightarrow> 'a \<Rightarrow> 'pk \<Rightarrow> 'sk \<Rightarrow>
    (lib_error + 'a SignedData) outcome" where
  "sign lib c r d rsa_public_key rsa_private_key =
     (case raw_bytes c d of
        Inl e \<Rightarrow> Panics
      | Inr bytes \<Rightarrow>
          let hash = sha256 lib bytes
          in (case pss_sign lib rsa_private_key r hash of
                Inl e \<Rightarrow> Returns (Inl e)
              | Inr signature \<Rightarrow>
                  Returns (Inr
                    \<lparr>sd_data = d,
                     sd_rsa_public_key_exponent = key_e lib rsa_public_key,
                     sd_rsa_public_key_modulus = key_n lib rsa_public_key,
                     sd_signature = signature\<rparr>)))"

lemma sign_Returns_iff:
  "sign lib c r d pk sk = Returns (Inr sd) \<longleftrightarrow>
    (\<exists>bs sig. raw_bytes c d = Inr bs \<and> pss_sign lib sk r (sha256 lib bs) = Inr sig \<and>
      sd = \<lparr>sd_data = d, sd_rsa_public_key_exponent = key_e lib pk,
            sd_rsa_public_key_modulus = key_n lib pk, sd_signature = sig\<rparr>)"
  by (auto simp: sign_def Let_def split: sum.splits)

text \<open>What a successful verification has established.\<close>

lemma verify_Returns_iff:
  "verify lib c sd = Returns (Inr pid) \<longleftrightarrow>
    (\<exists>pk bs. key_new lib (sd_rsa_public_key_modulus sd) (sd_rsa_public_key_exponent sd) = Inr pk
      \<and> raw_bytes c (sd_data sd) = Inr bs
      \<and> pss_verify lib pk (sha256 lib bs) (sd_signature sd) = Inr ()
      \<and> pid = peer_id_of_key lib pk)"
  by (auto simp: verify_def Let_def split: sum.splits)

lemma sign_verify:
  assumes "key_law lib pk" and "sign_law lib pk sk"
    and "sign lib c r d pk sk = Returns (Inr sd)"
  shows "into_verified lib c sd = Returns (Inr (peer_id_of_key lib pk, d))"
proof -
  from assms(3) obtain bs sig where bs: "raw_bytes c d = Inr bs"
    and sig: "pss_sign lib sk r (sha256 lib bs) = Inr sig"
    and sd: "sd = \<lparr>sd_data = d, sd_rsa_public_key_exponent = key_e lib pk,
            sd_rsa_public_key_modulus = key_n lib pk, sd_signature = sig\<rparr>"
    by (auto simp: sign_Returns_iff)
  have "verify lib c sd = Returns (Inr (peer_id_of_key lib pk))"
    using assms(1,2) bs sig by (auto simp: verify_Returns_iff sd key_law_def sign_law_def)
  then show ?thesis by (simp add: into_verified_def sd)
qed

section \<open>Properties\<close>

text \<open>
  Data that its author signs verifies, under the identity of the author's key; and data
  that verifies carries a signature of its serialised form by the key that the identity is the
  hash of.
\<close>

theorem signed_data_verifies:
  assumes "key_law lib pk" and "sign_law lib pk sk" and "sign lib c r d pk sk = Returns (Inr sd)"
  shows "into_verified lib c sd = Returns (Inr (peer_id_of_key lib pk, d))
    \<and> (\<forall>sd' peer_id d'. into_verified lib c sd' = Returns (Inr (peer_id, d')) \<longrightarrow>
      (\<exists>k bs. key_new lib (sd_rsa_public_key_modulus sd') (sd_rsa_public_key_exponent sd') = Inr k
        \<and> raw_bytes c d' = Inr bs \<and> pss_verify lib k (sha256 lib bs) (sd_signature sd') = Inr ()
        \<and> peer_id = peer_id_of_key lib k))"
proof (intro conjI allI impI)
  show "into_verified lib c sd = Returns (Inr (peer_id_of_key lib pk, d))"
    using sign_verify [OF assms] .
next
  fix sd' peer_id d'
  assume "into_verified lib c sd' = Returns (Inr (peer_id, d'))"
  then have "verify lib c sd' = Returns (Inr peer_id)" and "d' = sd_data sd'"
    by (cases "verify lib c sd'"; auto simp: into_verified_def split: sum.splits)+
  then show "\<exists>k bs. key_new lib (sd_rsa_public_key_modulus sd') (sd_rsa_public_key_exponent sd') = Inr k
        \<and> raw_bytes c d' = Inr bs \<and> pss_verify lib k (sha256 lib bs) (sd_signature sd') = Inr ()
        \<and> peer_id = peer_id_of_key lib k"
    by (auto simp: verify_Returns_iff)
qed

theorem signed_data_verifies_witness:
  "\<exists>sd. sign sample_lib (table_codec [True]) () True 9 9 = Returns (Inr sd)
    \<and> into_verified sample_lib (table_codec [True]) sd = Returns (Inr (peer_id_of_key sample_lib 9, True))"
proof -
  have "\<exists>sd. sign sample_lib (table_codec [True]) () True 9 9 = Returns (Inr sd)"
    by (simp add: sign_Returns_iff raw_bytes_table)
  then obtain sd where sd: "sign sample_lib (table_codec [True]) () True 9 9 = Returns (Inr sd)" ..
  have "key_law sample_lib 9" and "sign_law sample_lib 9 9" by simp_all
  from signed_data_verifies [OF this sd] sd show ?thesis by blast
qed

end
