(* ===== verification/Packets.thy ===== *)
theory Packets
  imports Signed_Data
begin

text \<open>
  The messages of the network (\<open>src/packets.rs\<close>), with the values they carry
  (\<open>src/node/dht.rs\<close>, \<open>src/account/snapshot.rs\<close>) and the constants of \<open>src/lib.rs\<close>. Every
  struct is a record whose fields have the source's names after a prefix, every enum a
  datatype.
\<close>

section \<open>Constants\<close>

definition PROTOCOL_VERSION :: "u32 \<times> u32 \<times> u32" where
  "PROTOCOL_VERSION = (0, 0, 1)"

definition MAX_PACKET_SIZE :: u32 where
  "MAX_PACKET_SIZE = 1000000"

definition MAX_DISCOVERY_PEERS_RETURNED :: u16 where
  "MAX_DISCOVERY_PEERS_RETURNED = 64"

definition MAX_DHT_VALUES_RETURNED :: u16 where
  "MAX_DHT_VALUES_RETURNED = 64"

definition MAX_DHT_PEERS_RETURNED :: u16 where
  "MAX_DHT_PEERS_RETURNED = 32"

definition KADEMLIA_BUCKET_SIZE :: usize where
  "KADEMLIA_BUCKET_SIZE = 8"

definition KADEMLIA_ALPHA :: usize where
  "KADEMLIA_ALPHA = 3"

text \<open>In bits, with the feature \<open>test\<close>.\<close>

definition RSA_KEY_LENGHT :: usize where
  "RSA_KEY_LENGHT = 1024"

lemmas constants_defs = PROTOCOL_VERSION_def MAX_PACKET_SIZE_def MAX_DISCOVERY_PEERS_RETURNED_def
  MAX_DHT_VALUES_RETURNED_def MAX_DHT_PEERS_RETURNED_def KADEMLIA_BUCKET_SIZE_def KADEMLIA_ALPHA_def

section \<open>Values\<close>

record AccountSnapshotDescriptor =
  asd_timestamp :: u64
  asd_hash :: bytes

record DhtValue =
  dv_cached_addr :: "string option"
  dv_account_snapshot_desc :: "AccountSnapshotDescriptor SignedData"

record DhtSignature =
  ds_public_key :: bytes
  ds_signature :: bytes

datatype DhtLookupResult =
    Found "DhtValue list"
  | NotFound "(PeerID \<times> string) list"

section \<open>Packets\<close>

record ProtocolVersionPacket =
  pv_protocol :: string
  pv_supported_versions :: "(u32 \<times> u32 \<times> u32) list"

record InitRsaPacket =
  ir_rsa_public_key_exponent :: bytes
  ir_rsa_public_key_modulus :: bytes
  ir_nonce :: bytes

record InitAesPacket =
  ia_aes_key_part :: bytes
  ia_nonce :: bytes

record EhloPacket =
  eh_addr :: string

record DiscoverPeersPacket =
  dp_request_id :: u32
  dp_target :: PeerID
  dp_mask :: bytes
  dp_limit :: u16

record DiscoverPeersRespPacket =
  dpr_request_id :: u32
  dpr_peers :: "(PeerID \<times> string) list"

record FindDhtValuePacket =
  fv_request_id :: u32
  fv_key :: KeyID
  fv_limit_peers :: u16
  fv_limit_values :: u16

record FindDhtValueRespPacket =
  fvr_request_id :: u32
  fvr_result :: DhtLookupResult

record FindPeerPacket =
  fp_request_id :: u32
  fp_peer_id :: PeerID
  fp_limit :: u16

record FindPeerRespPacket =
  fpr_request_id :: u32
  fpr_peers :: "(PeerID \<times> string) list"

record StoreDhtValuePacket =
  sv_key_id :: KeyID
  sv_value :: "DhtValue SignedData"

record PingPacket =
  pp_ping_id :: u32

record QuitPacket =
  q_reason_code :: string
  q_message :: "string option"
  q_report_fault :: bool

datatype Packet =
    ProtocolVersion ProtocolVersionPacket
  | InitRsa InitRsaPacket
  | InitAes InitAesPacket
  | Ehlo EhloPacket
  | DiscoverPeers DiscoverPeersPacket
  | DiscoverPeersResp DiscoverPeersRespPacket
  | FindDhtValue FindDhtValuePacket
  | FindDhtValueResp FindDhtValueRespPacket
  | FindPeer FindPeerPacket
  | FindPeerResp FindPeerRespPacket
  | StoreDhtValue StoreDhtValuePacket
  | Ping PingPacket
  | Pong PingPacket
  | Quit QuitPacket

text \<open>The default method of \<open>trait ToQuit\<close>, over the three methods an error implements.\<close>

definition to_quit ::
  "('e \<Rightarrow> string) \<Rightarrow> ('e \<Rightarrow> string option) \<Rightarrow> ('e \<Rightarrow> bool) \<Rightarrow> 'e \<Rightarrow> QuitPacket" where
  "to_quit reason_code message report_fault e =
     \<lparr>q_reason_code = reason_code e, q_message = message e, q_report_fault = report_fault e\<rparr>"

end
