(* ===== verification/Wire.thy ===== *)
theory Wire
  imports Packets
begin

text \<open>
  The framing of packets on a stream, as every sender and receiver of the program writes it
  out (\<open>src/node/connections.rs\<close>, \<open>src/node/handshake.rs\<close>): the length of the packet as a
  big-endian \<open>u32\<close>, then the packet; a receiver gives up on a length of at least
  \<open>MAX_PACKET_SIZE\<close>.
\<close>

section \<open>The interface\<close>

text \<open>
  Frames that are self-delimiting: what a receiver takes off a stream depends on the first
  frame only.
\<close>

locale framing =
  fixes enc :: "'p \<Rightarrow> 'b list"
    and dec :: "'b list \<Rightarrow> ('p \<times> 'b list) option"
    and ok :: "'p \<Rightarrow> bool"
  assumes dec_enc: "ok p \<Longrightarrow> dec (enc p @ rest) = Some (p, rest)"
begin

lemma enc_prefix_free:
  assumes "ok p" and "ok q" and "enc p @ r = enc q @ s"
  shows "p = q \<and> r = s"
proof -
  have "Some (p, r) = dec (enc p @ r)" by (simp only: dec_enc [OF assms(1)])
  also have "\<dots> = dec (enc q @ s)" by (simp only: assms(3))
  also have "\<dots> = Some (q, s)" by (rule dec_enc [OF assms(2)])
  finally show ?thesis by simp
qed

lemma enc_stream_inj:
  assumes "\<forall>p\<in>set ps. ok p" and "\<forall>q\<in>set qs. ok q" and "length ps = length qs"
    and "concat (map enc ps) @ r = concat (map enc qs) @ s"
  shows "ps = qs \<and> r = s"
  using assms(3,1,2,4)
proof (induction ps qs rule: list_induct2)
  case (Cons p ps q qs)
  then have "enc p @ concat (map enc ps) @ r = enc q @ concat (map enc qs) @ s" by simp
  with Cons.prems enc_prefix_free [of p q "concat (map enc ps) @ r" "concat (map enc qs) @ s"]
  have "p = q" and "concat (map enc ps) @ r = concat (map enc qs) @ s" by simp_all
  with Cons show ?case by simp
qed simp

end

text \<open>Taking several frames off a stream.\<close>

fun dec_many :: "('b list \<Rightarrow> ('p \<times> 'b list) option) \<Rightarrow> nat \<Rightarrow> 'b list \<Rightarrow> ('p list \<times> 'b list) option" where
  "dec_many dec 0 s = Some ([], s)"
| "dec_many dec (Suc n) s =
     (case dec s of
        None \<Rightarrow> None
      | Some (p, s') \<Rightarrow> map_option (\<lambda>(ps, r). (p # ps, r)) (dec_many dec n s'))"

context framing
begin

lemma dec_many_enc:
  "\<forall>p\<in>set ps. ok p \<Longrightarrow>
    dec_many dec (length ps) (concat (map enc ps) @ rest) = Some (ps, rest)"
  by (induction ps) (simp_all add: dec_enc)

end

section \<open>Lengths\<close>

text \<open>\<open>u32::to_be_bytes\<close> and tokio's \<open>read_u32\<close>.\<close>

definition u32_to_be :: "u32 \<Rightarrow> bytes" where
  "u32_to_be w = map (\<lambda>k. ucast (drop_bit (8 * k) w)) [3, 2, 1, 0]"

definition u32_of_be :: "bytes \<Rightarrow> u32" where
  "u32_of_be bs = foldl (\<lambda>w b. push_bit 8 w OR ucast b) 0 bs"

lemma length_u32_to_be [simp]: "length (u32_to_be w) = 4"
  by (simp add: u32_to_be_def)

lemma u32_of_be_to_be: "u32_of_be (u32_to_be w) = w"
proof (rule bit_word_eqI)
  fix n
  assume "n < LENGTH(32)"
  then consider "n < 8" | "8 \<le> n" "n < 16" | "16 \<le> n" "n < 24" | "24 \<le> n" "n < 32"
    by fastforce
  then show "bit (u32_of_be (u32_to_be w)) n \<longleftrightarrow> bit w n"
    by cases (auto simp: u32_of_be_def u32_to_be_def bit_simps)
qed

section \<open>Frames\<close>

definition write_frame :: "bytes \<Rightarrow> bytes" where
  "write_frame p = u32_to_be (word_of_nat (length p)) @ p"

datatype frame_result =
    Frame bytes bytes
  | TooLarge
  | Incomplete

text \<open>
  What a receiver makes of the bytes that have arrived: the packet and the rest of the
  stream, a refused length, or a frame that is not there yet.
\<close>

definition read_frame :: "bytes \<Rightarrow> frame_result" where
  "read_frame s =
     (if length s < 4 then Incomplete
      else let plen = u32_of_be (take 4 s); s = drop 4 s
           in if plen \<ge> MAX_PACKET_SIZE then TooLarge
              else if length s < unat plen then Incomplete
              else Frame (take (unat plen) s) (drop (unat plen) s))"

definition read_frame_opt :: "bytes \<Rightarrow> (bytes \<times> bytes) option" where
  "read_frame_opt s = (case read_frame s of Frame p r \<Rightarrow> Some (p, r) | _ \<Rightarrow> None)"

lemma length_write_frame [simp]: "length (write_frame p) = 4 + length p"
  by (simp add: write_frame_def)

text \<open>
  The length is truncated to 32 bits, so whether a frame is refused depends on the length
  of the packet modulo \<open>2 ^ 32\<close>.
\<close>

lemma read_frame_write:
  "read_frame (write_frame p @ rest) =
    (let n = length p mod 2 ^ 32
     in if 1000000 \<le> n then TooLarge else Frame (take n p) (drop n p @ rest))"
proof -
  let ?w = "word_of_nat (length p) :: u32"
  have w: "unat ?w = length p mod 2 ^ 32"
    by (simp add: unat_of_nat)
  have "MAX_PACKET_SIZE \<le> ?w \<longleftrightarrow> 1000000 \<le> length p mod 2 ^ 32"
    unfolding word_le_nat_alt w MAX_PACKET_SIZE_def by simp
  moreover have "length p mod 2 ^ 32 \<le> length p" by (rule mod_less_eq_dividend)
  ultimately show ?thesis
    by (simp add: read_frame_def write_frame_def u32_of_be_to_be w Let_def)
qed

lemma read_write_frame:
  "length p < 1000000 \<Longrightarrow> read_frame (write_frame p @ rest) = Frame p rest"
  by (simp add: read_frame_write)

interpretation frames: framing write_frame read_frame_opt "\<lambda>p. length p < 1000000"
  by unfold_locales (simp add: read_frame_opt_def read_write_frame)

text \<open>Truncating the stream never turns into another packet.\<close>

lemma read_frame_truncated:
  assumes "length p < 1000000" and "n < 4 + length p"
  shows "read_frame (take n (write_frame p)) = Incomplete"
proof (cases "n < 4")
  case True
  then show ?thesis by (simp add: read_frame_def)
next
  case False
  have w: "unat (word_of_nat (length p) :: u32) = length p"
    using assms(1) by (simp add: unat_of_nat)
  then have "\<not> MAX_PACKET_SIZE \<le> (word_of_nat (length p) :: u32)"
    using assms(1) by (simp add: word_le_nat_alt MAX_PACKET_SIZE_def)
  with False assms(2) show ?thesis
    by (simp add: read_frame_def write_frame_def u32_of_be_to_be w Let_def)
qed

section \<open>Properties\<close>

text \<open>
  C25: any sequence of packets below the maximal size is read back from the stream exactly as it
  was written, with what follows left over; and a frame cut short is never read as a packet.
\<close>

theorem frames_roundtrip:
  assumes "\<forall>p\<in>set ps. length p < 1000000"
  shows "dec_many read_frame_opt (length ps) (concat (map write_frame ps) @ rest) = Some (ps, rest)
    \<and> (\<forall>p\<in>set ps. \<forall>n<4 + length p. read_frame (take n (write_frame p)) = Incomplete)"
  using frames.dec_many_enc [OF assms] read_frame_truncated assms by blast

theorem frames_roundtrip_witness:
  "dec_many read_frame_opt 2 (concat (map write_frame [[1, 2], []]) @ [7]) = Some ([[1, 2], []], [7])"
  using frames_roundtrip [of "[[1, 2], []]" "[7]"] by (simp add: numeral_2_eq_2)

end
