(* ===== verification/Ordered_Map.thy ===== *)
theory Ordered_Map
  imports Tewta_Prelude
begin

text \<open>
  The interface of the ordered maps that the node keeps (\<open>BTreeMap\<close>: the connection table
  of \<open>src/node/connections.rs\<close>, the store of \<open>src/node/dht.rs\<close>), the laws its clients rely
  on, and the instance the model computes with: association lists in strictly ascending
  order of the keys, the order in which the standard library iterates.
\<close>

section \<open>The interface\<close>

locale ordered_map =
  fixes empty :: "'m"
    and get :: "'m \<Rightarrow> 'k::linorder \<Rightarrow> 'v option"
    and ins :: "'k \<Rightarrow> 'v \<Rightarrow> 'm \<Rightarrow> 'm"
    and del :: "'k \<Rightarrow> 'm \<Rightarrow> 'm"
    and entries :: "'m \<Rightarrow> ('k \<times> 'v) list"
    and inv :: "'m \<Rightarrow> bool"
  assumes inv_empty: "inv empty"
    and entries_empty: "entries empty = []"
    and inv_ins: "inv m \<Longrightarrow> inv (ins k v m)"
    and inv_del: "inv m \<Longrightarrow> inv (del k m)"
    and get_ins: "inv m \<Longrightarrow> get (ins k v m) k' = (if k' = k then Some v else get m k')"
    and get_del: "inv m \<Longrightarrow> get (del k m) k' = (if k' = k then None else get m k')"
    and entries_sorted: "inv m \<Longrightarrow> sorted_wrt (<) (map fst (entries m))"
    and entries_iff: "inv m \<Longrightarrow> (k, v) \<in> set (entries m) \<longleftrightarrow> get m k = Some v"
begin

lemma keys_distinct: "inv m \<Longrightarrow> distinct (map fst (entries m))"
  using entries_sorted by (simp add: strict_sorted_iff)

lemma get_empty: "get empty k = None"
  using entries_iff [OF inv_empty] by (auto simp: entries_empty intro: ccontr)

lemma keys_dom: "inv m \<Longrightarrow> set (map fst (entries m)) = dom (get m)"
proof -
  assume "inv m"
  have "set (map fst (entries m)) = {k. \<exists>v. (k, v) \<in> set (entries m)}"
    by force
  with \<open>inv m\<close> show ?thesis
    by (simp add: entries_iff dom_def)
qed

lemma length_entries: "inv m \<Longrightarrow> length (entries m) = card (dom (get m))"
  using distinct_card [OF keys_distinct] by (simp add: keys_dom [symmetric])

lemma finite_dom: "inv m \<Longrightarrow> finite (dom (get m))"
  by (simp add: keys_dom [symmetric])

lemma dom_ins: "inv m \<Longrightarrow> dom (get (ins k v m)) = Set.insert k (dom (get m))"
  by (auto simp: dom_def get_ins)

lemma dom_del: "inv m \<Longrightarrow> dom (get (del k m)) = dom (get m) - {k}"
  by (auto simp: dom_def get_del split: if_splits)

lemma length_ins:
  "inv m \<Longrightarrow> length (entries (ins k v m)) =
    (if get m k = None then Suc (length (entries m)) else length (entries m))"
  by (auto simp: length_entries inv_ins dom_ins finite_dom insert_absorb domIff)

lemma length_del:
  "inv m \<Longrightarrow> length (entries (del k m)) =
    (if get m k = None then length (entries m) else length (entries m) - 1)"
  by (auto simp: length_entries inv_del dom_del finite_dom domIff)

text \<open>Two maps with the same bindings are iterated alike.\<close>

lemma entries_cong:
  assumes "inv m" and "inv m'" and "get m = get m'"
  shows "entries m = entries m'"
proof -
  have "distinct (entries m)" and "distinct (entries m')"
    using keys_distinct assms by (auto simp: distinct_map)
  have "sorted (map fst (entries m))" and "sorted (map fst (entries m'))"
    using entries_sorted assms by (simp_all add: strict_sorted_iff)
  have eq: "set (entries m) = set (entries m')"
    using assms by (auto simp: entries_iff)
  have "inj_on fst (set (entries m) \<union> set (entries m'))"
    using keys_distinct [OF assms(1)] by (simp add: distinct_map eq)
  then show ?thesis
    using eq \<open>distinct (entries m)\<close> \<open>distinct (entries m')\<close>
      \<open>sorted (map fst (entries m))\<close> \<open>sorted (map fst (entries m'))\<close>
      keys_distinct [OF assms(1)] keys_distinct [OF assms(2)]
    by (metis map_sorted_distinct_set_unique)
qed

lemma del_ins_absent:
  "inv m \<Longrightarrow> get m k = None \<Longrightarrow> entries (del k (ins k v m)) = entries m"
  by (rule entries_cong) (auto simp: inv_ins inv_del get_ins get_del fun_eq_iff)

end

section \<open>The instance\<close>

type_synonym ('k, 'v) btree_map = "('k \<times> 'v) list"

definition bt_get :: "('k, 'v) btree_map \<Rightarrow> 'k \<Rightarrow> 'v option" where
  "bt_get m k = map_of m k"

fun bt_insert :: "'k::linorder \<Rightarrow> 'v \<Rightarrow> ('k, 'v) btree_map \<Rightarrow> ('k, 'v) btree_map" where
  "bt_insert k v [] = [(k, v)]"
| "bt_insert k v ((k', v') # m) =
     (if k < k' then (k, v) # (k', v') # m
      else if k = k' then (k, v) # m
      else (k', v') # bt_insert k v m)"

definition bt_remove :: "'k \<Rightarrow> ('k, 'v) btree_map \<Rightarrow> ('k, 'v) btree_map" where
  "bt_remove k m = filter (\<lambda>e. fst e \<noteq> k) m"

definition bt_contains :: "('k, 'v) btree_map \<Rightarrow> 'k \<Rightarrow> bool" where
  "bt_contains m k \<longleftrightarrow> bt_get m k \<noteq> None"

definition bt_inv :: "('k::linorder, 'v) btree_map \<Rightarrow> bool" where
  "bt_inv m \<longleftrightarrow> sorted_wrt (<) (map fst m)"

lemma set_bt_insert: "e \<in> set (bt_insert k v m) \<Longrightarrow> e = (k, v) \<or> e \<in> set m"
  by (induction k v m rule: bt_insert.induct) (auto split: if_splits)

lemma bt_insert_inv: "bt_inv m \<Longrightarrow> bt_inv (bt_insert k v m)"
  by (induction k v m rule: bt_insert.induct)
    (force simp: bt_inv_def dest: set_bt_insert)+

lemma bt_get_insert:
  "bt_inv m \<Longrightarrow> bt_get (bt_insert k v m) k' = (if k' = k then Some v else bt_get m k')"
  by (induction k v m rule: bt_insert.induct) (auto simp: bt_get_def bt_inv_def)

lemma bt_remove_inv: "bt_inv m \<Longrightarrow> bt_inv (bt_remove k m)"
  by (induction m) (auto simp: bt_inv_def bt_remove_def)

lemma bt_get_remove: "bt_get (bt_remove k m) k' = (if k' = k then None else bt_get m k')"
  by (induction m) (auto simp: bt_get_def bt_remove_def)

lemma bt_entries_iff: "bt_inv m \<Longrightarrow> (k, v) \<in> set m \<longleftrightarrow> bt_get m k = Some v"
  unfolding bt_get_def bt_inv_def by (metis map_of_eq_Some_iff strict_sorted_iff)

interpretation bt: ordered_map "[]" bt_get bt_insert bt_remove "\<lambda>m. m" bt_inv
proof unfold_locales
  show "bt_inv []" by (simp add: bt_inv_def)
qed (simp_all add: bt_insert_inv bt_get_insert bt_remove_inv bt_get_remove bt_entries_iff,
    simp_all add: bt_inv_def)

text \<open>
  \<open>get_mut\<close> and an assignment through the reference.
\<close>

definition bt_modify :: "'k \<Rightarrow> ('v \<Rightarrow> 'v) \<Rightarrow> ('k, 'v) btree_map \<Rightarrow> ('k, 'v) btree_map" where
  "bt_modify k f m = map (\<lambda>(k', v). (k', if k' = k then f v else v)) m"

lemma map_fst_bt_modify [simp]: "map fst (bt_modify k f m) = map fst m"
  by (induction m) (auto simp: bt_modify_def)

lemma bt_modify_inv [simp]: "bt_inv (bt_modify k f m) \<longleftrightarrow> bt_inv m"
  by (simp add: bt_inv_def)

lemma bt_get_modify:
  "bt_get (bt_modify k f m) k' = (if k' = k then map_option f (bt_get m k') else bt_get m k')"
  by (induction m) (auto simp: bt_modify_def bt_get_def)

lemma length_bt_modify [simp]: "length (bt_modify k f m) = length m"
  by (simp add: bt_modify_def)

lemmas bt_laws = bt.inv_empty bt.inv_ins bt.inv_del bt.get_ins bt.get_del bt.entries_iff

end
