(* ===== verification/Closest.thy ===== *)
theory Closest
  imports Peer_Id
begin

text \<open>
  Ordering peers by their distance to a key: \<open>sort_by_key(|(peer_id, _)| peer_id.distance(..))\<close>
  followed by \<open>truncate\<close>, as \<open>src/node/node.rs\<close> and \<open>src/node/dht.rs\<close> do. The locale states
  what the clients need of a distance; the XOR distance is its instance.
\<close>

locale key_distance =
  fixes dist :: "'id \<Rightarrow> 'id \<Rightarrow> 'd::linorder"
    and ok :: "'id \<Rightarrow> bool"
  assumes dist_inj: "ok a \<Longrightarrow> ok b \<Longrightarrow> ok k \<Longrightarrow> dist a k = dist b k \<Longrightarrow> a = b"
    and dist_self: "ok a \<Longrightarrow> ok k \<Longrightarrow> dist k k \<le> dist a k"
begin

lemma strictly_closer:
  assumes "ok k" and "\<forall>e\<in>set ps. ok (fst e)" and "distinct (map fst ps)"
    and kept: "x \<in> set (take n (sort_key (\<lambda>e. dist (fst e) k) ps))"
    and cut: "y \<in> set (drop n (sort_key (\<lambda>e. dist (fst e) k) ps))"
  shows "dist (fst x) k < dist (fst y) k"
proof -
  let ?s = "sort_key (\<lambda>e. dist (fst e) k) ps"
  have "mset (map fst ?s) = mset (map fst ps)" by simp
  then have "distinct (map fst ?s)" using assms(3) by (metis mset_eq_imp_distinct_iff)
  then have "distinct (map fst (take n ?s) @ map fst (drop n ?s))"
    by (simp flip: map_append)
  with kept cut have "fst x \<noteq> fst y" by (auto simp: disjoint_iff image_iff)
  moreover have "ok (fst x)" and "ok (fst y)"
    using kept cut assms(2) by (auto dest!: in_set_takeD in_set_dropD)
  ultimately have "dist (fst x) k \<noteq> dist (fst y) k"
    using dist_inj assms(1) by blast
  moreover have "dist (fst x) k \<le> dist (fst y) k"
    using take_sort_key_best [OF kept cut] .
  ultimately show ?thesis by simp
qed

text \<open>If the key itself is among the peers it is the closest one.\<close>

lemma key_first:
  assumes "ok k" and "\<forall>e\<in>set ps. ok (fst e)" and "k \<in> fst ` set ps"
  shows "fst (hd (sort_key (\<lambda>e. dist (fst e) k) ps)) = k"
proof -
  let ?s = "sort_key (\<lambda>e. dist (fst e) k) ps"
  have set_s: "set ?s = set ps" by simp
  with assms(3) obtain h t where s: "?s = h # t" by (cases ?s) auto
  obtain e where e: "e \<in> set ?s" "fst e = k" using assms(3) set_s by auto
  have "sorted (map (\<lambda>e. dist (fst e) k) (h # t))" by (simp flip: s)
  with e s have "dist (fst h) k \<le> dist k k" by auto
  moreover have "ok (fst h)" using s set_s assms(2) by (metis list.set_intros(1))
  ultimately have "dist (fst h) k = dist k k"
    using dist_self assms(1) by (simp add: order_antisym)
  with \<open>ok (fst h)\<close> assms(1) show ?thesis by (simp add: s dist_inj)
qed

end

lemma replicate_0_least: "replicate (length (ds :: bytes)) 0 \<le> ds"
  by (induction ds) (auto simp: word_gt_0)

interpretation xor_dist: key_distance distance wf_peer
proof unfold_locales
  fix a b k
  assume "wf_peer a" "wf_peer b" "wf_peer k" "distance a k = distance b k"
  then show "a = b" using distance_cancel [of k a b] by (simp add: distance_commute)
next
  fix a k
  assume "wf_peer a" "wf_peer k"
  then show "distance k k \<le> distance a k"
    using replicate_0_least [of "distance a k"] by (simp add: distance_self)
qed

text \<open>The list that \<open>FindPeer\<close> and \<open>FindDhtValue\<close> answer with.\<close>

definition closest_peers :: "nat \<Rightarrow> KeyID \<Rightarrow> (PeerID \<times> 'a) list \<Rightarrow> (PeerID \<times> 'a) list" where
  "closest_peers n key peers = take n (sort_key (\<lambda>e. distance (fst e) key) peers)"

lemma length_closest_peers [simp]: "length (closest_peers n key ps) = min (length ps) n"
  by (simp add: closest_peers_def min.commute)

lemma set_closest_peers: "set (closest_peers n key ps) \<subseteq> set ps"
  unfolding closest_peers_def by (metis set_sort set_take_subset)

text \<open>A peer that is left out is strictly further away than every peer in the answer.\<close>

lemma closest_peers_best:
  assumes "wf_peer key" and "\<forall>e\<in>set ps. wf_peer (fst e)" and "distinct (map fst ps)"
    and "x \<in> set (closest_peers n key ps)" and "y \<in> set ps" and "y \<notin> set (closest_peers n key ps)"
  shows "distance (fst x) key < distance (fst y) key"
proof -
  have "y \<in> set (drop n (sort_key (\<lambda>e. distance (fst e) key) ps))"
    using assms(5,6) unfolding closest_peers_def
    by (metis UnE append_take_drop_id set_append set_sort)
  with assms show ?thesis
    unfolding closest_peers_def by (intro xor_dist.strictly_closer)
qed

end
