(* ===== verification/Connections.thy ===== *)
theory Connections
  imports Wire Ordered_Map Closest Log_Level
begin

text \<open>
  \<open>src/node/connections.rs\<close>: the table of connected peers. The table is a \<open>BTreeMap\<close>
  (an ordered map); an operation returns the new pool and the list of its effects on the
  outside, in order: bytes written to a stream, the reading task it starts or aborts, the
  tasks it spawns, the disconnection event. The mutex around the table makes each operation
  one step. A write half and a task are named by numbers; writing to a write half does not
  fail (the streams of \<open>src/stream.rs\<close>, the only ones the program is built with).
\<close>

record PeerInfo =
  pi_addr :: string
  pi_write_stream :: nat
  pi_ping_nanos :: "usize option"
  pi_read_stream_task :: nat

text \<open>\<open>cp_node_ref\<close> tells whether the weak reference to the node can be upgraded.\<close>

record ConnectionPool =
  cp_connections :: "(PeerID, PeerInfo) btree_map"
  cp_our_peer_id :: PeerID
  cp_ll :: LogLevel
  cp_node_ref :: bool

datatype effect =
    Wrote nat bytes
  | SpawnReader nat PeerID
  | AbortTask nat
  | RaiseDisconnect PeerID
  | SpawnDiscovery usize usize

definition pool_new :: "PeerID \<Rightarrow> LogLevel \<Rightarrow> ConnectionPool" where
  "pool_new our_peer_id ll =
     \<lparr>cp_connections = [], cp_our_peer_id = our_peer_id, cp_ll = ll, cp_node_ref = False\<rparr>"

definition set_node_ref :: "ConnectionPool \<Rightarrow> ConnectionPool" where
  "set_node_ref pool = pool\<lparr>cp_node_ref := True\<rparr>"

text \<open>\<open>self.get_node().unwrap()\<close>: a pool whose node is gone panics.\<close>

definition with_node :: "ConnectionPool \<Rightarrow> 'a outcome \<Rightarrow> 'a outcome" where
  "with_node pool k = (if cp_node_ref pool then k else Panics)"

section \<open>Sending\<close>

definition send_packet_unchecked ::
  "Packet codec \<Rightarrow> ConnectionPool \<Rightarrow> PeerID \<Rightarrow> Packet \<Rightarrow> effect list outcome" where
  "send_packet_unchecked c pool peer_id p = with_node pool
     (case raw_bytes c p of
        Inl e \<Rightarrow> Returns []
      | Inr bs \<Rightarrow>
          (case bt_get (cp_connections pool) peer_id of
             None \<Rightarrow> Returns []
           | Some peer \<Rightarrow> Returns [Wrote (pi_write_stream peer) (write_frame bs)]))"

definition send_packet ::
  "Packet codec \<Rightarrow> ConnectionPool \<Rightarrow> PeerID \<Rightarrow> Packet \<Rightarrow> effect list outcome" where
  "send_packet c pool peer_id p =
     (case p of Quit _ \<Rightarrow> Panics | _ \<Rightarrow> send_packet_unchecked c pool peer_id p)"

definition set_ping :: "ConnectionPool \<Rightarrow> PeerID \<Rightarrow> usize \<Rightarrow> ConnectionPool outcome" where
  "set_ping pool n ping_nanos = with_node pool
     (Returns (pool\<lparr>cp_connections :=
        bt_modify n (\<lambda>p. p\<lparr>pi_ping_nanos := Some ping_nanos\<rparr>) (cp_connections pool)\<rparr>))"

section \<open>Connecting and disconnecting\<close>

definition disconnect ::
  "Packet codec \<Rightarrow> ConnectionPool \<Rightarrow> PeerID \<Rightarrow> QuitPacket \<Rightarrow> (ConnectionPool \<times> effect list) outcome" where
  "disconnect c pool n quit_packet = with_node pool
     (bind_outcome (send_packet_unchecked c pool n (Quit quit_packet))
        (\<lambda>effs. case bt_get (cp_connections pool) n of
           Some peer \<Rightarrow>
             Returns (pool\<lparr>cp_connections := bt_remove n (cp_connections pool)\<rparr>,
                      effs @ [AbortTask (pi_read_stream_task peer), RaiseDisconnect n])
         | None \<Rightarrow> Returns (pool, effs)))"

definition already_connected_packet :: Packet where
  "already_connected_packet =
     Quit \<lparr>q_reason_code = ''InsertError::AlreadyConnected'', q_message = None, q_report_fault = False\<rparr>"

text \<open>
  \<open>ConnectionPool::insert\<close>, with the write half \<open>w\<close> and the number \<open>task\<close> of the task that
  \<open>tokio::spawn\<close> starts. \<open>Inl ()\<close> is \<open>Err(())\<close>.
\<close>

definition insert_peer ::
  "Packet codec \<Rightarrow> ConnectionPool \<Rightarrow> PeerID \<Rightarrow> nat \<Rightarrow> nat \<Rightarrow> string \<Rightarrow>
    (ConnectionPool \<times> effect list \<times> (unit + unit)) outcome" where
  "insert_peer c pool peer_id w task addr =
     (if bt_contains (cp_connections pool) peer_id then
        (case raw_bytes c already_connected_packet of
           Inl e \<Rightarrow> Panics
         | Inr bs \<Rightarrow> Returns (pool, [Wrote w (write_frame bs)], Inl ()))
      else
        let peer = \<lparr>pi_addr = addr, pi_write_stream = w, pi_ping_nanos = None,
                    pi_read_stream_task = task\<rparr>
        in Returns (pool\<lparr>cp_connections := bt_insert peer_id peer (cp_connections pool)\<rparr>,
                    [SpawnReader task peer_id], Inr ()))"

text \<open>
  One round of the reading task, on the bytes that have arrived: wait for more, hand a
  packet to \<open>on_packet\<close>, skip one that does not parse, or die (the refused length is
  \<open>unimplemented!\<close>).
\<close>

datatype reader_action =
    Wait
  | Handle Packet bytes
  | Skip bytes
  | Die

definition reader_round :: "Packet codec \<Rightarrow> bytes \<Rightarrow> reader_action" where
  "reader_round c s =
     (case read_frame s of
        Incomplete \<Rightarrow> Wait
      | TooLarge \<Rightarrow> Die
      | Frame p rest \<Rightarrow>
          (case from_raw_bytes c p of
             Inr packet \<Rightarrow> Handle packet rest
           | Inl e \<Rightarrow> Skip rest))"

section \<open>Queries\<close>

definition pool_len :: "ConnectionPool \<Rightarrow> usize" where
  "pool_len pool = length (cp_connections pool)"

definition peers :: "ConnectionPool \<Rightarrow> PeerID list" where
  "peers pool = map fst (cp_connections pool)"

definition peers_with_addrs :: "ConnectionPool \<Rightarrow> (PeerID \<times> string) list" where
  "peers_with_addrs pool = map (\<lambda>(n, p). (n, pi_addr p)) (cp_connections pool)"

definition contains :: "ConnectionPool \<Rightarrow> PeerID \<Rightarrow> bool" where
  "contains pool peer_id = bt_contains (cp_connections pool) peer_id"

definition peers_on_bucket :: "ConnectionPool \<Rightarrow> usize \<Rightarrow> usize \<Rightarrow> PeerID list" where
  "peers_on_bucket pool bucket_level bucket_id =
     filter (\<lambda>n. case bucket n (cp_our_peer_id pool) of
                   Some l \<Rightarrow> l = (bucket_level, bucket_id) | None \<Rightarrow> False) (peers pool)"

definition peers_on_bucket_and_under :: "ConnectionPool \<Rightarrow> usize \<Rightarrow> PeerID list" where
  "peers_on_bucket_and_under pool bucket_level =
     filter (\<lambda>n. case bucket n (cp_our_peer_id pool) of
                   Some l \<Rightarrow> fst l \<le> bucket_level | None \<Rightarrow> False) (peers pool)"

section \<open>Answering a discovery\<close>

text \<open>The loop over the table that collects the matching peers.\<close>

fun collect_matching ::
  "bool \<Rightarrow> PeerID \<Rightarrow> bytes \<Rightarrow> (PeerID \<times> PeerInfo) list \<Rightarrow> (PeerID \<times> string) list outcome" where
  "collect_matching dbg target msk [] = Returns []"
| "collect_matching dbg target msk ((peer_id, peer) # es) =
     bind_outcome (matches_checked dbg peer_id target msk)
       (\<lambda>b. bind_outcome (collect_matching dbg target msk es)
          (\<lambda>ps. Returns (if b then (peer_id, pi_addr peer) # ps else ps)))"

text \<open>\<open>while peers.len() > max_len { peers.remove(max_len * 2/3); }\<close>\<close>

function trim_loop :: "nat \<Rightarrow> 'a list \<Rightarrow> 'a list" where
  "trim_loop max_len ps =
     (if length ps > max_len
      then trim_loop max_len (take (max_len * 2 div 3) ps @ drop (Suc (max_len * 2 div 3)) ps)
      else ps)"
  by pat_completeness auto
termination
  by (relation "measure (\<lambda>(m, ps). length ps)") auto

declare trim_loop.simps [simp del]

text \<open>
  \<open>prepare_discover_peers_response\<close>, with the permutation \<open>shuffle\<close> that the random
  generator makes of the peers.
\<close>

definition prepare_discover_peers_response ::
  "bool \<Rightarrow> ((PeerID \<times> string) list \<Rightarrow> (PeerID \<times> string) list) \<Rightarrow> ConnectionPool \<Rightarrow>
    DiscoverPeersPacket \<Rightarrow> DiscoverPeersRespPacket outcome" where
  "prepare_discover_peers_response dbg shuffle pool p =
     bind_outcome (collect_matching dbg (dp_target p) (dp_mask p) (cp_connections pool))
       (\<lambda>ps. let ps = shuffle ps;
                  max_len = unat (min (dp_limit p) MAX_DISCOVERY_PEERS_RETURNED)
              in Returns \<lparr>dpr_request_id = dp_request_id p, dpr_peers = trim_loop max_len ps\<rparr>)"

section \<open>Refreshing the buckets\<close>

definition all_buckets :: "(usize \<times> usize) list" where
  "all_buckets = [(l, b). l \<leftarrow> [0..<128], b \<leftarrow> [0..<3]]"

text \<open>The two nested loops of \<open>refresh_buckets\<close>; \<open>break 'higher\<close> leaves both.\<close>

fun refresh_loop :: "ConnectionPool \<Rightarrow> (usize \<times> usize) list \<Rightarrow> effect list outcome" where
  "refresh_loop pool [] = Returns []"
| "refresh_loop pool ((bucket_level, bucket_id) # rest) =
     (let ps = peers_on_bucket pool bucket_level bucket_id
      in bind_outcome
           (if length ps < KADEMLIA_BUCKET_SIZE
            then with_node pool (Returns [SpawnDiscovery bucket_level bucket_id])
            else Returns [])
           (\<lambda>spawned.
              if ps = [] then Returns spawned
              else bind_outcome (refresh_loop pool rest) (\<lambda>effs. Returns (spawned @ effs))))"

definition refresh_buckets :: "ConnectionPool \<Rightarrow> effect list outcome" where
  "refresh_buckets pool = refresh_loop pool all_buckets"

section \<open>The invariant of the pool\<close>

definition pool_inv :: "ConnectionPool \<Rightarrow> bool" where
  "pool_inv pool \<longleftrightarrow>
     bt_inv (cp_connections pool)
     \<and> wf_peer (cp_our_peer_id pool)
     \<and> (\<forall>n\<in>set (peers pool). wf_peer n)
     \<and> cp_our_peer_id pool \<notin> set (peers pool)"

lemma with_node_Returns [simp]: "with_node pool m = Returns r \<longleftrightarrow> cp_node_ref pool \<and> m = Returns r"
  by (simp add: with_node_def)

lemma pool_invD:
  assumes "pool_inv pool"
  shows "bt_inv (cp_connections pool)" and "wf_peer (cp_our_peer_id pool)"
    and "n \<in> set (peers pool) \<Longrightarrow> wf_peer n" and "cp_our_peer_id pool \<notin> set (peers pool)"
  using assms by (auto simp: pool_inv_def)

lemma peers_distinct: "pool_inv pool \<Longrightarrow> distinct (peers pool)"
  unfolding peers_def by (blast intro: bt.keys_distinct pool_invD)

lemma peers_sorted: "pool_inv pool \<Longrightarrow> sorted_wrt (<) (peers pool)"
  unfolding peers_def by (blast intro: bt.entries_sorted pool_invD)

lemma contains_iff: "contains pool n \<longleftrightarrow> n \<in> set (peers pool)"
  by (auto simp: contains_def bt_contains_def bt_get_def peers_def map_of_eq_None_iff)

lemma fst_peers_with_addrs [simp]: "map fst (peers_with_addrs pool) = peers pool"
  by (simp add: peers_with_addrs_def peers_def comp_def case_prod_unfold)

lemma peers_get_iff:
  "pool_inv pool \<Longrightarrow> n \<in> set (peers pool) \<longleftrightarrow> bt_get (cp_connections pool) n \<noteq> None"
  by (simp add: contains_iff [symmetric] contains_def bt_contains_def)

section \<open>Every operation keeps the invariant\<close>

lemma pool_new_inv: "wf_peer our \<Longrightarrow> pool_inv (pool_new our ll)"
  by (simp add: pool_inv_def pool_new_def peers_def bt_inv_def)

lemma set_node_ref_inv: "pool_inv (set_node_ref pool) \<longleftrightarrow> pool_inv pool"
  by (simp add: pool_inv_def set_node_ref_def peers_def)

lemma pool_inv_keys:
  "pool_inv pool \<Longrightarrow> bt_inv m \<Longrightarrow> set (map fst m) \<subseteq> set (peers pool) \<Longrightarrow>
    pool_inv (pool\<lparr>cp_connections := m\<rparr>)"
  by (auto simp: pool_inv_def peers_def simp del: set_map)

lemma set_ping_inv: "pool_inv pool \<Longrightarrow> set_ping pool n t = Returns pool' \<Longrightarrow> pool_inv pool'"
proof -
  have "set (map fst (bt_modify n f (cp_connections pool))) \<subseteq> set (peers pool)" for f
    by (simp only: map_fst_bt_modify peers_def)
  moreover assume "pool_inv pool" and "set_ping pool n t = Returns pool'"
  ultimately show ?thesis
    unfolding set_ping_def by (auto intro!: pool_inv_keys dest: pool_invD(1) simp del: set_map)
qed

lemma disconnect_Returns:
  assumes "disconnect c pool n q = Returns (pool', effs)"
  shows "pool' = pool\<lparr>cp_connections := bt_remove n (cp_connections pool)\<rparr>"
proof -
  have "bt_remove n (cp_connections pool) = cp_connections pool"
    if "bt_get (cp_connections pool) n = None"
    using that by (auto simp: bt_get_def bt_remove_def map_of_eq_None_iff filter_id_iff image_iff)
  then show ?thesis
    using assms by (auto simp: disconnect_def bind_outcome_Returns_iff split: option.splits)
qed

lemma disconnect_inv:
  assumes "pool_inv pool" and "disconnect c pool n q = Returns (pool', effs)"
  shows "pool_inv pool'"
proof -
  have "set (map fst (bt_remove n (cp_connections pool))) \<subseteq> set (peers pool)"
    by (auto simp: bt_remove_def peers_def)
  then show ?thesis
    using assms(1) unfolding disconnect_Returns [OF assms(2)]
    by (intro pool_inv_keys bt_remove_inv pool_invD(1))
qed

lemma set_peers_insert:
  "pool_inv pool \<Longrightarrow>
    set (map fst (bt_insert n pi (cp_connections pool))) = insert n (set (peers pool))"
  using bt.keys_dom [of "bt_insert n pi (cp_connections pool)"] bt.keys_dom [of "cp_connections pool"]
    bt.dom_ins [of "cp_connections pool" n pi] pool_invD(1) [of pool]
  by (simp add: peers_def bt_insert_inv)

lemma insert_peer_inv:
  assumes "pool_inv pool" and "wf_peer n" and "n \<noteq> cp_our_peer_id pool"
    and "insert_peer c pool n w task addr = Returns (pool', effs, r)"
  shows "pool_inv pool'"
proof (cases "bt_contains (cp_connections pool) n")
  case True
  with assms show ?thesis by (auto simp: insert_peer_def split: sum.splits)
next
  case False
  then obtain pi where "pool' = pool\<lparr>cp_connections := bt_insert n pi (cp_connections pool)\<rparr>"
    using assms(4) by (auto simp: insert_peer_def Let_def)
  then show ?thesis
    using assms(1-3) set_peers_insert [OF assms(1), of n pi]
    by (auto simp: pool_inv_def peers_def bt_insert_inv simp del: set_map)
qed

text \<open>
  Inserting a peer twice is refused the second time and changes nothing but the stream of
  the second connection, which is told why.
\<close>

lemma insert_peer_fresh:
  assumes "pool_inv pool" and "\<not> contains pool n"
    and "insert_peer c pool n w task addr = Returns (pool', effs, r)"
  shows "r = Inr ()" and "effs = [SpawnReader task n]"
    and "set (peers pool') = insert n (set (peers pool))" and "pool_len pool' = Suc (pool_len pool)"
proof -
  let ?m = "cp_connections pool"
  from assms obtain pi where pool': "pool' = pool\<lparr>cp_connections := bt_insert n pi ?m\<rparr>"
    and "r = Inr ()" and "effs = [SpawnReader task n]"
    by (auto simp: insert_peer_def contains_def Let_def)
  then show "r = Inr ()" and "effs = [SpawnReader task n]" by simp_all
  show "set (peers pool') = insert n (set (peers pool))"
    using set_peers_insert [OF assms(1), of n pi] by (simp add: pool' peers_def del: set_map)
  show "pool_len pool' = Suc (pool_len pool)"
    using bt.length_ins [of ?m n pi] pool_invD(1) [OF assms(1)] assms(2)
    by (simp add: pool' pool_len_def contains_def bt_contains_def)
qed

lemma insert_peer_again:
  assumes "contains pool n" and "raw_bytes c already_connected_packet = Inr bs"
  shows "insert_peer c pool n w task addr = Returns (pool, [Wrote w (write_frame bs)], Inl ())"
  using assms by (simp add: insert_peer_def contains_def)

lemma disconnect_connected:
  assumes "pool_inv pool" and "cp_node_ref pool"
    and "bt_get (cp_connections pool) n = Some peer" and "raw_bytes c (Quit q) = Inr bs"
  shows "\<exists>pool'. disconnect c pool n q =
      Returns (pool', [Wrote (pi_write_stream peer) (write_frame bs),
                       AbortTask (pi_read_stream_task peer), RaiseDisconnect n])
    \<and> set (peers pool') = set (peers pool) - {n} \<and> pool_len pool' = pool_len pool - 1"
proof -
  let ?m = "cp_connections pool"
  have "set (map fst (bt_remove n ?m)) = set (peers pool) - {n}"
    by (auto simp: bt_remove_def peers_def)
  moreover have "length (bt_remove n ?m) = length ?m - 1"
    using bt.length_del [of ?m n] pool_invD(1) [OF assms(1)] assms(3) by simp
  ultimately show ?thesis
    using assms by (simp add: disconnect_def send_packet_unchecked_def with_node_def peers_def pool_len_def
        del: set_map)
qed

section \<open>Discovery answers\<close>

lemma trim_loop_closed [loop_facts]:
  "max_len < length ps \<Longrightarrow>
    trim_loop max_len ps =
      take (max_len * 2 div 3) ps @ drop (length ps - (max_len - max_len * 2 div 3)) ps"
proof (induction max_len ps rule: trim_loop.induct)
  case (1 m ps)
  let ?k = "m * 2 div 3"
  let ?ps = "take ?k ps @ drop (Suc ?k) ps"
  have k: "?k \<le> m" by simp
  with 1(2) have len: "length ?ps = length ps - 1" by simp
  show ?case
  proof (cases "m < length ?ps")
    case True
    have "trim_loop m ps = trim_loop m ?ps"
      using 1(2) by (simp add: trim_loop.simps [of m ps])
    also have "\<dots> = take ?k ?ps @ drop (length ?ps - (m - ?k)) ?ps"
      using 1 True by blast
    also have "take ?k ?ps = take ?k ps" using k 1(2) by simp
    also have "drop (length ?ps - (m - ?k)) ?ps = drop (length ps - (m - ?k)) ps"
      using k True len 1(2) by (simp add: Suc_diff_Suc)
    finally show ?thesis .
  next
    case False
    with len 1(2) have l: "length ps = Suc m" by simp
    then have "trim_loop m ps = trim_loop m ?ps" by (simp add: trim_loop.simps [of m ps])
    also have "\<dots> = ?ps" using False by (simp add: trim_loop.simps [of m ?ps])
    finally show ?thesis using l k by (simp add: Suc_diff_le)
  qed
qed

lemma trim_loop_short: "length ps \<le> max_len \<Longrightarrow> trim_loop max_len ps = ps"
  by (simp add: trim_loop.simps)

lemma length_trim_loop [simp]: "length (trim_loop m ps) = min m (length ps)"
proof (cases "m < length ps")
  case True
  have "m * 2 div 3 \<le> m" by simp
  with True show ?thesis by (simp add: trim_loop_closed)
qed (simp add: trim_loop_short)

lemma set_trim_loop: "set (trim_loop m ps) \<subseteq> set ps"
  by (cases "m < length ps")
    (auto simp: trim_loop_closed trim_loop_short dest: in_set_takeD in_set_dropD)

lemma collect_matching_eq:
  assumes "\<forall>n\<in>fst ` set es. wf_peer n" and "wf_peer target" and "length msk \<le> 32"
  shows "collect_matching dbg target msk es =
    Returns (map (\<lambda>(n, p). (n, pi_addr p)) (filter (\<lambda>e. matches (fst e) target msk) es))"
  using assms by (induction es) (auto simp: matches_checked_eq)

lemma prepare_response_eq:
  assumes "pool_inv pool" and "wf_peer (dp_target p)" and "length (dp_mask p) \<le> 32"
  shows "prepare_discover_peers_response dbg shuffle pool p =
    Returns \<lparr>dpr_request_id = dp_request_id p,
      dpr_peers = trim_loop (unat (min (dp_limit p) MAX_DISCOVERY_PEERS_RETURNED))
        (shuffle (filter (\<lambda>e. matches (fst e) (dp_target p) (dp_mask p)) (peers_with_addrs pool)))\<rparr>"
proof -
  have "\<forall>n\<in>fst ` set (cp_connections pool). wf_peer n"
    using assms(1) by (auto simp: pool_inv_def peers_def)
  moreover have "map (\<lambda>(n, p). (n, pi_addr p)) (filter (\<lambda>e. matches (fst e) (dp_target p) (dp_mask p))
        (cp_connections pool)) =
      filter (\<lambda>e. matches (fst e) (dp_target p) (dp_mask p)) (peers_with_addrs pool)"
    by (simp add: peers_with_addrs_def filter_map comp_def case_prod_unfold)
  ultimately show ?thesis
    using assms(2,3)
    by (simp add: prepare_discover_peers_response_def collect_matching_eq Let_def)
qed

section \<open>The buckets partition the table\<close>

lemma all_buckets_distinct: "distinct all_buckets"
proof -
  have "distinct (concat (map (\<lambda>l. map (\<lambda>b. (l, b)) bs) ls))"
    if "distinct bs" "distinct ls" for bs ls :: "nat list"
    using that by (induction ls) (auto simp: distinct_map inj_on_def)
  from this [of "[0..<3]" "[0..<128]"] show ?thesis
    unfolding all_buckets_def by simp
qed

lemma set_all_buckets: "set all_buckets = {0..<128} \<times> {0..<3}"
  unfolding all_buckets_def by auto

lemma set_peers_on_bucket:
  "set (peers_on_bucket pool l b) = {n \<in> set (peers pool). bucket n (cp_our_peer_id pool) = Some (l, b)}"
  by (auto simp: peers_on_bucket_def split: option.splits)

lemma bucket_of_peer:
  assumes "pool_inv pool" and "n \<in> set (peers pool)"
  shows "\<exists>lb\<in>set all_buckets. bucket n (cp_our_peer_id pool) = Some lb"
proof -
  have n: "wf_peer n" "wf_peer (cp_our_peer_id pool)" "n \<noteq> cp_our_peer_id pool"
    using pool_invD [OF assms(1)] assms(2) by auto
  then obtain l b where lb: "bucket n (cp_our_peer_id pool) = Some (l, b)"
    using bucket_None_iff [of n "cp_our_peer_id pool"] by auto
  with n have "l < 128 \<and> b < 3" by (intro bucket_range)
  with lb show ?thesis by (auto simp: set_all_buckets)
qed

lemma sum_list_indicator:
  "distinct ks \<Longrightarrow> (\<Sum>k\<leftarrow>ks. if k = x then 1 else (0::nat)) = (if x \<in> set ks then 1 else 0)"
  by (induction ks) auto

lemma length_filter_partition:
  assumes "distinct ks" and "\<forall>x\<in>set xs. f x \<in> set ks"
  shows "(\<Sum>k\<leftarrow>ks. length (filter (\<lambda>x. f x = k) xs)) = length xs"
  using assms(2)
proof (induction xs)
  case (Cons x xs)
  have "(\<Sum>k\<leftarrow>ks. length (filter (\<lambda>y. f y = k) (x # xs))) =
      (\<Sum>k\<leftarrow>ks. (if k = f x then 1 else 0) + length (filter (\<lambda>y. f y = k) xs))"
    by (intro arg_cong [where f = sum_list] map_cong) auto
  also have "\<dots> = (\<Sum>k\<leftarrow>ks. if k = f x then 1 else 0) + (\<Sum>k\<leftarrow>ks. length (filter (\<lambda>y. f y = k) xs))"
    by (rule sum_list_addf)
  finally show ?case using Cons sum_list_indicator [OF assms(1), of "f x"] by simp
qed simp

lemma buckets_partition:
  assumes "pool_inv pool"
  shows "(\<Sum>(l, b)\<leftarrow>all_buckets. length (peers_on_bucket pool l b)) = pool_len pool"
proof -
  let ?f = "\<lambda>n. the (bucket n (cp_our_peer_id pool))"
  have eq: "peers_on_bucket pool l b = filter (\<lambda>n. ?f n = (l, b)) (peers pool)" for l b
    unfolding peers_on_bucket_def
  proof (rule filter_cong [OF refl])
    fix n
    assume "n \<in> set (peers pool)"
    from bucket_of_peer [OF assms this]
    show "(case bucket n (cp_our_peer_id pool) of None \<Rightarrow> False | Some lb \<Rightarrow> lb = (l, b)) \<longleftrightarrow>
        ?f n = (l, b)"
      by auto
  qed
  have "\<forall>n\<in>set (peers pool). ?f n \<in> set all_buckets"
    using bucket_of_peer [OF assms] by force
  from length_filter_partition [OF all_buckets_distinct this]
  show ?thesis by (simp add: eq case_prod_unfold pool_len_def peers_def)
qed

section \<open>What a refresh spawns\<close>

text \<open>
  Every underfull bucket before the first empty one, in order, and that empty one.
\<close>

definition refresh_plan :: "ConnectionPool \<Rightarrow> (usize \<times> usize) list" where
  "refresh_plan pool =
     (let empty = (\<lambda>(l, b). peers_on_bucket pool l b = []);
          underfull = (\<lambda>(l, b). length (peers_on_bucket pool l b) < 8)
      in filter underfull (takeWhile (Not \<circ> empty) all_buckets)
         @ take 1 (dropWhile (Not \<circ> empty) all_buckets))"

lemma refresh_loop_eq:
  assumes "cp_node_ref pool"
  shows "refresh_loop pool bs = Returns (map (\<lambda>(l, b). SpawnDiscovery l b)
    (filter (\<lambda>(l, b). length (peers_on_bucket pool l b) < 8)
        (takeWhile (\<lambda>(l, b). peers_on_bucket pool l b \<noteq> []) bs)
      @ take 1 (dropWhile (\<lambda>(l, b). peers_on_bucket pool l b \<noteq> []) bs)))"
  using assms
  by (induction pool bs rule: refresh_loop.induct)
    (auto simp: with_node_def KADEMLIA_BUCKET_SIZE_def Let_def)

lemma refresh_buckets_eq:
  "cp_node_ref pool \<Longrightarrow>
    refresh_buckets pool = Returns (map (\<lambda>(l, b). SpawnDiscovery l b) (refresh_plan pool))"
  by (simp add: refresh_buckets_def refresh_loop_eq refresh_plan_def Let_def comp_def case_prod_unfold)

lemma takeWhile_dropWhile_1:
  "distinct xs \<Longrightarrow> distinct (filter p (takeWhile q xs) @ take 1 (dropWhile q xs))"
proof -
  assume "distinct xs"
  then have "distinct (takeWhile q xs @ dropWhile q xs)" by simp
  then show ?thesis
    by (auto simp only: distinct_append distinct_filter set_filter intro: distinct_take dest: in_set_takeD)
qed

lemma refresh_plan_distinct: "distinct (refresh_plan pool)"
  unfolding refresh_plan_def Let_def by (intro takeWhile_dropWhile_1 all_buckets_distinct)

lemma refresh_plan_underfull:
  assumes "(l, b) \<in> set (refresh_plan pool)"
  shows "l < 128 \<and> b < 3 \<and> length (peers_on_bucket pool l b) < 8"
proof -
  let ?ne = "Not \<circ> (\<lambda>(l, b). peers_on_bucket pool l b = [])"
  from assms consider "(l, b) \<in> set (filter (\<lambda>(l, b). length (peers_on_bucket pool l b) < 8)
      (takeWhile ?ne all_buckets))" | "(l, b) \<in> set (take 1 (dropWhile ?ne all_buckets))"
    unfolding refresh_plan_def Let_def by auto
  then have "(l, b) \<in> set all_buckets \<and> length (peers_on_bucket pool l b) < 8"
  proof cases
    case 1
    then show ?thesis by (auto dest: set_takeWhileD)
  next
    case 2
    then obtain rest where rest: "dropWhile ?ne all_buckets = (l, b) # rest"
      by (cases "dropWhile ?ne all_buckets") auto
    then have "(l, b) \<in> set all_buckets" by (metis list.set_intros(1) set_dropWhileD)
    moreover have "\<not> ?ne (l, b)" using rest hd_dropWhile [of ?ne all_buckets] by simp
    ultimately show ?thesis by simp
  qed
  then show ?thesis by (simp add: set_all_buckets)
qed

section \<open>Properties\<close>

text \<open>
  C26: inserting a peer keeps the invariant of the pool and never disturbs another connection.
  A new peer is registered with its address, its stream and a new reading task; a peer that is
  connected already leaves the table alone and is told so on the refused stream.
\<close>

theorem insert_registers_once:
  assumes "pool_inv pool" and "wf_peer n" and "n \<noteq> cp_our_peer_id pool"
    and "insert_peer c pool n w task addr = Returns (pool', effs, r)"
  shows "pool_inv pool'
    \<and> (\<forall>m. m \<noteq> n \<longrightarrow> bt_get (cp_connections pool') m = bt_get (cp_connections pool) m)
    \<and> (if contains pool n
      then pool' = pool \<and> r = Inl () \<and> (\<exists>bs. raw_bytes c already_connected_packet = Inr bs \<and> effs = [Wrote w (write_frame bs)])
      else r = Inr () \<and> effs = [SpawnReader task n] \<and> pool_len pool' = Suc (pool_len pool)
        \<and> bt_get (cp_connections pool') n = Some \<lparr>pi_addr = addr, pi_write_stream = w,
            pi_ping_nanos = None, pi_read_stream_task = task\<rparr>)"
proof (intro conjI)
  note inv = pool_invD(1) [OF assms(1)]
  show "pool_inv pool'" by (rule insert_peer_inv [OF assms])
  show "\<forall>m. m \<noteq> n \<longrightarrow> bt_get (cp_connections pool') m = bt_get (cp_connections pool) m"
    using assms(4) inv
    by (auto simp: insert_peer_def Let_def bt.get_ins split: if_splits sum.splits)
  show "if contains pool n
      then pool' = pool \<and> r = Inl () \<and> (\<exists>bs. raw_bytes c already_connected_packet = Inr bs \<and> effs = [Wrote w (write_frame bs)])
      else r = Inr () \<and> effs = [SpawnReader task n] \<and> pool_len pool' = Suc (pool_len pool)
        \<and> bt_get (cp_connections pool') n = Some \<lparr>pi_addr = addr, pi_write_stream = w,
            pi_ping_nanos = None, pi_read_stream_task = task\<rparr>"
    using assms(4) inv insert_peer_fresh [OF assms(1) _ assms(4)]
    by (auto simp: insert_peer_def contains_def Let_def bt.get_ins split: if_splits sum.splits)
qed

theorem insert_registers_once_witness:
  "\<exists>pool' effs r. insert_peer (table_codec []) (pool_new (sample_peer 1) (log_from 1)) (sample_peer 2) 7 8 ''local-1''
      = Returns (pool', effs, r) \<and> pool_inv pool'"
proof -
  let ?pool = "pool_new (sample_peer 1) (log_from 1)"
  have "\<exists>pool' effs r. insert_peer (table_codec []) ?pool (sample_peer 2) 7 8 ''local-1'' = Returns (pool', effs, r)"
    by (simp add: insert_peer_def pool_new_def bt_contains_def bt_get_def Let_def)
  then obtain pool' effs r where
    ins: "insert_peer (table_codec []) ?pool (sample_peer 2) 7 8 ''local-1'' = Returns (pool', effs, r)"
    by blast
  have "pool_inv ?pool" and "sample_peer 2 \<noteq> cp_our_peer_id ?pool"
    by (simp_all add: pool_new_inv) (simp add: pool_new_def)
  from insert_registers_once [OF this(1) _ this(2) ins] ins show ?thesis by auto
qed

text \<open>
  Disconnecting a connected peer sends it the quit packet, aborts its reading task and
  raises the event, in this order, and removes it and only it from the table; an unknown peer
  changes nothing.
\<close>

theorem disconnect_removes:
  assumes "pool_inv pool" and "cp_node_ref pool" and "raw_bytes c (Quit q) = Inr bs"
  shows "\<exists>pool' effs. disconnect c pool n q = Returns (pool', effs) \<and> pool_inv pool'
    \<and> bt_get (cp_connections pool') = (bt_get (cp_connections pool))(n := None)
    \<and> effs = (case bt_get (cp_connections pool) n of
          None \<Rightarrow> []
        | Some peer \<Rightarrow> [Wrote (pi_write_stream peer) (write_frame bs),
                        AbortTask (pi_read_stream_task peer), RaiseDisconnect n])"
proof -
  obtain pool' effs where d: "disconnect c pool n q = Returns (pool', effs)"
    and effs: "effs = (case bt_get (cp_connections pool) n of
          None \<Rightarrow> []
        | Some peer \<Rightarrow> [Wrote (pi_write_stream peer) (write_frame bs),
                        AbortTask (pi_read_stream_task peer), RaiseDisconnect n])"
    using assms(2,3)
    by (cases "bt_get (cp_connections pool) n")
      (auto simp: disconnect_def send_packet_unchecked_def with_node_def)
  moreover have "bt_get (cp_connections pool') = (bt_get (cp_connections pool))(n := None)"
    unfolding disconnect_Returns [OF d] using pool_invD(1) [OF assms(1)]
    by (simp add: fun_eq_iff bt.get_del)
  ultimately show ?thesis using disconnect_inv [OF assms(1) d] by blast
qed

theorem disconnect_removes_witness:
  "\<exists>pool' effs. disconnect (table_codec [already_connected_packet])
      (set_node_ref (pool_new (sample_peer 1) (log_from 1))) (sample_peer 2)
      \<lparr>q_reason_code = ''InsertError::AlreadyConnected'', q_message = None, q_report_fault = False\<rparr>
    = Returns (pool', effs) \<and> pool_inv pool'"
proof -
  let ?pool = "set_node_ref (pool_new (sample_peer 1) (log_from 1))"
  have "pool_inv ?pool" "cp_node_ref ?pool"
    by (simp_all add: set_node_ref_inv pool_new_inv) (simp add: set_node_ref_def)
  moreover have "raw_bytes (table_codec [already_connected_packet])
      (Quit \<lparr>q_reason_code = ''InsertError::AlreadyConnected'', q_message = None, q_report_fault = False\<rparr>) = Inr [0]"
    by (simp add: raw_bytes_table already_connected_packet_def)
  ultimately show ?thesis using disconnect_removes by blast
qed

text \<open>
  The buckets partition the connected peers: every peer is in exactly one of the 384
  buckets, so that their sizes add up to the number of connections.
\<close>

theorem buckets_partition_peers:
  assumes "pool_inv pool"
  shows "(\<Sum>(l, b)\<leftarrow>all_buckets. length (peers_on_bucket pool l b)) = pool_len pool
    \<and> (\<forall>n\<in>set (peers pool). \<exists>!lb. lb \<in> set all_buckets \<and> n \<in> set (peers_on_bucket pool (fst lb) (snd lb)))"
proof
  show "(\<Sum>(l, b)\<leftarrow>all_buckets. length (peers_on_bucket pool l b)) = pool_len pool"
    by (rule buckets_partition [OF assms])
  show "\<forall>n\<in>set (peers pool). \<exists>!lb. lb \<in> set all_buckets \<and> n \<in> set (peers_on_bucket pool (fst lb) (snd lb))"
    using bucket_of_peer [OF assms] by (force simp: set_peers_on_bucket)
qed

theorem buckets_partition_peers_witness:
  "(\<Sum>(l, b)\<leftarrow>all_buckets. length (peers_on_bucket (pool_new (sample_peer 1) (log_from 1)) l b)) = 0"
  using buckets_partition_peers [of "pool_new (sample_peer 1) (log_from 1)"]
  by (simp add: pool_new_inv) (simp add: pool_len_def pool_new_def)

text \<open>
  Buckets in the order of the loops; what is selected up to the first element without \<open>Q\<close>.
\<close>

definition bucket_position :: "usize \<times> usize \<Rightarrow> nat" where
  "bucket_position lb = 3 * fst lb + snd lb"

lemma all_buckets_sorted: "sorted_wrt (\<lambda>x y. bucket_position x < bucket_position y) all_buckets"
proof -
  have eq: "all_buckets = map (\<lambda>k. (k div 3, k mod 3)) [0..<384]" by code_simp
  have pos: "bucket_position (k div 3, k mod 3) = k" for k by (simp add: bucket_position_def)
  show ?thesis unfolding eq sorted_wrt_map pos by (rule sorted_wrt_upt)
qed

lemma select_until:
  fixes f :: "'a \<Rightarrow> nat"
  assumes "sorted_wrt (\<lambda>x y. f x < f y) xs" and "\<And>x. \<not> Q x \<Longrightarrow> P x"
  shows "sorted_wrt (\<lambda>x y. f x < f y) (filter P (takeWhile Q xs) @ take 1 (dropWhile Q xs))
    \<and> set (filter P (takeWhile Q xs) @ take 1 (dropWhile Q xs))
      = {x \<in> set xs. P x \<and> (\<forall>y\<in>set xs. f y < f x \<longrightarrow> Q y)}"
  using assms(1)
proof (induction xs)
  case (Cons a xs)
  have a: "\<forall>x\<in>set xs. f a < f x" using Cons.prems by simp
  show ?case
  proof (cases "Q a")
    case True
    with Cons a show ?thesis by auto
  next
    case False
    with a assms(2) show ?thesis by auto
  qed
qed simp

text \<open>
  C27: a refresh starts a discovery for exactly the buckets with fewer than eight peers up to and
  including the first empty one, each once and in the order of the buckets.
\<close>

theorem refresh_starts_underfull:
  assumes "cp_node_ref pool"
  shows "\<exists>plan. refresh_buckets pool = Returns (map (\<lambda>(l, b). SpawnDiscovery l b) plan)
    \<and> sorted_wrt (\<lambda>x y. bucket_position x < bucket_position y) plan
    \<and> set plan = {(l, b). l < 128 \<and> b < 3 \<and> length (peers_on_bucket pool l b) < 8
        \<and> (\<forall>l' b'. l' < 128 \<and> b' < 3 \<and> bucket_position (l', b') < bucket_position (l, b)
             \<longrightarrow> peers_on_bucket pool l' b' \<noteq> [])}"
proof -
  let ?Q = "Not \<circ> (\<lambda>(l, b). peers_on_bucket pool l b = [])"
  let ?P = "\<lambda>(l, b). length (peers_on_bucket pool l b) < 8"
  have "?P x" if "\<not> ?Q x" for x using that by auto
  note sel = select_until [where f = bucket_position and P = ?P, OF all_buckets_sorted this]
  from sel have "sorted_wrt (\<lambda>x y. bucket_position x < bucket_position y) (refresh_plan pool)"
    unfolding refresh_plan_def Let_def by blast
  moreover from sel have "set (refresh_plan pool) =
      {x \<in> set all_buckets. ?P x \<and> (\<forall>y\<in>set all_buckets. bucket_position y < bucket_position x \<longrightarrow> ?Q y)}"
    unfolding refresh_plan_def Let_def by blast
  then have "set (refresh_plan pool) = {(l, b). l < 128 \<and> b < 3 \<and> length (peers_on_bucket pool l b) < 8
        \<and> (\<forall>l' b'. l' < 128 \<and> b' < 3 \<and> bucket_position (l', b') < bucket_position (l, b)
             \<longrightarrow> peers_on_bucket pool l' b' \<noteq> [])}"
    by (auto simp: set_all_buckets)
  ultimately show ?thesis using refresh_buckets_eq [OF assms] by blast
qed

theorem refresh_starts_underfull_witness:
  "refresh_buckets (set_node_ref (pool_new (sample_peer 1) (log_from 1))) \<noteq> Panics"
  using refresh_starts_underfull [of "set_node_ref (pool_new (sample_peer 1) (log_from 1))"]
  by (auto simp: set_node_ref_def)

text \<open>
  The answer to a discovery holds only connected peers that match the target under the mask,
  at most as many as the limit and 64, and every matching peer when there are no more than that;
  longer answers lose a contiguous part that starts at two thirds of the limit.
\<close>

theorem discovery_answer:
  assumes "pool_inv pool" and "wf_peer (dp_target p)" and "length (dp_mask p) \<le> 32"
    and "mset (shuffle (filter (\<lambda>e. matches (fst e) (dp_target p) (dp_mask p)) (peers_with_addrs pool)))
      = mset (filter (\<lambda>e. matches (fst e) (dp_target p) (dp_mask p)) (peers_with_addrs pool))"
  shows "\<exists>resp. prepare_discover_peers_response dbg shuffle pool p = Returns resp
    \<and> dpr_request_id resp = dp_request_id p
    \<and> (let found = shuffle (filter (\<lambda>e. matches (fst e) (dp_target p) (dp_mask p)) (peers_with_addrs pool));
           limit = min (unat (dp_limit p)) 64
       in set (dpr_peers resp) \<subseteq> {e \<in> set (peers_with_addrs pool). matches (fst e) (dp_target p) (dp_mask p)}
          \<and> length (dpr_peers resp) = min limit (length found)
          \<and> dpr_peers resp = (if length found \<le> limit then found
               else take (limit * 2 div 3) found @ drop (length found - (limit - limit * 2 div 3)) found))"
proof -
  let ?found = "shuffle (filter (\<lambda>e. matches (fst e) (dp_target p) (dp_mask p)) (peers_with_addrs pool))"
  let ?limit = "unat (min (dp_limit p) MAX_DISCOVERY_PEERS_RETURNED)"
  have limit: "?limit = min (unat (dp_limit p)) 64"
    by (simp add: unat_min MAX_DISCOVERY_PEERS_RETURNED_def)
  have "set ?found = {e \<in> set (peers_with_addrs pool). matches (fst e) (dp_target p) (dp_mask p)}"
    using mset_eq_setD [OF assms(4)] by (simp only: set_filter)
  then have sub: "set (trim_loop ?limit ?found) \<subseteq>
      {e \<in> set (peers_with_addrs pool). matches (fst e) (dp_target p) (dp_mask p)}"
    using set_trim_loop [of ?limit ?found] by simp
  have form: "trim_loop ?limit ?found = (if length ?found \<le> ?limit then ?found
      else take (?limit * 2 div 3) ?found @ drop (length ?found - (?limit - ?limit * 2 div 3)) ?found)"
    by (simp add: trim_loop_short trim_loop_closed)
  let ?resp = "\<lparr>dpr_request_id = dp_request_id p, dpr_peers = trim_loop ?limit ?found\<rparr>"
  have resp: "dpr_request_id ?resp = dp_request_id p" "dpr_peers ?resp = trim_loop ?limit ?found"
    by simp_all
  show ?thesis
    unfolding Let_def
    by (rule exI [of _ ?resp], intro conjI, unfold resp limit [symmetric])
      (rule prepare_response_eq [OF assms(1-3)] refl sub length_trim_loop form)+
qed

theorem discovery_answer_witness:
  "\<exists>resp. prepare_discover_peers_response True (\<lambda>xs. xs) (pool_new (sample_peer 1) (log_from 1))
      \<lparr>dp_request_id = 5, dp_target = sample_peer 2, dp_mask = [255], dp_limit = 9\<rparr> = Returns resp
    \<and> dpr_request_id resp = 5"
  using discovery_answer [of "pool_new (sample_peer 1) (log_from 1)"
      "\<lparr>dp_request_id = 5, dp_target = sample_peer 2, dp_mask = [255], dp_limit = 9\<rparr>" "\<lambda>xs. xs" True]
  by (auto simp: pool_new_inv)

end
