(* ===== verification/Process.thy ===== *)
theory Process
  imports Connections
begin

text \<open>
  Asynchronous tasks that talk to one peer over a connection (the handshake and what follows
  it): a task is a tree of the points where it awaits something. What arrives and what is
  written are FIFO byte sequences; the table of connections is accessed atomically, as its
  mutex ensures. Two tasks at the ends of one connection run in any interleaving.
\<close>

section \<open>Tasks\<close>

text \<open>
  \<open>Recv n k\<close> awaits \<open>read_exact\<close> of \<open>n\<close> bytes, \<open>Send bs k\<close> awaits \<open>write_all\<close>; both may
  report an I/O error to the continuation. \<open>Access upd k\<close> locks the pool: it leaves the pool
  \<open>upd pool\<close> and continues as \<open>k pool\<close>. \<open>Crash\<close> is a panic.
\<close>

datatype 'a proc =
    Done 'a
  | Crash
  | Recv nat "lib_error + bytes \<Rightarrow> 'a proc"
  | Send bytes "lib_error + unit \<Rightarrow> 'a proc"
  | Access "ConnectionPool \<Rightarrow> ConnectionPool" "ConnectionPool \<Rightarrow> 'a proc"

primrec bind_proc :: "'a proc \<Rightarrow> ('a \<Rightarrow> 'b proc) \<Rightarrow> 'b proc" where
  "bind_proc (Done a) f = f a"
| "bind_proc Crash f = Crash"
| "bind_proc (Recv n k) f = Recv n (\<lambda>x. bind_proc (k x) f)"
| "bind_proc (Send bs k) f = Send bs (\<lambda>x. bind_proc (k x) f)"
| "bind_proc (Access upd k) f = Access upd (\<lambda>x. bind_proc (k x) f)"

lemma bind_proc_assoc: "bind_proc (bind_proc m f) g = bind_proc m (\<lambda>a. bind_proc (f a) g)"
  by (induction m) simp_all

section \<open>One task\<close>

text \<open>
  A step of a task on the pool and the bytes that have arrived: the rest of the task, the
  new pool, the bytes left and the bytes written. A finished, panicked or waiting task has
  none. Reading and writing succeed, as on the streams of \<open>src/stream.rs\<close>.
\<close>

fun pstep :: "'a proc \<Rightarrow> ConnectionPool \<Rightarrow> bytes \<Rightarrow> ('a proc \<times> ConnectionPool \<times> bytes \<times> bytes) option" where
  "pstep (Done a) pool inc = None"
| "pstep Crash pool inc = None"
| "pstep (Recv n k) pool inc =
     (if length inc < n then None else Some (k (Inr (take n inc)), pool, drop n inc, []))"
| "pstep (Send bs k) pool inc = Some (k (Inr ()), pool, inc, bs)"
| "pstep (Access upd k) pool inc = Some (k pool, upd pool, inc, [])"

text \<open>Running a task until it finishes, panics or waits for bytes that have not arrived.\<close>

primrec exec :: "'a proc \<Rightarrow> ConnectionPool \<Rightarrow> bytes \<Rightarrow> 'a proc \<times> ConnectionPool \<times> bytes \<times> bytes" where
  "exec (Done a) pool inc = (Done a, pool, inc, [])"
| "exec Crash pool inc = (Crash, pool, inc, [])"
| "exec (Recv n k) pool inc =
     (if length inc < n then (Recv n k, pool, inc, [])
      else exec (k (Inr (take n inc))) pool (drop n inc))"
| "exec (Send bs k) pool inc =
     (case exec (k (Inr ())) pool inc of (p, pool', rest, out) \<Rightarrow> (p, pool', rest, bs @ out))"
| "exec (Access upd k) pool inc = exec (k pool) (upd pool) inc"

lemma exec_bind:
  "exec (bind_proc m f) pool inc =
    (case exec m pool inc of (m', pool', rest, out) \<Rightarrow>
       (case exec (bind_proc m' f) pool' rest of (p, pool'', rest', out') \<Rightarrow>
          (p, pool'', rest', out @ out')))"
  by (induction m arbitrary: pool inc) (simp_all split: prod.splits)

text \<open>Where a run stops, no step is left.\<close>

lemma pstep_exec: "exec m pool inc = (m', pool', rest, out) \<Longrightarrow> pstep m' pool' rest = None"
  by (induction m arbitrary: pool inc out) (fastforce split: if_splits prod.splits)+

lemma exec_stuck: "pstep m pool inc = None \<Longrightarrow> exec m pool inc = (m, pool, inc, [])"
  by (cases m) (auto split: if_splits)

text \<open>Bytes that arrive later do not change what has been done.\<close>

lemma pstep_more:
  "pstep p pool inc = Some (p', pool', rest, out) \<Longrightarrow>
    pstep p pool (inc @ late) = Some (p', pool', rest @ late, out)"
  by (cases p) (auto split: if_splits)

lemma exec_more:
  "exec p pool inc = (p', pool', rest, out) \<Longrightarrow>
    exec p pool (inc @ late) =
      (case exec p' pool' (rest @ late) of (q, pool'', rest', out') \<Rightarrow> (q, pool'', rest', out @ out'))"
proof (induction p arbitrary: pool inc out)
  case (Recv n k)
  then show ?case by (auto split: if_splits)
next
  case (Send bs k)
  then show ?case by (fastforce split: prod.splits)
qed auto

section \<open>Two systems of steps that commute\<close>

text \<open>
  If two deterministic parties never disable or change each other's step, the order in which
  a scheduler runs them does not matter: a system that can come to rest in \<open>n\<close> steps comes to
  rest there after \<open>n\<close> steps in every execution.
\<close>

locale commuting =
  fixes left right :: "'s \<Rightarrow> 's option"
  assumes commute: "left s = Some a \<Longrightarrow> right s = Some b \<Longrightarrow> \<exists>c. right a = Some c \<and> left b = Some c"
begin

definition step :: "'s \<Rightarrow> 's \<Rightarrow> bool" where
  "step s t \<longleftrightarrow> left s = Some t \<or> right s = Some t"

definition at_rest :: "'s \<Rightarrow> bool" where
  "at_rest s \<longleftrightarrow> left s = None \<and> right s = None"

lemma step_confluent:
  assumes "step s a" and "step s b" and "a \<noteq> b"
  shows "\<exists>c. step a c \<and> step b c"
  using assms commute unfolding step_def by (metis option.inject)

lemma rest_one:
  "(step ^^ n) s f \<Longrightarrow> at_rest f \<Longrightarrow> step s t \<Longrightarrow> \<exists>m. n = Suc m \<and> (step ^^ m) t f"
proof (induction n arbitrary: s t)
  case 0
  then show ?case by (auto simp: at_rest_def step_def)
next
  case (Suc n)
  then obtain u where u: "step s u" "(step ^^ n) u f"
    by (metis relpowp_Suc_E2)
  show ?case
  proof (cases "t = u")
    case False
    then obtain c where c: "step u c" "step t c"
      using step_confluent [OF u(1) Suc.prems(3)] by blast
    with Suc.IH [OF u(2) Suc.prems(2)] obtain m where "n = Suc m" "(step ^^ m) c f" by blast
    with c(2) show ?thesis by (metis relpowp_Suc_I2)
  qed (use u in simp)
qed

lemma rest_unique:
  assumes "(step ^^ n) s f" and "at_rest f" and "(step ^^ m) s t"
  shows "m \<le> n \<and> (step ^^ (n - m)) t f"
  using assms(3)
proof (induction m arbitrary: t)
  case 0
  then show ?case using assms(1) by simp
next
  case (Suc m)
  then obtain u where u: "(step ^^ m) s u" "step u t"
    by auto
  with Suc.IH have "m \<le> n" "(step ^^ (n - m)) u f" by auto
  with rest_one [OF _ assms(2) u(2)] obtain k where "n - m = Suc k" "(step ^^ k) t f" by blast
  then show ?case by (metis Suc_diff_Suc Suc_leI diff_Suc_Suc diff_is_0_eq' nat.inject not_less zero_less_Suc zero_less_diff)
qed

lemma every_run_rests:
  assumes "step\<^sup>*\<^sup>* s f" and "at_rest f" and "step\<^sup>*\<^sup>* s t"
  shows "step\<^sup>*\<^sup>* t f"
  using assms rest_unique by (metis rtranclp_imp_relpowp relpowp_imp_rtranclp)

lemma no_longer_run:
  assumes "step\<^sup>*\<^sup>* s f" and "at_rest f"
  shows "\<exists>n. \<forall>m t. (step ^^ m) s t \<longrightarrow> m \<le> n"
  using assms rest_unique by (metis rtranclp_imp_relpowp)

end


section \<open>Two tasks at the ends of a connection\<close>

record ('a, 'b) link =
  l_task :: "'a proc"
  l_pool :: ConnectionPool
  l_inbox :: bytes
  r_task :: "'b proc"
  r_pool :: ConnectionPool
  r_inbox :: bytes

definition left_step :: "('a, 'b) link \<Rightarrow> ('a, 'b) link option" where
  "left_step s =
     (case pstep (l_task s) (l_pool s) (l_inbox s) of
        None \<Rightarrow> None
      | Some (p, pool, rest, out) \<Rightarrow>
          Some (s\<lparr>l_task := p, l_pool := pool, l_inbox := rest, r_inbox := r_inbox s @ out\<rparr>))"

definition right_step :: "('a, 'b) link \<Rightarrow> ('a, 'b) link option" where
  "right_step s =
     (case pstep (r_task s) (r_pool s) (r_inbox s) of
        None \<Rightarrow> None
      | Some (p, pool, rest, out) \<Rightarrow>
          Some (s\<lparr>r_task := p, r_pool := pool, r_inbox := rest, l_inbox := l_inbox s @ out\<rparr>))"

inductive link_step :: "('a, 'b) link \<Rightarrow> ('a, 'b) link \<Rightarrow> bool" where
  left: "left_step s = Some t \<Longrightarrow> link_step s t"
| right: "right_step s = Some t \<Longrightarrow> link_step s t"

inductive_simps link_step_iff: "link_step s t"

definition link_at_rest :: "('a, 'b) link \<Rightarrow> bool" where
  "link_at_rest s \<longleftrightarrow> left_step s = None \<and> right_step s = None"

text \<open>Both ends act on disjoint parts of the state, but for the ends of the pipes.\<close>

interpretation link: commuting left_step right_step
proof
  fix s a b :: "('a, 'b) link"
  assume l: "left_step s = Some a" and r: "right_step s = Some b"
  from l obtain p pool rest out where p: "pstep (l_task s) (l_pool s) (l_inbox s) = Some (p, pool, rest, out)"
    and a: "a = s\<lparr>l_task := p, l_pool := pool, l_inbox := rest, r_inbox := r_inbox s @ out\<rparr>"
    by (auto simp: left_step_def split: option.splits)
  from r obtain p' pool' rest' out' where p': "pstep (r_task s) (r_pool s) (r_inbox s) = Some (p', pool', rest', out')"
    and b: "b = s\<lparr>r_task := p', r_pool := pool', r_inbox := rest', l_inbox := l_inbox s @ out'\<rparr>"
    by (auto simp: right_step_def split: option.splits)
  from pstep_more [OF p, of out'] pstep_more [OF p', of out]
  show "\<exists>c. right_step a = Some c \<and> left_step b = Some c"
    by (simp add: a b left_step_def right_step_def)
qed

lemma link_step_eq: "link.step = (link_step :: ('a, 'b) link \<Rightarrow> _)"
  by (intro ext) (simp add: link.step_def link_step_iff)

lemma link_at_rest_eq: "link.at_rest s \<longleftrightarrow> link_at_rest s"
  by (simp add: link.at_rest_def link_at_rest_def)

lemma left_steps: "left_step s = Some t \<Longrightarrow> link_step\<^sup>*\<^sup>* t u \<Longrightarrow> link_step\<^sup>*\<^sup>* s u"
  by (blast intro: converse_rtranclp_into_rtranclp link_step.left)

text \<open>
  Letting one end run as far as it can with the first bytes of its inbox is an execution.
\<close>

lemma exec_left_late:
  "exec p pool inc = (p', pool', rest, out) \<Longrightarrow>
    link_step\<^sup>*\<^sup>* \<lparr>l_task = p, l_pool = pool, l_inbox = inc @ late, r_task = q, r_pool = qpool, r_inbox = qinc\<rparr>
      \<lparr>l_task = p', l_pool = pool', l_inbox = rest @ late, r_task = q, r_pool = qpool, r_inbox = qinc @ out\<rparr>"
proof (induction p arbitrary: pool inc out qinc)
  case (Recv n k)
  show ?case
  proof (cases "length inc < n")
    case False
    with Recv.prems have k: "exec (k (Inr (take n inc))) pool (drop n inc) = (p', pool', rest, out)"
      by simp
    from False show ?thesis
      by (intro left_steps [OF _ Recv.IH [OF rangeI k]]) (simp add: left_step_def)
  qed (use Recv.prems in simp)
next
  case (Send bs k)
  from Send.prems obtain out' where out: "out = bs @ out'"
    and k: "exec (k (Inr ())) pool inc = (p', pool', rest, out')"
    by (auto split: prod.splits)
  from left_steps [OF _ Send.IH [OF rangeI k, of "qinc @ bs"]] show ?case
    by (simp add: left_step_def out)
next
  case (Access u k)
  then have k: "exec (k pool) (u pool) inc = (p', pool', rest, out)" by simp
  show ?case
    by (intro left_steps [OF _ Access.IH [OF rangeI k]]) (simp add: left_step_def)
qed simp_all

lemmas exec_left = exec_left_late [where late = "[]", unfolded append_Nil2]

definition flip :: "('a, 'b) link \<Rightarrow> ('b, 'a) link" where
  "flip s = \<lparr>l_task = r_task s, l_pool = r_pool s, l_inbox = r_inbox s,
             r_task = l_task s, r_pool = l_pool s, r_inbox = l_inbox s\<rparr>"

lemma left_step_flip: "left_step (flip s) = map_option flip (right_step s)"
  by (simp add: left_step_def right_step_def flip_def split: option.split prod.split)

lemma right_step_flip: "right_step (flip s) = map_option flip (left_step s)"
  by (simp add: left_step_def right_step_def flip_def split: option.split prod.split)

lemma link_step_flip: "link_step s t \<Longrightarrow> link_step (flip s) (flip t)"
  by (auto simp: link_step_iff left_step_flip right_step_flip)

lemma link_steps_flip: "link_step\<^sup>*\<^sup>* s t \<Longrightarrow> link_step\<^sup>*\<^sup>* (flip s) (flip t)"
  by (induction rule: rtranclp_induct) (auto intro: rtranclp.rtrancl_into_rtrancl link_step_flip)

lemma exec_right:
  assumes "exec q qpool qinc = (q', qpool', rest, out)"
  shows "link_step\<^sup>*\<^sup>* \<lparr>l_task = p, l_pool = pool, l_inbox = inc, r_task = q, r_pool = qpool, r_inbox = qinc\<rparr>
      \<lparr>l_task = p, l_pool = pool, l_inbox = inc @ out, r_task = q', r_pool = qpool', r_inbox = rest\<rparr>"
  using link_steps_flip [OF exec_left [OF assms, of p pool inc]] by (simp add: flip_def)

end
