(* ===== verification/Handshake.thy ===== *)
theory Handshake
  imports Process
begin

text \<open>
  The handshake (\<open>src/node/handshake.rs\<close>) as a task: what it sends, what it accepts, which
  error each branch returns, and the connection it registers in the end. The keys, the
  serialisation and the encryption are those of the third-party crates
  (\<^theory_text>\<open>Crypto_Lib\<close>); the random draws are arguments.
\<close>

section \<open>Errors\<close>

datatype HandshakeError =
    UnsupportedVersion
  | UnexpectedPacket
  | InvalidAesKeyLenght
  | InvalidNonce
  | InvalidNonceCopy
  | PacketTooLarge
  | AlreadyConnected
  | SamePeer
  | IdentityMismatch
  | PeerQuitted QuitPacket
  | ProtocolError lib_error
  | RsaError lib_error
  | IoError lib_error
  | StreamReunitionFailure lib_error

fun reason_code :: "HandshakeError \<Rightarrow> string" where
  "reason_code UnsupportedVersion = ''HandshakeError::UnsupportedVersion''"
| "reason_code UnexpectedPacket = ''HandshakeError::UnexpectedPacket''"
| "reason_code InvalidAesKeyLenght = ''HandshakeError::InvalidAesKeyLenght''"
| "reason_code InvalidNonce = ''HandshakeError::InvalidNonce''"
| "reason_code InvalidNonceCopy = ''HandshakeError::InvalidNonceCopy''"
| "reason_code PacketTooLarge = ''HandshakeError::PacketTooLarge''"
| "reason_code AlreadyConnected = ''HandshakeError::AlreadyConnected''"
| "reason_code SamePeer = ''HandshakeError::SamePeer''"
| "reason_code IdentityMismatch = ''HandshakeError::IdentityMismatch''"
| "reason_code (PeerQuitted _) = ''HandshakeError::PeerQuitted''"
| "reason_code (ProtocolError _) = ''HandshakeError::ProtocolError''"
| "reason_code (RsaError _) = ''HandshakeError::RsaError''"
| "reason_code (IoError _) = ''HandshakeError::IoError''"
| "reason_code (StreamReunitionFailure _) = ''HandshakeError::StreamReunitionFailure''"

fun report_fault :: "HandshakeError \<Rightarrow> bool" where
  "report_fault UnexpectedPacket = True"
| "report_fault InvalidNonce = True"
| "report_fault InvalidNonceCopy = True"
| "report_fault (ProtocolError _) = True"
| "report_fault _ = False"

definition handshake_quit :: "HandshakeError \<Rightarrow> QuitPacket" where
  "handshake_quit = to_quit reason_code (\<lambda>_. None) report_fault"

section \<open>Fallible tasks\<close>

text \<open>\<open>and_then m f\<close> is \<open>let x = m?; f(x)\<close>.\<close>

type_synonym 'a hs = "(HandshakeError + 'a) proc"

definition ok :: "'a \<Rightarrow> 'a hs" where
  "ok a = Done (Inr a)"

definition fail :: "HandshakeError \<Rightarrow> 'a hs" where
  "fail e = Done (Inl e)"

definition and_then :: "'a hs \<Rightarrow> ('a \<Rightarrow> 'b hs) \<Rightarrow> 'b hs" where
  "and_then m f = bind_proc m (\<lambda>r. case r of Inl e \<Rightarrow> Done (Inl e) | Inr a \<Rightarrow> f a)"

definition convert :: "('e \<Rightarrow> HandshakeError) \<Rightarrow> 'e + 'a \<Rightarrow> 'a hs" where
  "convert err r = (case r of Inl e \<Rightarrow> fail (err e) | Inr a \<Rightarrow> ok a)"

definition read_exact :: "nat \<Rightarrow> bytes hs" where
  "read_exact n = Recv n (convert IoError)"

definition read_u32 :: "u32 hs" where
  "read_u32 = and_then (read_exact 4) (\<lambda>bs. ok (u32_of_be bs))"

definition write_all :: "bytes \<Rightarrow> unit hs" where
  "write_all bs = Send bs (convert IoError)"

text \<open>Every packet is written as its length and then itself.\<close>

definition send_frame :: "bytes \<Rightarrow> unit hs" where
  "send_frame p = and_then (write_all (u32_to_be (word_of_nat (length p)))) (\<lambda>_. write_all p)"

definition recv_frame :: "bytes hs" where
  "recv_frame =
     and_then read_u32
       (\<lambda>plen. if plen \<ge> MAX_PACKET_SIZE then fail PacketTooLarge else read_exact (unat plen))"

section \<open>The steps of the handshake\<close>

text \<open>
  What a node brings to a handshake. \<open>ne_encryption\<close> is false when the program is built with
  the feature \<open>no-encryption\<close>.
\<close>

record ('pk, 'sk, 'rng) node_env =
  ne_lib :: "('pk, 'sk, 'rng) crypto_lib"
  ne_codec :: "Packet codec"
  ne_encryption :: bool
  ne_private_key :: 'sk
  ne_public_key :: 'pk
  ne_peer_id :: PeerID
  ne_addr :: string

text \<open>The draws of \<open>OsRng\<close> in one handshake.\<close>

record 'rng draw =
  dr_nonce :: bytes
  dr_aes_key_part :: bytes
  dr_oaep :: 'rng

definition version_packet :: Packet where
  "version_packet =
     ProtocolVersion \<lparr>pv_protocol = ''tewta'', pv_supported_versions = [PROTOCOL_VERSION]\<rparr>"

definition rsa_packet :: "('pk, 'sk, 'rng) node_env \<Rightarrow> 'rng draw \<Rightarrow> Packet" where
  "rsa_packet env d =
     InitRsa \<lparr>ir_rsa_public_key_exponent = key_e (ne_lib env) (ne_public_key env),
              ir_rsa_public_key_modulus = key_n (ne_lib env) (ne_public_key env),
              ir_nonce = dr_nonce d\<rparr>"

definition aes_packet :: "'rng draw \<Rightarrow> bytes \<Rightarrow> Packet" where
  "aes_packet d their_nonce =
     InitAes \<lparr>ia_aes_key_part = dr_aes_key_part d, ia_nonce = their_nonce\<rparr>"

definition ehlo_packet :: "('pk, 'sk, 'rng) node_env \<Rightarrow> Packet" where
  "ehlo_packet env = Ehlo \<lparr>eh_addr = ne_addr env\<rparr>"

definition send_plain :: "('pk, 'sk, 'rng) node_env \<Rightarrow> Packet \<Rightarrow> unit hs" where
  "send_plain env p = and_then (convert ProtocolError (raw_bytes (ne_codec env) p)) send_frame"

definition recv_plain :: "('pk, 'sk, 'rng) node_env \<Rightarrow> Packet hs" where
  "recv_plain env =
     and_then recv_frame (\<lambda>p. convert ProtocolError (from_raw_bytes (ne_codec env) p))"

definition check_version :: "Packet \<Rightarrow> unit hs" where
  "check_version p =
     (case p of
        ProtocolVersion p \<Rightarrow>
          if PROTOCOL_VERSION \<in> set (pv_supported_versions p) then ok () else fail UnsupportedVersion
      | Quit p \<Rightarrow> fail (PeerQuitted p)
      | _ \<Rightarrow> fail UnexpectedPacket)"

definition check_rsa :: "('pk, 'sk, 'rng) node_env \<Rightarrow> Packet \<Rightarrow> ('pk \<times> bytes) hs" where
  "check_rsa env p =
     (case p of
        InitRsa p \<Rightarrow>
          if length (ir_nonce p) \<noteq> 16 then fail InvalidNonce
          else and_then
                 (convert RsaError
                    (key_new (ne_lib env) (ir_rsa_public_key_modulus p) (ir_rsa_public_key_exponent p)))
                 (\<lambda>pk. ok (pk, ir_nonce p))
      | Quit p \<Rightarrow> fail (PeerQuitted p)
      | _ \<Rightarrow> fail UnexpectedPacket)"

definition check_identity ::
  "('pk, 'sk, 'rng) node_env \<Rightarrow> PeerID option \<Rightarrow> PeerID \<Rightarrow> unit hs" where
  "check_identity env expected_peer_id their_peer_id =
     (if ne_peer_id env = their_peer_id then fail SamePeer
      else case expected_peer_id of
        Some expected_peer_id \<Rightarrow>
          if expected_peer_id \<noteq> their_peer_id then fail IdentityMismatch else ok ()
      | None \<Rightarrow> ok ())"

definition check_new :: "PeerID \<Rightarrow> unit hs" where
  "check_new their_peer_id =
     Access (\<lambda>pool. pool)
       (\<lambda>pool. if contains pool their_peer_id then fail AlreadyConnected else ok ())"

definition send_aes :: "('pk, 'sk, 'rng) node_env \<Rightarrow> 'rng draw \<Rightarrow> 'pk \<Rightarrow> bytes \<Rightarrow> unit hs" where
  "send_aes env d their_public_key their_nonce =
     and_then (convert ProtocolError (raw_bytes (ne_codec env) (aes_packet d their_nonce)))
       (\<lambda>p. and_then
          (if ne_encryption env
           then convert RsaError (oaep_encrypt (ne_lib env) their_public_key (dr_oaep d) p)
           else ok p)
          send_frame)"

definition recv_aes :: "('pk, 'sk, 'rng) node_env \<Rightarrow> Packet hs" where
  "recv_aes env =
     and_then recv_frame
       (\<lambda>p. and_then
          (if ne_encryption env
           then convert RsaError (oaep_decrypt (ne_lib env) (ne_private_key env) p)
           else ok p)
          (\<lambda>p. convert ProtocolError (from_raw_bytes (ne_codec env) p)))"

definition check_aes :: "bytes \<Rightarrow> Packet \<Rightarrow> bytes hs" where
  "check_aes our_nonce p =
     (case p of
        InitAes p \<Rightarrow>
          if length (ia_aes_key_part p) \<noteq> 16 then fail InvalidAesKeyLenght
          else if ia_nonce p \<noteq> our_nonce then fail InvalidNonceCopy
          else ok (ia_aes_key_part p)
      | Quit p \<Rightarrow> fail (PeerQuitted p)
      | _ \<Rightarrow> fail UnexpectedPacket)"

text \<open>
  The concatenation of both halves of the key, by the order of the identities; \<open>None\<close> is the
  branch \<open>Ordering::Equal\<close>.
\<close>

definition aes_key :: "PeerID \<Rightarrow> PeerID \<Rightarrow> bytes \<Rightarrow> bytes \<Rightarrow> bytes option" where
  "aes_key our_peer_id their_peer_id our_part their_part =
     (if our_peer_id < their_peer_id then Some (our_part @ their_part)
      else if their_peer_id < our_peer_id then Some (their_part @ our_part)
      else None)"

text \<open>\<open>AesKey::<U32>::clone_from_slice\<close> panics unless the slice has 32 bytes.\<close>

definition make_aes_key :: "PeerID \<Rightarrow> PeerID \<Rightarrow> bytes \<Rightarrow> bytes \<Rightarrow> unit hs" where
  "make_aes_key our_peer_id their_peer_id our_part their_part =
     (case aes_key our_peer_id their_peer_id our_part their_part of
        None \<Rightarrow> fail SamePeer
      | Some key \<Rightarrow> if length key = 32 then ok () else Crash)"

definition check_ehlo :: "Packet \<Rightarrow> string hs" where
  "check_ehlo p =
     (case p of
        Ehlo p \<Rightarrow> ok (eh_addr p)
      | Quit p \<Rightarrow> fail (PeerQuitted p)
      | _ \<Rightarrow> fail UnexpectedPacket)"

text \<open>The handshake from its last point of waiting to its first.\<close>

definition await_ehlo :: "('pk, 'sk, 'rng) node_env \<Rightarrow> PeerID \<Rightarrow> (PeerID \<times> string) hs" where
  "await_ehlo env their_peer_id =
     and_then (recv_plain env) (\<lambda>p.
     and_then (check_ehlo p) (\<lambda>addr. ok (their_peer_id, addr)))"

definition await_aes :: "('pk, 'sk, 'rng) node_env \<Rightarrow> 'rng draw \<Rightarrow> PeerID \<Rightarrow> (PeerID \<times> string) hs" where
  "await_aes env d their_peer_id =
     and_then (recv_aes env) (\<lambda>p.
     and_then (check_aes (dr_nonce d) p) (\<lambda>their_part.
     and_then (make_aes_key (ne_peer_id env) their_peer_id (dr_aes_key_part d) their_part) (\<lambda>_.
     and_then (send_plain env (ehlo_packet env)) (\<lambda>_.
     await_ehlo env their_peer_id))))"

definition await_rsa ::
  "('pk, 'sk, 'rng) node_env \<Rightarrow> 'rng draw \<Rightarrow> PeerID option \<Rightarrow> (PeerID \<times> string) hs" where
  "await_rsa env d expected_peer_id =
     and_then (recv_plain env) (\<lambda>p.
     and_then (check_rsa env p) (\<lambda>(their_public_key, their_nonce).
     let their_peer_id = peer_id_of_key (ne_lib env) their_public_key in
     and_then (check_identity env expected_peer_id their_peer_id) (\<lambda>_.
     and_then (check_new their_peer_id) (\<lambda>_.
     and_then (send_aes env d their_public_key their_nonce) (\<lambda>_.
     await_aes env d their_peer_id)))))"

definition await_version ::
  "('pk, 'sk, 'rng) node_env \<Rightarrow> 'rng draw \<Rightarrow> PeerID option \<Rightarrow> (PeerID \<times> string) hs" where
  "await_version env d expected_peer_id =
     and_then (recv_plain env) (\<lambda>p.
     and_then (check_version p) (\<lambda>_.
     and_then (send_plain env (rsa_packet env d)) (\<lambda>_.
     await_rsa env d expected_peer_id)))"

definition handshake_raw ::
  "('pk, 'sk, 'rng) node_env \<Rightarrow> 'rng draw \<Rightarrow> PeerID option \<Rightarrow> (PeerID \<times> string) hs" where
  "handshake_raw env d expected_peer_id =
     and_then (send_plain env version_packet) (\<lambda>_. await_version env d expected_peer_id)"

section \<open>Registering the connection\<close>

text \<open>The effects of \<open>ConnectionPool::insert\<close> that the peer sees.\<close>

fun emit :: "effect list \<Rightarrow> 'a proc \<Rightarrow> 'a proc" where
  "emit [] p = p"
| "emit (Wrote w bs # effs) p = Send bs (\<lambda>_. emit effs p)"
| "emit (_ # effs) p = emit effs p"

definition insert_connection ::
  "('pk, 'sk, 'rng) node_env \<Rightarrow> nat \<Rightarrow> nat \<Rightarrow> PeerID \<Rightarrow> string \<Rightarrow> (unit + unit) proc" where
  "insert_connection env w task peer_id addr =
     Access
       (\<lambda>pool. case insert_peer (ne_codec env) pool peer_id w task addr of
                 Panics \<Rightarrow> pool | Returns (pool', effs, r) \<Rightarrow> pool')
       (\<lambda>pool. case insert_peer (ne_codec env) pool peer_id w task addr of
                 Panics \<Rightarrow> Crash | Returns (pool', effs, r) \<Rightarrow> emit effs (Done r))"

text \<open>
  \<open>Node::handshake\<close>, where \<open>finish\<close> is what follows \<open>handshake_raw\<close>: a success is
  registered, an error is answered by a quit packet.
\<close>

definition finish ::
  "('pk, 'sk, 'rng) node_env \<Rightarrow> nat \<Rightarrow> nat \<Rightarrow> HandshakeError + PeerID \<times> string \<Rightarrow> PeerID hs" where
  "finish env w task r =
     (case r of
        Inr (peer_id, addr) \<Rightarrow>
          bind_proc (insert_connection env w task peer_id addr)
            (\<lambda>r. case r of Inl _ \<Rightarrow> fail AlreadyConnected | Inr _ \<Rightarrow> ok peer_id)
      | Inl e \<Rightarrow>
          and_then (send_plain env (Quit (handshake_quit e))) (\<lambda>_. fail e))"

definition handshake ::
  "('pk, 'sk, 'rng) node_env \<Rightarrow> 'rng draw \<Rightarrow> PeerID option \<Rightarrow> nat \<Rightarrow> nat \<Rightarrow> PeerID hs" where
  "handshake env d expected_peer_id w task =
     bind_proc (handshake_raw env d expected_peer_id) (finish env w task)"


section \<open>How the pieces run\<close>

lemma and_then_ok [simp]: "and_then (ok a) f = f a"
  and and_then_fail [simp]: "and_then (fail e) f = fail e"
  and and_then_Crash [simp]: "and_then Crash f = Crash"
  and and_then_Access [simp]: "and_then (Access u k) f = Access u (\<lambda>x. and_then (k x) f)"
  and and_then_Send [simp]: "and_then (Send bs l) f = Send bs (\<lambda>x. and_then (l x) f)"
  and and_then_Recv [simp]: "and_then (Recv n m) f = Recv n (\<lambda>x. and_then (m x) f)"
  by (simp_all add: and_then_def ok_def fail_def)

lemma and_then_assoc: "and_then (and_then m f) g = and_then m (\<lambda>a. and_then (f a) g)"
proof -
  have "(\<lambda>r. bind_proc (case r of Inl e \<Rightarrow> Done (Inl e) | Inr a \<Rightarrow> f a)
          (\<lambda>r. case r of Inl e \<Rightarrow> Done (Inl e) | Inr a \<Rightarrow> g a)) =
        (\<lambda>r. case r of Inl e \<Rightarrow> Done (Inl e)
          | Inr a \<Rightarrow> bind_proc (f a) (\<lambda>r. case r of Inl e \<Rightarrow> Done (Inl e) | Inr a \<Rightarrow> g a))"
    by (auto split: sum.split)
  then show ?thesis by (simp add: and_then_def bind_proc_assoc)
qed

lemma convert_simps [simp]: "convert err (Inr a) = ok a" "convert err (Inl e) = fail (err e)"
  by (simp_all add: convert_def)

lemma exec_ok_fail [simp]:
  "exec (ok a) pool inc = (Done (Inr a), pool, inc, [])"
  "exec (fail e) pool inc = (Done (Inl e), pool, inc, [])"
  by (simp_all add: ok_def fail_def)

text \<open>Putting bytes in front of those a run writes.\<close>

definition after :: "bytes \<Rightarrow> 'a proc \<times> ConnectionPool \<times> bytes \<times> bytes \<Rightarrow> 'a proc \<times> ConnectionPool \<times> bytes \<times> bytes" where
  "after bs r = (case r of (p, pool, rest, out) \<Rightarrow> (p, pool, rest, bs @ out))"

lemma after_simps [simp]:
  "after bs (p, pool, rest, out) = (p, pool, rest, bs @ out)"
  by (simp add: after_def)

lemma after_eq_iff:
  "after bs r = (p, pool, rest, out) \<longleftrightarrow> (\<exists>out'. r = (p, pool, rest, out') \<and> out = bs @ out')"
  by (cases r) auto

lemma exec_send_frame:
  "exec (and_then (send_frame p) f) pool inc = after (write_frame p) (exec (f ()) pool inc)"
  by (simp add: send_frame_def write_all_def write_frame_def after_def split: prod.split)

lemma exec_recv_frame:
  assumes "length p < 1000000"
  shows "exec (and_then recv_frame f) pool (write_frame p @ rest) = exec (f p) pool rest"
proof -
  have w: "unat (word_of_nat (length p) :: u32) = length p"
    using assms by (simp add: unat_of_nat)
  have "\<not> MAX_PACKET_SIZE \<le> (word_of_nat (length p) :: u32)"
    using assms by (simp add: word_le_nat_alt w MAX_PACKET_SIZE_def)
  then show ?thesis
    by (simp add: recv_frame_def read_u32_def read_exact_def write_frame_def u32_of_be_to_be w)
qed

lemma exec_recv_nothing:
  "exec (and_then recv_frame f) pool [] = (and_then recv_frame f, pool, [], [])"
  by (simp add: recv_frame_def read_u32_def read_exact_def)

lemma u32_to_be_of_be: "length bs = 4 \<Longrightarrow> u32_to_be (u32_of_be bs) = bs"
proof -
  assume "length bs = 4"
  then obtain a b c d where bs: "bs = [a, b, c, d]"
    by (auto simp: numeral_eq_Suc length_Suc_conv)
  have high: "\<not> bit x (8 + n)" "\<not> bit x (16 + n)" "\<not> bit x (24 + n)" for x :: u8 and n
    using bit_imp_le_length [of x "8 + n"] bit_imp_le_length [of x "16 + n"]
      bit_imp_le_length [of x "24 + n"] by auto
  have "ucast (drop_bit 24 w) = a" "ucast (drop_bit 16 w) = b" "ucast (drop_bit 8 w) = c" "ucast w = d"
    if "w = u32_of_be bs" for w
    unfolding that bs
    by (auto simp: u32_of_be_def bit_simps high intro!: bit_word_eqI)
  then show ?thesis by (simp add: u32_to_be_def bs)
qed

lemma read_frame_Frame:
  assumes "read_frame s = Frame p rest"
  shows "s = write_frame p @ rest \<and> length p < 1000000"
proof -
  let ?w = "u32_of_be (take 4 s)"
  from assms have s: "4 \<le> length s" "?w < MAX_PACKET_SIZE" "unat ?w \<le> length s - 4"
    "p = take (unat ?w) (drop 4 s)" "rest = drop (unat ?w) (drop 4 s)"
    by (auto simp: read_frame_def Let_def not_le split: if_splits)
  then have len: "length p = unat ?w" by simp
  then have "word_of_nat (length p) = ?w" by simp
  moreover have "p @ rest = drop 4 s" by (simp only: s append_take_drop_id)
  ultimately have "write_frame p @ rest = take 4 s @ drop 4 s"
    using s(1) by (simp add: write_frame_def u32_to_be_of_be)
  moreover have "unat ?w < 1000000"
    using s(2) by (simp add: word_less_nat_alt MAX_PACKET_SIZE_def)
  ultimately show ?thesis by (simp add: len)
qed

text \<open>A run that gets past the reception of a frame has received one.\<close>

lemma exec_recv_Done:
  assumes "exec (and_then recv_frame f) pool inc = (Done r, pool', rest, out)"
  shows "(\<exists>p inc'. inc = write_frame p @ inc' \<and> length p < 1000000
            \<and> exec (f p) pool inc' = (Done r, pool', rest, out))
    \<or> r = Inl PacketTooLarge \<and> pool' = pool \<and> out = [] \<and> read_frame inc = TooLarge"
proof (cases "read_frame inc")
  case (Frame p inc')
  from read_frame_Frame [OF this] assms show ?thesis
    by (metis exec_recv_frame)
next
  case TooLarge
  with assms show ?thesis
    by (auto simp: read_frame_def recv_frame_def read_u32_def read_exact_def Let_def split: if_splits)
next
  case Incomplete
  with assms show ?thesis
    by (auto simp: read_frame_def recv_frame_def read_u32_def read_exact_def Let_def split: if_splits)
qed


section \<open>No panic\<close>

text \<open>
  A task that no answer of its environment (bytes, I/O errors, contents of the pool) brings
  to a panic.
\<close>

primrec crash_free :: "'a proc \<Rightarrow> bool" where
  "crash_free (Done a) \<longleftrightarrow> True"
| "crash_free Crash \<longleftrightarrow> False"
| "crash_free (Recv n k) \<longleftrightarrow> (\<forall>x. crash_free (k x))"
| "crash_free (Send bs k) \<longleftrightarrow> (\<forall>x. crash_free (k x))"
| "crash_free (Access upd k) \<longleftrightarrow> (\<forall>x. crash_free (k x))"

lemma crash_free_bind:
  "crash_free m \<Longrightarrow> (\<And>a. crash_free (f a)) \<Longrightarrow> crash_free (bind_proc m f)"
  by (induction m) auto

lemma crash_free_and_then:
  "crash_free m \<Longrightarrow> (\<And>a. crash_free (f a)) \<Longrightarrow> crash_free (and_then m f)"
  by (auto simp: and_then_def intro!: crash_free_bind split: sum.split)

lemma crash_free_exec:
  "crash_free m \<Longrightarrow> exec m pool inc = (m', pool', rest, out) \<Longrightarrow> crash_free m'"
  by (induction m arbitrary: pool inc out) (fastforce split: if_splits prod.splits)+

lemma crash_free_pieces [simp]:
  "crash_free (ok a)" "crash_free (fail e)" "crash_free (convert err r)"
  by (auto simp: ok_def fail_def convert_def split: sum.split)

lemma crash_free_wire [simp]:
  "crash_free (read_exact n)" "crash_free read_u32" "crash_free (send_frame p)" "crash_free recv_frame"
proof -
  show e: "crash_free (read_exact n)" for n by (simp add: read_exact_def)
  show u: "crash_free read_u32" by (simp add: read_u32_def crash_free_and_then e)
  show "crash_free (send_frame p)" by (simp add: send_frame_def write_all_def crash_free_and_then)
  show "crash_free recv_frame" by (simp add: recv_frame_def crash_free_and_then e u)
qed

lemma crash_free_checks [simp]:
  "crash_free (check_version p)" "crash_free (check_rsa env p)" "crash_free (check_identity env x i)"
  "crash_free (check_new i)" "crash_free (check_ehlo p)"
  by (auto simp: check_version_def check_rsa_def check_identity_def check_new_def check_ehlo_def
      crash_free_and_then split: Packet.split option.split)

lemma crash_free_packets [simp]:
  "crash_free (send_plain env p)" "crash_free (recv_plain env)" "crash_free (send_aes env d pk n)"
  "crash_free (recv_aes env)"
  by (simp_all add: send_plain_def recv_plain_def send_aes_def recv_aes_def crash_free_and_then)

lemma check_aes_16:
  "(\<And>part. length part = 16 \<Longrightarrow> crash_free (f part)) \<Longrightarrow> crash_free (and_then (check_aes n p) f)"
  by (cases p) (auto simp: check_aes_def)

lemma make_aes_key_16:
  "length a = 16 \<Longrightarrow> length b = 16 \<Longrightarrow> crash_free (make_aes_key i j a b)"
  by (auto simp: make_aes_key_def aes_key_def)

lemma crash_free_handshake_raw:
  assumes "length (dr_aes_key_part d) = 16"
  shows "crash_free (handshake_raw env d x)"
proof -
  have "crash_free (await_ehlo env i)" for i
    by (simp add: await_ehlo_def crash_free_and_then)
  then have "crash_free (await_aes env d i)" for i
    unfolding await_aes_def using assms
    by (intro crash_free_and_then [OF crash_free_packets(4)] check_aes_16
        crash_free_and_then [OF make_aes_key_16] crash_free_and_then [OF crash_free_packets(1)])
  then have "crash_free (await_rsa env d x)"
    by (simp add: await_rsa_def Let_def crash_free_and_then case_prod_unfold)
  then show ?thesis by (simp add: handshake_raw_def await_version_def crash_free_and_then)
qed

lemma crash_free_emit [simp]: "crash_free (emit effs p) \<longleftrightarrow> crash_free p"
  by (induction effs p rule: emit.induct) simp_all

lemma crash_free_handshake:
  assumes "length (dr_aes_key_part d) = 16" and "raw_bytes (ne_codec env) already_connected_packet = Inr bs"
  shows "crash_free (handshake env d x w task)"
proof -
  have "crash_free (insert_connection env w task i a)" for i a
    using assms(2) by (auto simp: insert_connection_def insert_peer_def Let_def split: outcome.split if_splits)
  then have "crash_free (finish env w task r)" for r
    by (auto simp: finish_def intro!: crash_free_bind crash_free_and_then split: sum.split)
  then show ?thesis
    unfolding handshake_def by (intro crash_free_bind crash_free_handshake_raw assms(1))
qed


section \<open>What an accepted peer has shown\<close>

text \<open>
  Reading a successful run backwards, stage by stage. An unfinished run or one that ended in
  an error is not \<open>Done (Inr x)\<close>.
\<close>

lemma recv_plain_Inr:
  assumes "exec (and_then (recv_plain env) f) pool inc = (Done (Inr x), pool', rest, out)"
  obtains b inc' p where "inc = write_frame b @ inc'" and "length b < 1000000"
    and "from_raw_bytes (ne_codec env) b = Inr p"
    and "exec (f p) pool inc' = (Done (Inr x), pool', rest, out)"
proof -
  from exec_recv_Done [OF assms [unfolded recv_plain_def and_then_assoc]] obtain b inc' where
    b: "inc = write_frame b @ inc'" "length b < 1000000" and
    run: "exec (and_then (convert ProtocolError (from_raw_bytes (ne_codec env) b)) f) pool inc'
      = (Done (Inr x), pool', rest, out)"
    by blast
  from run b that show ?thesis
    by (cases "from_raw_bytes (ne_codec env) b") auto
qed

lemma send_plain_Inr:
  assumes "exec (and_then (send_plain env p) f) pool inc = (Done (Inr x), pool', rest, out)"
  obtains b out' where "raw_bytes (ne_codec env) p = Inr b" and "out = write_frame b @ out'"
    and "exec (f ()) pool inc = (Done (Inr x), pool', rest, out')"
  using assms that
  by (cases "raw_bytes (ne_codec env) p")
    (auto simp: send_plain_def and_then_assoc exec_send_frame after_eq_iff)

lemma check_version_Inr:
  assumes "exec (and_then (check_version p) f) pool inc = (Done (Inr x), pool', rest, out)"
  obtains v where "p = ProtocolVersion v" and "PROTOCOL_VERSION \<in> set (pv_supported_versions v)"
    and "exec (f ()) pool inc = (Done (Inr x), pool', rest, out)"
  using assms that by (cases p) (auto simp: check_version_def split: if_splits)

lemma check_rsa_Inr:
  assumes "exec (and_then (check_rsa env p) f) pool inc = (Done (Inr x), pool', rest, out)"
  obtains i pk where "p = InitRsa i" and "length (ir_nonce i) = 16"
    and "key_new (ne_lib env) (ir_rsa_public_key_modulus i) (ir_rsa_public_key_exponent i) = Inr pk"
    and "exec (f (pk, ir_nonce i)) pool inc = (Done (Inr x), pool', rest, out)"
proof (cases p)
  case (InitRsa i)
  with assms that show ?thesis
    by (cases "key_new (ne_lib env) (ir_rsa_public_key_modulus i) (ir_rsa_public_key_exponent i)")
      (auto simp: check_rsa_def and_then_assoc split: if_splits)
qed (use assms in \<open>auto simp: check_rsa_def\<close>)

lemma check_identity_Inr:
  assumes "exec (and_then (check_identity env ex i) f) pool inc = (Done (Inr x), pool', rest, out)"
  shows "ne_peer_id env \<noteq> i \<and> (ex = None \<or> ex = Some i)
    \<and> exec (f ()) pool inc = (Done (Inr x), pool', rest, out)"
  using assms by (auto simp: check_identity_def split: if_splits option.splits)

lemma check_new_Inr:
  assumes "exec (and_then (check_new i) f) pool inc = (Done (Inr x), pool', rest, out)"
  shows "\<not> contains pool i \<and> exec (f ()) pool inc = (Done (Inr x), pool', rest, out)"
  using assms by (auto simp: check_new_def split: if_splits)

lemma send_aes_Inr:
  assumes "exec (and_then (send_aes env d pk n) f) pool inc = (Done (Inr x), pool', rest, out)"
  obtains b out' where "out = write_frame b @ out'"
    and "exec (f ()) pool inc = (Done (Inr x), pool', rest, out')"
proof (cases "raw_bytes (ne_codec env) (aes_packet d n)")
  case (Inr b)
  show ?thesis
  proof (cases "ne_encryption env")
    case True
    with Inr assms that show ?thesis
      by (cases "oaep_encrypt (ne_lib env) pk (dr_oaep d) b")
        (auto simp: send_aes_def and_then_assoc exec_send_frame after_eq_iff)
  next
    case False
    with Inr assms that show ?thesis
      by (auto simp: send_aes_def and_then_assoc exec_send_frame after_eq_iff)
  qed
qed (use assms in \<open>auto simp: send_aes_def and_then_assoc\<close>)

definition open_aes :: "('pk, 'sk, 'rng) node_env \<Rightarrow> bytes \<Rightarrow> lib_error + bytes" where
  "open_aes env b =
     (if ne_encryption env then oaep_decrypt (ne_lib env) (ne_private_key env) b else Inr b)"

lemma recv_aes_Inr:
  assumes "exec (and_then (recv_aes env) f) pool inc = (Done (Inr x), pool', rest, out)"
  obtains b inc' q p where "inc = write_frame b @ inc'" and "length b < 1000000"
    and "open_aes env b = Inr q" and "from_raw_bytes (ne_codec env) q = Inr p"
    and "exec (f p) pool inc' = (Done (Inr x), pool', rest, out)"
proof -
  from exec_recv_Done [OF assms [unfolded recv_aes_def and_then_assoc]] obtain b inc' where
    b: "inc = write_frame b @ inc'" "length b < 1000000" and
    run: "exec (and_then (convert RsaError (open_aes env b))
        (\<lambda>q. and_then (convert ProtocolError (from_raw_bytes (ne_codec env) q)) f)) pool inc'
      = (Done (Inr x), pool', rest, out)"
    by (auto simp: open_aes_def split: if_splits)
  then obtain q where q: "open_aes env b = Inr q"
    by (cases "open_aes env b") auto
  with run b that show ?thesis
    by (cases "from_raw_bytes (ne_codec env) q") auto
qed

lemma check_aes_Inr:
  assumes "exec (and_then (check_aes n p) f) pool inc = (Done (Inr x), pool', rest, out)"
  obtains a where "p = InitAes a" and "length (ia_aes_key_part a) = 16" and "ia_nonce a = n"
    and "exec (f (ia_aes_key_part a)) pool inc = (Done (Inr x), pool', rest, out)"
  using assms that by (cases p) (auto simp: check_aes_def split: if_splits)

lemma make_aes_key_Inr:
  assumes "exec (and_then (make_aes_key i j a b) f) pool inc = (Done (Inr x), pool', rest, out)"
  shows "exec (f ()) pool inc = (Done (Inr x), pool', rest, out)"
  using assms by (auto simp: make_aes_key_def split: option.splits if_splits)

lemma check_ehlo_Inr:
  assumes "exec (and_then (check_ehlo p) f) pool inc = (Done (Inr x), pool', rest, out)"
  obtains e where "p = Ehlo e" and "exec (f (eh_addr e)) pool inc = (Done (Inr x), pool', rest, out)"
  using assms that by (cases p) (auto simp: check_ehlo_def)

text \<open>
  The transcript of an accepted peer: four frames, the first of which offers our version, the
  second a public key with the peer's identity, the third our nonce and half a key (under our
  public key when encryption is on), the fourth the peer's address.
\<close>

definition accepted ::
  "('pk, 'sk, 'rng) node_env \<Rightarrow> 'rng draw \<Rightarrow> bytes \<Rightarrow> PeerID \<Rightarrow> string \<Rightarrow> bytes \<Rightarrow> bool" where
  "accepted env d inc peer_id addr rest \<longleftrightarrow>
     (\<exists>b1 b2 b3 b4 v i pk q a.
        inc = write_frame b1 @ write_frame b2 @ write_frame b3 @ write_frame b4 @ rest
      \<and> from_raw_bytes (ne_codec env) b1 = Inr (ProtocolVersion v)
      \<and> PROTOCOL_VERSION \<in> set (pv_supported_versions v)
      \<and> from_raw_bytes (ne_codec env) b2 = Inr (InitRsa i)
      \<and> length (ir_nonce i) = 16
      \<and> key_new (ne_lib env) (ir_rsa_public_key_modulus i) (ir_rsa_public_key_exponent i) = Inr pk
      \<and> peer_id = peer_id_of_key (ne_lib env) pk
      \<and> open_aes env b3 = Inr q
      \<and> from_raw_bytes (ne_codec env) q = Inr (InitAes a)
      \<and> length (ia_aes_key_part a) = 16
      \<and> ia_nonce a = dr_nonce d
      \<and> from_raw_bytes (ne_codec env) b4 = Inr (Ehlo \<lparr>eh_addr = addr\<rparr>))"

lemma handshake_raw_Inr:
  assumes "exec (handshake_raw env d ex) pool inc = (Done (Inr (peer_id, addr)), pool', rest, out)"
  shows "accepted env d inc peer_id addr rest \<and> peer_id \<noteq> ne_peer_id env
    \<and> (ex = None \<or> ex = Some peer_id) \<and> \<not> contains pool peer_id \<and> pool' = pool"
proof -
  from send_plain_Inr [OF assms [unfolded handshake_raw_def]] obtain o1
    where "exec (await_version env d ex) pool inc = (Done (Inr (peer_id, addr)), pool', rest, o1)" .
  then obtain b1 i1 p1 where 1: "inc = write_frame b1 @ i1" "from_raw_bytes (ne_codec env) b1 = Inr p1"
    "exec (and_then (check_version p1) (\<lambda>_. and_then (send_plain env (rsa_packet env d)) (\<lambda>_.
      await_rsa env d ex))) pool i1 = (Done (Inr (peer_id, addr)), pool', rest, o1)"
    unfolding await_version_def by (elim recv_plain_Inr)
  from 1(3) obtain v o2 where v: "p1 = ProtocolVersion v" "PROTOCOL_VERSION \<in> set (pv_supported_versions v)"
    "exec (await_rsa env d ex) pool i1 = (Done (Inr (peer_id, addr)), pool', rest, o2)"
    by (elim check_version_Inr send_plain_Inr)
  from v(3) obtain b2 i2 p2 where 2: "i1 = write_frame b2 @ i2" "from_raw_bytes (ne_codec env) b2 = Inr p2"
    and run2: "exec (and_then (check_rsa env p2) (\<lambda>(pk, n). let their = peer_id_of_key (ne_lib env) pk in
      and_then (check_identity env ex their) (\<lambda>_. and_then (check_new their) (\<lambda>_.
      and_then (send_aes env d pk n) (\<lambda>_. await_aes env d their))))) pool i2
      = (Done (Inr (peer_id, addr)), pool', rest, o2)"
    unfolding await_rsa_def by (elim recv_plain_Inr)
  from run2 obtain i pk where i: "p2 = InitRsa i" "length (ir_nonce i) = 16"
    "key_new (ne_lib env) (ir_rsa_public_key_modulus i) (ir_rsa_public_key_exponent i) = Inr pk"
    and run3: "exec (and_then (check_identity env ex (peer_id_of_key (ne_lib env) pk)) (\<lambda>_.
      and_then (check_new (peer_id_of_key (ne_lib env) pk)) (\<lambda>_.
      and_then (send_aes env d pk (ir_nonce i)) (\<lambda>_. await_aes env d (peer_id_of_key (ne_lib env) pk))))) pool i2
      = (Done (Inr (peer_id, addr)), pool', rest, o2)"
    by (elim check_rsa_Inr) (simp add: Let_def)
  let ?their = "peer_id_of_key (ne_lib env) pk"
  from check_identity_Inr [OF run3] have ident: "?their \<noteq> ne_peer_id env" "ex = None \<or> ex = Some ?their"
    and run4: "exec (and_then (check_new ?their) (\<lambda>_. and_then (send_aes env d pk (ir_nonce i)) (\<lambda>_.
      await_aes env d ?their))) pool i2 = (Done (Inr (peer_id, addr)), pool', rest, o2)"
    by auto
  from check_new_Inr [OF run4] obtain o3 where new: "\<not> contains pool ?their"
    and run5: "exec (await_aes env d ?their) pool i2 = (Done (Inr (peer_id, addr)), pool', rest, o3)"
    by (elim conjE send_aes_Inr)
  from run5 obtain b3 i3 q p3 where 3: "i2 = write_frame b3 @ i3" "open_aes env b3 = Inr q"
    "from_raw_bytes (ne_codec env) q = Inr p3"
    and run6: "exec (and_then (check_aes (dr_nonce d) p3) (\<lambda>part.
      and_then (make_aes_key (ne_peer_id env) ?their (dr_aes_key_part d) part) (\<lambda>_.
      and_then (send_plain env (ehlo_packet env)) (\<lambda>_. await_ehlo env ?their)))) pool i3
      = (Done (Inr (peer_id, addr)), pool', rest, o3)"
    unfolding await_aes_def by (elim recv_aes_Inr)
  from run6 obtain a o4 where a: "p3 = InitAes a" "length (ia_aes_key_part a) = 16" "ia_nonce a = dr_nonce d"
    and run7: "exec (await_ehlo env ?their) pool i3 = (Done (Inr (peer_id, addr)), pool', rest, o4)"
    by (elim check_aes_Inr) (auto dest!: make_aes_key_Inr elim!: send_plain_Inr)
  from run7 obtain b4 i4 p4 where 4: "i3 = write_frame b4 @ i4" "from_raw_bytes (ne_codec env) b4 = Inr p4"
    "exec (and_then (check_ehlo p4) (\<lambda>addr. ok (?their, addr))) pool i4
      = (Done (Inr (peer_id, addr)), pool', rest, o4)"
    unfolding await_ehlo_def by (elim recv_plain_Inr)
  from 4(3) obtain e where e: "p4 = Ehlo e" "peer_id = ?their" "addr = eh_addr e" "pool' = pool" "rest = i4"
    by (elim check_ehlo_Inr) simp
  then have "p4 = Ehlo \<lparr>eh_addr = addr\<rparr>" by simp
  with 1 v 2 i 3 a 4 e have "accepted env d inc peer_id addr rest"
    unfolding accepted_def by fastforce
  with ident new e show ?thesis by simp
qed


section \<open>The outcome of a handshake\<close>

lemma exec_bind_Done_iff:
  "exec (bind_proc m f) pool inc = (Done x, pool', rest, out) \<longleftrightarrow>
    (\<exists>a pool1 rest1 out1 out2. exec m pool inc = (Done a, pool1, rest1, out1)
       \<and> exec (f a) pool1 rest1 = (Done x, pool', rest, out2) \<and> out = out1 @ out2)"
proof -
  obtain m' pool1 rest1 out1 where m: "exec m pool inc = (m', pool1, rest1, out1)"
    by (cases "exec m pool inc") auto
  from pstep_exec [OF m] m show ?thesis
    by (cases m') (auto simp: exec_bind [of m] split: if_splits prod.splits)
qed

lemma exec_bind_stuck:
  assumes "exec m pool inc = (m', pool', rest, out)" and "\<And>a. m' \<noteq> Done a"
  shows "exec (bind_proc m f) pool inc = (bind_proc m' f, pool', rest, out)"
  using pstep_exec [OF assms(1)] assms
  by (cases m') (auto simp: exec_bind [of m] split: if_splits)

definition new_connection :: "nat \<Rightarrow> nat \<Rightarrow> string \<Rightarrow> PeerInfo" where
  "new_connection w task addr =
     \<lparr>pi_addr = addr, pi_write_stream = w, pi_ping_nanos = None, pi_read_stream_task = task\<rparr>"

definition connected :: "ConnectionPool \<Rightarrow> PeerID \<Rightarrow> PeerInfo \<Rightarrow> ConnectionPool" where
  "connected pool peer_id peer =
     pool\<lparr>cp_connections := bt_insert peer_id peer (cp_connections pool)\<rparr>"

lemma exec_finish_new:
  "\<not> contains pool peer_id \<Longrightarrow>
    exec (finish env w task (Inr (peer_id, addr))) pool inc =
      (Done (Inr peer_id), connected pool peer_id (new_connection w task addr), inc, [])"
  by (simp add: finish_def insert_connection_def insert_peer_def contains_def Let_def
      connected_def new_connection_def ok_def)

lemma exec_finish_known:
  "contains pool peer_id \<Longrightarrow> raw_bytes (ne_codec env) already_connected_packet = Inr bs \<Longrightarrow>
    exec (finish env w task (Inr (peer_id, addr))) pool inc =
      (Done (Inl AlreadyConnected), pool, inc, write_frame bs)"
  by (simp add: finish_def insert_connection_def insert_peer_def contains_def fail_def)

lemma exec_finish_error:
  "raw_bytes (ne_codec env) (Quit (handshake_quit e)) = Inr bs \<Longrightarrow>
    exec (finish env w task (Inl e)) pool inc = (Done (Inl e), pool, inc, write_frame bs)"
  by (simp add: finish_def send_plain_def exec_send_frame)

lemma handshake_Inr:
  assumes "exec (handshake env d ex w task) pool inc = (Done (Inr peer_id), pool', rest, out)"
  obtains addr where "exec (handshake_raw env d ex) pool inc = (Done (Inr (peer_id, addr)), pool, rest, out)"
    and "pool' = connected pool peer_id (new_connection w task addr)"
proof -
  from assms obtain r pool1 rest1 out1 out2 where
    raw: "exec (handshake_raw env d ex) pool inc = (Done r, pool1, rest1, out1)" and
    fin: "exec (finish env w task r) pool1 rest1 = (Done (Inr peer_id), pool', rest, out2)" and
    out: "out = out1 @ out2"
    unfolding handshake_def exec_bind_Done_iff by blast
  show ?thesis
  proof (cases r)
    case (Inl e)
    with fin show ?thesis
      by (cases "raw_bytes (ne_codec env) (Quit (handshake_quit e))")
        (auto simp: finish_def send_plain_def exec_send_frame)
  next
    case (Inr p)
    then obtain i addr where r: "r = Inr (i, addr)" by (cases p) auto
    with handshake_raw_Inr [of env d ex pool inc i addr pool1 rest1 out1] raw
    have "\<not> contains pool i" "pool1 = pool" by auto
    with exec_finish_new [of pool i env w task addr rest1] fin raw r out
    show ?thesis by (intro that [of addr]) auto
  qed
qed

section \<open>Two honest nodes\<close>

definition sealed :: "('pk, 'sk, 'rng) node_env \<Rightarrow> 'rng draw \<Rightarrow> 'pk \<Rightarrow> bytes \<Rightarrow> lib_error + bytes" where
  "sealed env d pk their_nonce =
     (case raw_bytes (ne_codec env) (aes_packet d their_nonce) of
        Inl e \<Rightarrow> Inl e
      | Inr b \<Rightarrow> if ne_encryption env then oaep_encrypt (ne_lib env) pk (dr_oaep d) b else Inr b)"

definition short :: "lib_error + bytes \<Rightarrow> bool" where
  "short r = (case r of Inl e \<Rightarrow> False | Inr b \<Rightarrow> length b < 1000000)"

text \<open>
  What the node \<open>env\<close> needs of the node \<open>env'\<close> at the other end: the same build of the
  program, a public key that survives its encoding and decrypts what it encrypts, the
  identity of that key, random draws of the right length, packets that serialise to less
  than the maximal size; and an identity that is not ours, is the one expected if one is,
  and is not connected yet.
\<close>

definition meets ::
  "('pk, 'sk, 'rng) node_env \<Rightarrow> 'rng draw \<Rightarrow> PeerID option \<Rightarrow> ConnectionPool \<Rightarrow>
    ('pk, 'sk, 'rng) node_env \<Rightarrow> 'rng draw \<Rightarrow> bool" where
  "meets env d ex pool env' d' \<longleftrightarrow>
     ne_codec env' = ne_codec env \<and> ne_lib env' = ne_lib env \<and> ne_encryption env' = ne_encryption env
   \<and> codec_law (ne_codec env)
   \<and> key_law (ne_lib env) (ne_public_key env')
   \<and> encrypt_law (ne_lib env) (ne_public_key env) (ne_private_key env)
   \<and> ne_peer_id env' = peer_id_of_key (ne_lib env) (ne_public_key env')
   \<and> length (dr_nonce d') = 16 \<and> length (dr_aes_key_part d) = 16 \<and> length (dr_aes_key_part d') = 16
   \<and> short (raw_bytes (ne_codec env) version_packet)
   \<and> short (raw_bytes (ne_codec env) (rsa_packet env' d'))
   \<and> short (sealed env' d' (ne_public_key env) (dr_nonce d))
   \<and> short (raw_bytes (ne_codec env) (ehlo_packet env'))
   \<and> ne_peer_id env \<noteq> ne_peer_id env'
   \<and> (ex = None \<or> ex = Some (ne_peer_id env'))
   \<and> \<not> contains pool (ne_peer_id env')"

definition frame_of :: "('pk, 'sk, 'rng) node_env \<Rightarrow> Packet \<Rightarrow> bytes" where
  "frame_of env p = (case raw_bytes (ne_codec env) p of Inl e \<Rightarrow> [] | Inr b \<Rightarrow> write_frame b)"

definition sealed_frame :: "('pk, 'sk, 'rng) node_env \<Rightarrow> 'rng draw \<Rightarrow> 'pk \<Rightarrow> bytes \<Rightarrow> bytes" where
  "sealed_frame env d pk n = (case sealed env d pk n of Inl e \<Rightarrow> [] | Inr b \<Rightarrow> write_frame b)"

lemma shortE: "short r \<Longrightarrow> (\<And>b. r = Inr b \<Longrightarrow> length b < 1000000 \<Longrightarrow> thesis) \<Longrightarrow> thesis"
  by (auto simp: short_def split: sum.splits)

lemma send_plain_run:
  "short (raw_bytes (ne_codec env) p) \<Longrightarrow>
    exec (and_then (send_plain env p) f) pool inc = after (frame_of env p) (exec (f ()) pool inc)"
  by (auto simp: send_plain_def and_then_assoc exec_send_frame frame_of_def elim!: shortE)

lemma recv_plain_run:
  assumes "short (raw_bytes (ne_codec env) p)" and "codec_law (ne_codec env)"
  shows "exec (and_then (recv_plain env) f) pool (frame_of env p @ inc) = exec (f p) pool inc"
  using assms
  by (auto simp: recv_plain_def and_then_assoc exec_recv_frame frame_of_def codec_law_def elim!: shortE)

lemma send_aes_run:
  assumes "short (sealed env d pk n)"
  shows "exec (and_then (send_aes env d pk n) f) pool inc = after (sealed_frame env d pk n) (exec (f ()) pool inc)"
  using assms
  by (auto simp: send_aes_def and_then_assoc exec_send_frame sealed_frame_def sealed_def elim!: shortE
      split: sum.splits)

lemma recv_aes_run:
  assumes "short (sealed env' d' (ne_public_key env) n)" and "codec_law (ne_codec env)"
    and "encrypt_law (ne_lib env) (ne_public_key env) (ne_private_key env)"
    and "ne_codec env' = ne_codec env" "ne_lib env' = ne_lib env" "ne_encryption env' = ne_encryption env"
  shows "exec (and_then (recv_aes env) f) pool (sealed_frame env' d' (ne_public_key env) n @ inc) =
    exec (f (aes_packet d' n)) pool inc"
proof -
  from assms(1) obtain s where s: "sealed env' d' (ne_public_key env) n = Inr s" "length s < 1000000"
    by (rule shortE)
  then obtain b where b: "raw_bytes (ne_codec env) (aes_packet d' n) = Inr b"
    and opened: "(if ne_encryption env then convert RsaError (oaep_decrypt (ne_lib env) (ne_private_key env) s)
      else ok s) = ok b"
    using assms(3-6) by (auto simp: sealed_def encrypt_law_def split: sum.splits if_splits)
  show ?thesis
    using b assms(2)
    by (simp add: sealed_frame_def s recv_aes_def and_then_assoc exec_recv_frame opened codec_law_def)
qed


text \<open>One end of an honest handshake, stage by stage.\<close>

lemma await_nothing:
  "exec (await_version env d ex) pool [] = (await_version env d ex, pool, [], [])"
  "exec (await_rsa env d ex) pool [] = (await_rsa env d ex, pool, [], [])"
  "exec (await_aes env d i) pool [] = (await_aes env d i, pool, [], [])"
  "exec (await_ehlo env i) pool [] = (await_ehlo env i, pool, [], [])"
  unfolding await_version_def await_rsa_def await_aes_def await_ehlo_def recv_plain_def recv_aes_def
    and_then_assoc
  by (rule exec_recv_nothing)+

lemma stage_start:
  "meets env d ex pool env' d' \<Longrightarrow>
    exec (handshake_raw env d x) pool inc = after (frame_of env version_packet) (exec (await_version env d x) pool inc)"
  unfolding handshake_raw_def by (rule send_plain_run) (simp add: meets_def)

lemma stage_version:
  assumes "meets env d ex pool env' d'" and "short (raw_bytes (ne_codec env) (rsa_packet env d))"
  shows "exec (await_version env d x) pool (frame_of env version_packet @ inc) =
    after (frame_of env (rsa_packet env d)) (exec (await_rsa env d x) pool inc)"
  unfolding await_version_def using assms
  by (subst recv_plain_run) (simp_all add: meets_def version_packet_def check_version_def send_plain_run)

lemma stage_rsa:
  assumes "meets env d ex pool env' d'" and "meets env' d' ex' pool' env d"
  shows "exec (await_rsa env d ex) pool (frame_of env (rsa_packet env' d') @ inc) =
    after (sealed_frame env d (ne_public_key env') (dr_nonce d'))
      (exec (await_aes env d (ne_peer_id env')) pool inc)"
proof -
  have "check_rsa env (rsa_packet env' d') = ok (ne_public_key env', dr_nonce d')"
    using assms(1) by (simp add: meets_def rsa_packet_def check_rsa_def key_law_def)
  moreover have "check_identity env ex (ne_peer_id env') = ok ()"
    using assms(1) by (auto simp: meets_def check_identity_def)
  moreover have "\<not> contains pool (ne_peer_id env')"
    using assms(1) unfolding meets_def by blast
  then have "exec (and_then (check_new (ne_peer_id env')) f) pool inc = exec (f ()) pool inc" for f :: "unit \<Rightarrow> (PeerID \<times> string) hs"
    by (simp add: check_new_def)
  moreover have "peer_id_of_key (ne_lib env) (ne_public_key env') = ne_peer_id env'"
    using assms(1) by (simp add: meets_def)
  moreover have "short (sealed env d (ne_public_key env') (dr_nonce d'))"
    using assms(2) by (simp add: meets_def)
  ultimately show ?thesis
    unfolding await_rsa_def using assms(1)
    by (subst recv_plain_run) (simp_all add: meets_def Let_def send_aes_run)
qed

lemma aes_key_length: "i \<noteq> j \<Longrightarrow> \<exists>k. aes_key i j a b = Some k \<and> length k = length a + length b"
  by (auto simp: aes_key_def)

lemma stage_aes:
  assumes "meets env d ex pool env' d'" and "short (raw_bytes (ne_codec env) (ehlo_packet env))"
  shows "exec (await_aes env d (ne_peer_id env')) pool
      (sealed_frame env' d' (ne_public_key env) (dr_nonce d) @ inc) =
    after (frame_of env (ehlo_packet env)) (exec (await_ehlo env (ne_peer_id env')) pool inc)"
proof -
  have "check_aes (dr_nonce d) (aes_packet d' (dr_nonce d)) = ok (dr_aes_key_part d')"
    using assms(1) by (simp add: meets_def check_aes_def aes_packet_def)
  moreover have "make_aes_key (ne_peer_id env) (ne_peer_id env') (dr_aes_key_part d) (dr_aes_key_part d') = ok ()"
    using assms(1) aes_key_length [of "ne_peer_id env" "ne_peer_id env'" "dr_aes_key_part d" "dr_aes_key_part d'"]
    by (auto simp: meets_def make_aes_key_def)
  ultimately show ?thesis
    unfolding await_aes_def using assms
    by (subst recv_aes_run) (simp_all add: meets_def send_plain_run)
qed

lemma stage_ehlo:
  assumes "meets env d ex pool env' d'"
  shows "exec (await_ehlo env i) pool (frame_of env (ehlo_packet env') @ inc) =
    (Done (Inr (i, ne_addr env')), pool, inc, [])"
  unfolding await_ehlo_def using assms
  by (subst recv_plain_run) (simp_all add: meets_def check_ehlo_def ehlo_packet_def)

lemma await_not_Done:
  "await_version env d ex \<noteq> Done r" "await_rsa env d ex \<noteq> Done r"
  "await_aes env d i \<noteq> Done r" "await_ehlo env i \<noteq> Done r"
  by (simp_all add: await_version_def await_rsa_def await_aes_def await_ehlo_def recv_plain_def
      recv_aes_def and_then_assoc recv_frame_def read_u32_def read_exact_def)

section \<open>The handshake of two honest nodes completes\<close>

definition handshakes ::
  "('pk, 'sk, 'rng) node_env \<Rightarrow> 'rng draw \<Rightarrow> PeerID option \<Rightarrow> ConnectionPool \<Rightarrow> nat \<Rightarrow> nat \<Rightarrow>
    ('pk, 'sk, 'rng) node_env \<Rightarrow> 'rng draw \<Rightarrow> PeerID option \<Rightarrow> ConnectionPool \<Rightarrow> nat \<Rightarrow> nat \<Rightarrow>
    (HandshakeError + PeerID, HandshakeError + PeerID) link" where
  "handshakes ea da xa pa wa ta eb db xb pb wb tb =
     \<lparr>l_task = handshake ea da xa wa ta, l_pool = pa, l_inbox = [],
      r_task = handshake eb db xb wb tb, r_pool = pb, r_inbox = []\<rparr>"

definition both_connected ::
  "('pk, 'sk, 'rng) node_env \<Rightarrow> ConnectionPool \<Rightarrow> nat \<Rightarrow> nat \<Rightarrow>
    ('pk, 'sk, 'rng) node_env \<Rightarrow> ConnectionPool \<Rightarrow> nat \<Rightarrow> nat \<Rightarrow>
    (HandshakeError + PeerID, HandshakeError + PeerID) link" where
  "both_connected ea pa wa ta eb pb wb tb =
     \<lparr>l_task = Done (Inr (ne_peer_id eb)),
      l_pool = connected pa (ne_peer_id eb) (new_connection wa ta (ne_addr eb)), l_inbox = [],
      r_task = Done (Inr (ne_peer_id ea)),
      r_pool = connected pb (ne_peer_id ea) (new_connection wb tb (ne_addr ea)), r_inbox = []\<rparr>"

text \<open>The state in which each end has only the last frame of the other one to read.\<close>

definition half_way ::
  "('pk, 'sk, 'rng) node_env \<Rightarrow> ConnectionPool \<Rightarrow> nat \<Rightarrow> nat \<Rightarrow>
    ('pk, 'sk, 'rng) node_env \<Rightarrow> ConnectionPool \<Rightarrow> nat \<Rightarrow> nat \<Rightarrow>
    (HandshakeError + PeerID, HandshakeError + PeerID) link" where
  "half_way ea pa wa ta eb pb wb tb =
     \<lparr>l_task = bind_proc (await_ehlo ea (ne_peer_id eb)) (finish ea wa ta), l_pool = pa,
      l_inbox = frame_of eb (ehlo_packet eb),
      r_task = bind_proc (await_ehlo eb (ne_peer_id ea)) (finish eb wb tb), r_pool = pb,
      r_inbox = frame_of ea (ehlo_packet ea)\<rparr>"

lemma handshakes_half_way:
  assumes ab: "meets ea da xa pa eb db" and ba: "meets eb db xb pb ea da"
  shows "link_step\<^sup>*\<^sup>* (handshakes ea da xa pa wa ta eb db xb pb wb tb) (half_way ea pa wa ta eb pb wb tb)"
proof -
  let ?v = "frame_of ea version_packet"
  let ?ra = "frame_of ea (rsa_packet ea da)" and ?rb = "frame_of ea (rsa_packet eb db)"
  let ?aa = "sealed_frame ea da (ne_public_key eb) (dr_nonce db)"
  let ?ab = "sealed_frame eb db (ne_public_key ea) (dr_nonce da)"
  let ?ha = "frame_of ea (ehlo_packet ea)" and ?hb = "frame_of ea (ehlo_packet eb)"
  have c: "ne_codec eb = ne_codec ea" using ab by (simp add: meets_def)
  then have f: "frame_of eb p = frame_of ea p" for p by (simp add: frame_of_def)
  from ab ba have short:
    "short (raw_bytes (ne_codec ea) (rsa_packet ea da))" "short (raw_bytes (ne_codec eb) (rsa_packet eb db))"
    "short (raw_bytes (ne_codec ea) (ehlo_packet ea))" "short (raw_bytes (ne_codec eb) (ehlo_packet eb))"
    by (simp_all add: meets_def)
  have A1: "exec (handshake_raw ea da xa) pa [] = (await_version ea da xa, pa, [], ?v)"
    by (simp add: stage_start [OF ab] await_nothing)
  have B1: "exec (handshake_raw eb db xb) pb ?v = (await_rsa eb db xb, pb, [], ?v @ ?rb)"
    using stage_version [OF ba short(2), of xb "[]"]
    by (simp add: stage_start [OF ba] f await_nothing)
  have A2: "exec (await_version ea da xa) pa (?v @ ?rb) = (await_aes ea da (ne_peer_id eb), pa, [], ?ra @ ?aa)"
    using stage_version [OF ab short(1), of xa ?rb] stage_rsa [OF ab ba, of "[]"]
    by (simp add: await_nothing)
  have B2: "exec (await_rsa eb db xb) pb (?ra @ ?aa) = (await_ehlo eb (ne_peer_id ea), pb, [], ?ab @ ?hb)"
    using stage_rsa [OF ba ab, of ?aa] stage_aes [OF ba short(4), of "[]"]
    by (simp add: await_nothing f)
  have A3: "exec (await_aes ea da (ne_peer_id eb)) pa ?ab = (await_ehlo ea (ne_peer_id eb), pa, [], ?ha)"
    using stage_aes [OF ab short(3), of "[]"] by (simp add: await_nothing)
  let ?F = "finish ea wa ta" and ?G = "finish eb wb tb"
  let ?l = "\<lambda>p i q j. \<lparr>l_task = bind_proc p ?F, l_pool = pa, l_inbox = i,
      r_task = bind_proc q ?G, r_pool = pb, r_inbox = j\<rparr>"
  have "link_step\<^sup>*\<^sup>* (handshakes ea da xa pa wa ta eb db xb pb wb tb)
      (?l (await_version ea da xa) [] (handshake_raw eb db xb) ?v)"
    using exec_left [OF exec_bind_stuck [OF A1 await_not_Done(1)], where qinc = "[]"]
    by (simp add: handshakes_def handshake_def)
  also have "link_step\<^sup>*\<^sup>* \<dots> (?l (await_version ea da xa) (?v @ ?rb) (await_rsa eb db xb) [])"
    using exec_right [OF exec_bind_stuck [OF B1 await_not_Done(2)], where inc = "[]"] by simp
  also have "link_step\<^sup>*\<^sup>* \<dots> (?l (await_aes ea da (ne_peer_id eb)) [] (await_rsa eb db xb) (?ra @ ?aa))"
    using exec_left [OF exec_bind_stuck [OF A2 await_not_Done(3)], where qinc = "[]"] by simp
  also have "link_step\<^sup>*\<^sup>* \<dots>
      (?l (await_aes ea da (ne_peer_id eb)) (?ab @ ?hb) (await_ehlo eb (ne_peer_id ea)) [])"
    using exec_right [OF exec_bind_stuck [OF B2 await_not_Done(4)], where inc = "[]"] by simp
  also have "link_step\<^sup>*\<^sup>* \<dots> (half_way ea pa wa ta eb pb wb tb)"
    using exec_left_late [OF exec_bind_stuck [OF A3 await_not_Done(4)], where qinc = "[]" and late = ?hb]
    by (simp add: half_way_def f)
  finally show ?thesis .
qed

text \<open>The last step of each end, on any pool.\<close>

lemma last_frame:
  assumes "meets ea da xa pa eb db"
  shows "exec (bind_proc (await_ehlo ea (ne_peer_id eb)) (finish ea wa ta)) pool
      (frame_of eb (ehlo_packet eb) @ inc) = exec (finish ea wa ta (Inr (ne_peer_id eb, ne_addr eb))) pool inc"
proof -
  have "frame_of eb (ehlo_packet eb) = frame_of ea (ehlo_packet eb)"
    using assms by (simp add: meets_def frame_of_def)
  moreover have "exec (await_ehlo ea (ne_peer_id eb)) pool (frame_of ea (ehlo_packet eb) @ inc) =
      (Done (Inr (ne_peer_id eb, ne_addr eb)), pool, inc, [])"
    unfolding await_ehlo_def using assms
    by (subst recv_plain_run) (simp_all add: meets_def check_ehlo_def ehlo_packet_def)
  ultimately show ?thesis
    by (simp add: exec_bind [of "await_ehlo ea (ne_peer_id eb)"] split: prod.split)
qed

lemma handshakes_run:
  assumes ab: "meets ea da xa pa eb db" and ba: "meets eb db xb pb ea da"
  shows "link_step\<^sup>*\<^sup>* (handshakes ea da xa pa wa ta eb db xb pb wb tb) (both_connected ea pa wa ta eb pb wb tb)"
proof -
  have na: "\<not> contains pa (ne_peer_id eb)" and nb: "\<not> contains pb (ne_peer_id ea)"
    using ab ba unfolding meets_def by blast+
  let ?pa = "connected pa (ne_peer_id eb) (new_connection wa ta (ne_addr eb))"
  note a = trans [OF last_frame [OF ab, where inc = "[]", unfolded append_Nil2] exec_finish_new [OF na]]
    and b = trans [OF last_frame [OF ba, where inc = "[]", unfolded append_Nil2] exec_finish_new [OF nb]]
  have "link_step\<^sup>*\<^sup>* (half_way ea pa wa ta eb pb wb tb)
      ((half_way ea pa wa ta eb pb wb tb)\<lparr>l_task := Done (Inr (ne_peer_id eb)), l_pool := ?pa, l_inbox := []\<rparr>)"
    using exec_left [OF a, where q = "r_task (half_way ea pa wa ta eb pb wb tb)" and qpool = pb
        and qinc = "frame_of ea (ehlo_packet ea)"] by (simp add: half_way_def)
  moreover have "link_step\<^sup>*\<^sup>*
      ((half_way ea pa wa ta eb pb wb tb)\<lparr>l_task := Done (Inr (ne_peer_id eb)), l_pool := ?pa, l_inbox := []\<rparr>)
      (both_connected ea pa wa ta eb pb wb tb)"
    using exec_right [OF b, where p = "Done (Inr (ne_peer_id eb))" and pool = ?pa and inc = "[]"]
    by (simp add: half_way_def both_connected_def)
  ultimately show ?thesis
    using handshakes_half_way [OF ab ba] by (meson rtranclp_trans)
qed

lemma both_connected_at_rest: "link_at_rest (both_connected ea pa wa ta eb pb wb tb)"
  by (simp add: link_at_rest_def both_connected_def left_step_def right_step_def)

end
