(* ===== verification/Dht_Store.thy ===== *)
theory Dht_Store
  imports Packets Ordered_Map
begin

text \<open>
  The local part of the DHT (\<open>DhtStore\<close> in \<open>src/node/dht.rs\<close>): the values stored under each
  key, in the order they came. Each method locks the table, so it is one step.
\<close>

record DhtStore =
  table :: "(KeyID, DhtValue list) btree_map"

definition dht_default :: DhtStore where
  "dht_default = \<lparr>table = []\<rparr>"

text \<open>A key with no values left is removed on the way.\<close>

definition dht_get :: "DhtStore \<Rightarrow> KeyID \<Rightarrow> DhtStore \<times> DhtValue list option" where
  "dht_get store key =
     (case bt_get (table store) key of
        Some [] \<Rightarrow> (store\<lparr>table := bt_remove key (table store)\<rparr>, None)
      | values \<Rightarrow> (store, values))"

text \<open>\<open>table.entry(key).or_insert_with(Vec::new).push(value)\<close>\<close>

definition dht_set :: "DhtStore \<Rightarrow> KeyID \<Rightarrow> DhtValue \<Rightarrow> DhtStore" where
  "dht_set store key value =
     (let values = (case bt_get (table store) key of None \<Rightarrow> [] | Some vs \<Rightarrow> vs)
      in store\<lparr>table := bt_insert key (values @ [value]) (table store)\<rparr>)"

section \<open>What is stored\<close>

text \<open>The abstract store: a list of values per key, empty where nothing is stored.\<close>

definition stored :: "DhtStore \<Rightarrow> KeyID \<Rightarrow> DhtValue list" where
  "stored store key = (case bt_get (table store) key of None \<Rightarrow> [] | Some vs \<Rightarrow> vs)"

definition dht_inv :: "DhtStore \<Rightarrow> bool" where
  "dht_inv store \<longleftrightarrow> bt_inv (table store)"

lemma dht_default_inv [simp]: "dht_inv dht_default"
  by (simp add: dht_inv_def dht_default_def bt.inv_empty)

lemma dht_set_inv: "dht_inv store \<Longrightarrow> dht_inv (dht_set store key v)"
  by (simp add: dht_inv_def dht_set_def Let_def bt_laws)

lemma dht_get_inv: "dht_inv store \<Longrightarrow> dht_inv (fst (dht_get store key))"
  by (auto simp: dht_inv_def dht_get_def bt_laws split: option.split list.split)

lemma stored_default [simp]: "stored dht_default key = []"
  by (simp add: stored_def dht_default_def bt.get_empty)

lemma stored_set:
  "dht_inv store \<Longrightarrow> stored (dht_set store key v) = (stored store)(key := stored store key @ [v])"
  by (auto simp: dht_inv_def stored_def dht_set_def Let_def bt_laws fun_eq_iff)

lemma dht_get_eq:
  "snd (dht_get store key) = (if stored store key = [] then None else Some (stored store key))"
  by (auto simp: stored_def dht_get_def split: option.split list.split)

lemma stored_get: "dht_inv store \<Longrightarrow> stored (fst (dht_get store key)) = stored store"
  by (auto simp: dht_inv_def stored_def dht_get_def bt_laws fun_eq_iff split: option.split list.split)

text \<open>The promise of the store, and the store as an instance.\<close>

locale value_store =
  fixes new :: 's
    and get :: "'s \<Rightarrow> 'k \<Rightarrow> 's \<times> 'v list option"
    and put :: "'s \<Rightarrow> 'k \<Rightarrow> 'v \<Rightarrow> 's"
    and inv :: "'s \<Rightarrow> bool"
    and abs :: "'s \<Rightarrow> 'k \<Rightarrow> 'v list"
  assumes inv_new: "inv new" and abs_new: "abs new k = []"
    and inv_put: "inv s \<Longrightarrow> inv (put s k v)"
    and abs_put: "inv s \<Longrightarrow> abs (put s k v) = (abs s)(k := abs s k @ [v])"
    and inv_get: "inv s \<Longrightarrow> inv (fst (get s k))"
    and abs_get: "inv s \<Longrightarrow> abs (fst (get s k)) = abs s"
    and get_abs: "inv s \<Longrightarrow> snd (get s k) = (if abs s k = [] then None else Some (abs s k))"
begin

lemma puts:
  "inv s \<Longrightarrow> inv (foldl (\<lambda>s (k, v). put s k v) s kvs)
    \<and> abs (foldl (\<lambda>s (k, v). put s k v) s kvs) k = abs s k @ map snd (filter (\<lambda>e. fst e = k) kvs)"
  by (induction kvs arbitrary: s) (auto simp: inv_put abs_put)

text \<open>After any sequence of insertions a lookup returns the values of its key, in order.\<close>

lemma get_puts:
  "snd (get (foldl (\<lambda>s (k, v). put s k v) new kvs) k) =
    (let vs = map snd (filter (\<lambda>e. fst e = k) kvs) in if vs = [] then None else Some vs)"
  using puts [OF inv_new, of kvs k] by (simp add: get_abs abs_new Let_def)

end

interpretation dht: value_store dht_default dht_get dht_set dht_inv stored
  by unfold_locales
    (auto simp: dht_set_inv stored_set dht_get_inv stored_get dht_get_eq)

section \<open>Sequences of operations\<close>

text \<open>
  The answers to the lookups (\<open>Inl\<close>) in a sequence of lookups and insertions (\<open>Inr\<close>): of a
  store, and of the abstract list of values per key.
\<close>

fun store_answers ::
  "('s \<Rightarrow> 'k \<Rightarrow> 's \<times> 'v list option) \<Rightarrow> ('s \<Rightarrow> 'k \<Rightarrow> 'v \<Rightarrow> 's) \<Rightarrow> 's \<Rightarrow> ('k + 'k \<times> 'v) list \<Rightarrow>
    'v list option list" where
  "store_answers get put s [] = []"
| "store_answers get put s (Inl k # ops) = (case get s k of (s', r) \<Rightarrow> r # store_answers get put s' ops)"
| "store_answers get put s (Inr (k, v) # ops) = store_answers get put (put s k v) ops"

fun spec_answers :: "('k \<Rightarrow> 'v list) \<Rightarrow> ('k + 'k \<times> 'v) list \<Rightarrow> 'v list option list" where
  "spec_answers m [] = []"
| "spec_answers m (Inl k # ops) = (if m k = [] then None else Some (m k)) # spec_answers m ops"
| "spec_answers m (Inr (k, v) # ops) = spec_answers (m(k := m k @ [v])) ops"

context value_store
begin

lemma refines: "inv s \<Longrightarrow> store_answers get put s ops = spec_answers (abs s) ops"
proof (induction "abs s" ops arbitrary: s rule: spec_answers.induct)
  case (2 k ops)
  then show ?case
    using inv_get [of s k] abs_get [of s k] get_abs [of s k] by (cases "get s k") simp
next
  case (3 k v ops)
  then show ?case using inv_put [of s k v] abs_put [of s k v] by simp
qed simp

lemma refines_new: "store_answers get put new ops = spec_answers (\<lambda>_. []) ops"
  using refines [OF inv_new] abs_new by (metis ext)

end

text \<open>
  C29: from an empty store, any sequence of insertions and lookups is answered like the map from
  keys to their values in the order of insertion: a lookup finds exactly what was stored under
  its key, and nothing before the first insertion. (Dropping empty entries on a lookup is not
  observable.)
\<close>

theorem dht_store_refines:
  "store_answers dht_get dht_set dht_default ops = spec_answers (\<lambda>_. []) ops"
  by (rule dht.refines_new)

end
