(* ===== verification/Local_Network.thy ===== *)
theory Local_Network
  imports Decimal "HOL-Library.Sublist"
begin

text \<open>
  Connecting by address (\<open>connect\<close> in \<open>src/lib.rs\<close>): the nodes of a process listen on
  channels numbered from 0, and \<open>local-n\<close> is the address of the node with number \<open>n\<close>. A
  listener is the queue of connections waiting for it, or \<open>None\<close> when its receiver is gone.
\<close>

section \<open>Addresses\<close>

definition local_addr :: "nat \<Rightarrow> string" where
  "local_addr n = ''local-'' @ show_nat n"

text \<open>
  \<open>connect\<close>, with the two ends \<open>ours\<close> and \<open>theirs\<close> of a new stream: the new queues and our
  end, if there is such a listener.
\<close>

definition connect ::
  "'s \<Rightarrow> 's \<Rightarrow> 's list option list \<Rightarrow> string \<Rightarrow> ('s list option list \<times> 's option) outcome" where
  "connect ours theirs listeners addr =
     (if \<not> prefix ''local-'' addr then Panics
      else case parse_usize (drop 6 addr) of
        Inl e \<Rightarrow> Panics
      | Inr n \<Rightarrow>
          if n < length listeners
          then (case listeners ! n of
                  Some queue \<Rightarrow> Returns (listeners[n := Some (queue @ [theirs])], Some ours)
                | None \<Rightarrow> Panics)
          else Returns (listeners, None))"

lemma connect_local:
  "n \<le> usize_max \<Longrightarrow>
    connect ours theirs listeners (local_addr n) =
      (if n < length listeners
       then (case listeners ! n of
               Some queue \<Rightarrow> Returns (listeners[n := Some (queue @ [theirs])], Some ours)
             | None \<Rightarrow> Panics)
       else Returns (listeners, None))"
  by (simp add: connect_def local_addr_def parse_usize_show)

lemma connect_frame:
  assumes "connect ours theirs listeners addr = Returns (listeners', r)"
  shows "length listeners' = length listeners"
    and "r = None \<Longrightarrow> listeners' = listeners"
    and "r \<noteq> None \<Longrightarrow> \<exists>n q. n < length listeners \<and> listeners ! n = Some q
           \<and> listeners' = listeners[n := Some (q @ [theirs])] \<and> parse_usize (drop 6 addr) = Inr n"
  using assms by (auto simp: connect_def split: if_splits sum.splits option.splits)

end
