(* ===== verification/Node.thy ===== *)
theory Node
  imports Handshake Dht_Store Events Counter Command_Parsing Peer_Text Local_Network
begin

text \<open>
  The node (\<open>src/node/node.rs\<close>): its state, what it does with each packet of a connected peer
  (\<open>on_packet\<close>), with each command of its user (\<open>on_command\<close>), and the pings it sends.
\<close>

section \<open>State\<close>

text \<open>
  The message that a listener receives. The channels of all kinds of listeners have the same
  type \<open>'c\<close> in the model; \<open>send\<close> is the parameter of \<^theory_text>\<open>Events\<close>.
\<close>

datatype node_event =
    EvPing PeerID PingPacket
  | EvPong PeerID PingPacket
  | EvQuit PeerID QuitPacket
  | EvDiscoverPeers PeerID DiscoverPeersPacket
  | EvDiscoverPeersResp PeerID DiscoverPeersRespPacket
  | EvFindDhtValue PeerID FindDhtValuePacket
  | EvFindDhtValueResp PeerID FindDhtValueRespPacket
  | EvFindPeer PeerID FindPeerPacket
  | EvFindPeerResp PeerID FindPeerRespPacket
  | EvStoreDhtValue PeerID StoreDhtValuePacket
  | EvDisconnect PeerID

record ('pk, 'sk, 'rng, 'c) Node =
  nd_env :: "('pk, 'sk, 'rng) node_env"
  nd_connections :: ConnectionPool
  nd_dht :: DhtStore
  nd_ll :: LogLevel
  nd_ping_id_counter :: Counter
  nd_discover_peer_req_counter :: Counter
  nd_dht_req_counter :: Counter
  nd_on_ping_packet :: "'c EventListeners"
  nd_on_pong_packet :: "'c EventListeners"
  nd_on_quit_packet :: "'c EventListeners"
  nd_on_discover_peers_packet :: "'c EventListeners"
  nd_on_discover_peers_resp_packet :: "'c EventListeners"
  nd_on_find_dht_value_packet :: "'c EventListeners"
  nd_on_find_dht_value_resp_packet :: "'c EventListeners"
  nd_on_find_peer_packet :: "'c EventListeners"
  nd_on_find_peer_resp_packet :: "'c EventListeners"
  nd_on_store_dht_value_packet :: "'c EventListeners"
  nd_on_disconnect :: "'c EventListeners"

text \<open>
  The keys that \<open>Node::new\<close> generates, with \<open>RsaPrivateKey::new\<close> and \<open>RsaPublicKey::from\<close> of the crate
  as parameters, and the identity that follows from them.
\<close>

definition node_keys ::
  "('pk, 'sk, 'rng) crypto_lib \<Rightarrow> Packet codec \<Rightarrow> bool \<Rightarrow> (usize \<Rightarrow> lib_error + 'sk) \<Rightarrow> ('sk \<Rightarrow> 'pk) \<Rightarrow> string \<Rightarrow>
    ('pk, 'sk, 'rng) node_env outcome" where
  "node_keys lib c encryption generate public_of addr =
     (case generate RSA_KEY_LENGHT of
        Inl e \<Rightarrow> Panics
      | Inr private_key \<Rightarrow>
          let public_key = public_of private_key; peer_id = peer_id_of_key lib public_key
          in Returns \<lparr>ne_lib = lib, ne_codec = c, ne_encryption = encryption, ne_private_key = private_key,
                      ne_public_key = public_key, ne_peer_id = peer_id, ne_addr = addr\<rparr>)"

text \<open>
  \<open>Node::new\<close>, from the generated keys. The listener of the task that refreshes the buckets
  on a disconnection is the channel \<open>refresher\<close>.
\<close>

definition node_new :: "('pk, 'sk, 'rng) node_env \<Rightarrow> 'c \<Rightarrow> ('pk, 'sk, 'rng, 'c) Node" where
  "node_new env refresher =
     (let ll = log_from 1
      in \<lparr>nd_env = env,
          nd_connections = set_node_ref (pool_new (ne_peer_id env) ll),
          nd_dht = dht_default,
          nd_ll = ll,
          nd_ping_id_counter = counter_default,
          nd_discover_peer_req_counter = counter_default,
          nd_dht_req_counter = counter_default,
          nd_on_ping_packet = listeners_default,
          nd_on_pong_packet = listeners_default,
          nd_on_quit_packet = listeners_default,
          nd_on_discover_peers_packet = listeners_default,
          nd_on_discover_peers_resp_packet = listeners_default,
          nd_on_find_dht_value_packet = listeners_default,
          nd_on_find_dht_value_resp_packet = listeners_default,
          nd_on_find_peer_packet = listeners_default,
          nd_on_find_peer_resp_packet = listeners_default,
          nd_on_store_dht_value_packet = listeners_default,
          nd_on_disconnect = listen refresher listeners_default\<rparr>)"

section \<open>Packets\<close>

type_synonym ('pk, 'sk, 'rng, 'c) handled = "(('pk, 'sk, 'rng, 'c) Node \<times> effect list) outcome"

definition handled :: "('pk, 'sk, 'rng, 'c) Node \<Rightarrow> effect list \<Rightarrow> ('pk, 'sk, 'rng, 'c) handled" where
  "handled node effs = Returns (node, effs)"

text \<open>\<open>self.connections.send_packet(..).await\<close> and what follows.\<close>

definition sending ::
  "('pk, 'sk, 'rng, 'c) Node \<Rightarrow> PeerID \<Rightarrow> Packet \<Rightarrow> (effect list \<Rightarrow> ('pk, 'sk, 'rng, 'c) handled) \<Rightarrow>
    ('pk, 'sk, 'rng, 'c) handled" where
  "sending node n p k = bind_outcome (send_packet (ne_codec (nd_env node)) (nd_connections node) n p) k"

definition answer_find_peer :: "('pk, 'sk, 'rng, 'c) Node \<Rightarrow> FindPeerPacket \<Rightarrow> FindPeerRespPacket" where
  "answer_find_peer node p =
     \<lparr>fpr_request_id = fp_request_id p,
      fpr_peers = closest_peers (unat (min MAX_DHT_PEERS_RETURNED (fp_limit p))) (fp_peer_id p)
        (peers_with_addrs (nd_connections node))\<rparr>"

text \<open>The lookup in the local store may change it, so the store is returned as well.\<close>

definition answer_find_value ::
  "('pk, 'sk, 'rng, 'c) Node \<Rightarrow> FindDhtValuePacket \<Rightarrow> DhtStore \<times> FindDhtValueRespPacket" where
  "answer_find_value node p =
     (let (store, found) = dht_get (nd_dht node) (fv_key p);
          result =
            (case found of
               Some values \<Rightarrow>
                 Found (take (unat (min MAX_DHT_VALUES_RETURNED (fv_limit_values p))) values)
             | None \<Rightarrow>
                 NotFound (closest_peers (unat (min MAX_DHT_PEERS_RETURNED (fv_limit_peers p)))
                   (fv_key p) (peers_with_addrs (nd_connections node))))
      in (store, \<lparr>fvr_request_id = fv_request_id p, fvr_result = result\<rparr>))"

definition too_many_results :: "DhtLookupResult \<Rightarrow> bool" where
  "too_many_results r =
     (case r of
        Found values \<Rightarrow> length values > unat MAX_DHT_VALUES_RETURNED
      | NotFound ps \<Rightarrow> length ps > unat MAX_DHT_PEERS_RETURNED)"

text \<open>
  \<open>self.connections.disconnect(..).await\<close>: the pool raises \<open>on_disconnect\<close> when it had the peer.
\<close>

definition disconnecting ::
  "('c, node_event) channel_send \<Rightarrow> ('pk, 'sk, 'rng, 'c) Node \<Rightarrow> PeerID \<Rightarrow> QuitPacket \<Rightarrow>
    ('pk, 'sk, 'rng, 'c) handled" where
  "disconnecting send node n q =
     bind_outcome (disconnect (ne_codec (nd_env node)) (nd_connections node) n q)
       (\<lambda>(pool, effs). bind_outcome
          (if RaiseDisconnect n \<in> set effs then event send (EvDisconnect n) (nd_on_disconnect node)
           else Returns (nd_on_disconnect node))
          (\<lambda>ls. handled (node\<lparr>nd_connections := pool, nd_on_disconnect := ls\<rparr>) effs))"

definition quit_received :: QuitPacket where
  "quit_received = \<lparr>q_reason_code = ''QuitReceived'', q_message = None, q_report_fault = False\<rparr>"

text \<open>
  \<open>Node::on_packet\<close>. \<open>dbg\<close> tells a debug build (arithmetic that overflows panics in it),
  \<open>shuffle\<close> is the permutation drawn for a discovery answer. The last branch of the match is
  \<open>todo!()\<close>.
\<close>

fun on_packet ::
  "bool \<Rightarrow> ((PeerID \<times> string) list \<Rightarrow> (PeerID \<times> string) list) \<Rightarrow> ('c, node_event) channel_send \<Rightarrow>
    ('pk, 'sk, 'rng, 'c) Node \<Rightarrow> PeerID \<Rightarrow> Packet \<Rightarrow> ('pk, 'sk, 'rng, 'c) handled" where
  "on_packet dbg shuffle send node n (DiscoverPeers p) =
     (if length (dp_mask p) > 32 then handled node []
      else bind_outcome (prepare_discover_peers_response dbg shuffle (nd_connections node) p)
        (\<lambda>response. sending node n (DiscoverPeersResp response) (\<lambda>effs.
           bind_outcome (event send (EvDiscoverPeers n p) (nd_on_discover_peers_packet node))
             (\<lambda>ls. handled (node\<lparr>nd_on_discover_peers_packet := ls\<rparr>) effs))))"
| "on_packet dbg shuffle send node n (DiscoverPeersResp p) =
     (if length (dpr_peers p) > unat MAX_DISCOVERY_PEERS_RETURNED then handled node []
      else bind_outcome (event send (EvDiscoverPeersResp n p) (nd_on_discover_peers_resp_packet node))
        (\<lambda>ls. handled (node\<lparr>nd_on_discover_peers_resp_packet := ls\<rparr>) []))"
| "on_packet dbg shuffle send node n (FindDhtValue p) =
     (let (store, response) = answer_find_value node p; node = node\<lparr>nd_dht := store\<rparr>
      in sending node n (FindDhtValueResp response) (\<lambda>effs.
           bind_outcome (event send (EvFindDhtValue n p) (nd_on_find_dht_value_packet node))
             (\<lambda>ls. handled (node\<lparr>nd_on_find_dht_value_packet := ls\<rparr>) effs)))"
| "on_packet dbg shuffle send node n (FindDhtValueResp p) =
     (if too_many_results (fvr_result p) then handled node []
      else bind_outcome (event send (EvFindDhtValueResp n p) (nd_on_find_dht_value_resp_packet node))
        (\<lambda>ls. handled (node\<lparr>nd_on_find_dht_value_resp_packet := ls\<rparr>) []))"
| "on_packet dbg shuffle send node n (FindPeer p) =
     sending node n (FindPeerResp (answer_find_peer node p)) (\<lambda>effs.
       bind_outcome (event send (EvFindPeer n p) (nd_on_find_peer_packet node))
         (\<lambda>ls. handled (node\<lparr>nd_on_find_peer_packet := ls\<rparr>) effs))"
| "on_packet dbg shuffle send node n (FindPeerResp p) =
     (if length (fpr_peers p) > unat MAX_DHT_PEERS_RETURNED then handled node []
      else bind_outcome (event send (EvFindPeerResp n p) (nd_on_find_peer_resp_packet node))
        (\<lambda>ls. handled (node\<lparr>nd_on_find_peer_resp_packet := ls\<rparr>) []))"
| "on_packet dbg shuffle send node n (StoreDhtValue p) =
     bind_outcome (event send (EvStoreDhtValue n p) (nd_on_store_dht_value_packet node))
       (\<lambda>ls. handled (node\<lparr>nd_on_store_dht_value_packet := ls\<rparr>) [])"
| "on_packet dbg shuffle send node n (Ping p) =
     sending node n (Pong p) (\<lambda>effs.
       bind_outcome (event send (EvPing n p) (nd_on_ping_packet node))
         (\<lambda>ls. handled (node\<lparr>nd_on_ping_packet := ls\<rparr>) effs))"
| "on_packet dbg shuffle send node n (Pong p) =
     bind_outcome (event send (EvPong n p) (nd_on_pong_packet node))
       (\<lambda>ls. handled (node\<lparr>nd_on_pong_packet := ls\<rparr>) [])"
| "on_packet dbg shuffle send node n (Quit p) =
     bind_outcome (disconnecting send node n quit_received)
       (\<lambda>(node, effs). bind_outcome (event send (EvQuit n p) (nd_on_quit_packet node))
          (\<lambda>ls. handled (node\<lparr>nd_on_quit_packet := ls\<rparr>) effs))"
| "on_packet dbg shuffle send node n (ProtocolVersion p) = Panics"
| "on_packet dbg shuffle send node n (InitRsa p) = Panics"
| "on_packet dbg shuffle send node n (InitAes p) = Panics"
| "on_packet dbg shuffle send node n (Ehlo p) = Panics"

section \<open>Pings\<close>

definition timeout_quit :: QuitPacket where
  "timeout_quit = \<lparr>q_reason_code = ''Timeout'', q_message = None, q_report_fault = False\<rparr>"

text \<open>
  The first half of a ping: draw an identifier, send, and only then listen for pongs (on the
  channel \<open>fresh\<close>). Packets may be handled between the two steps.
\<close>

definition ping_send ::
  "('pk, 'sk, 'rng, 'c) Node \<Rightarrow> PeerID \<Rightarrow> (('pk, 'sk, 'rng, 'c) Node \<times> effect list \<times> u32) outcome" where
  "ping_send node peer_id =
     (let (ping_id, counter) = counter_next (nd_ping_id_counter node);
          node = node\<lparr>nd_ping_id_counter := counter\<rparr>
      in bind_outcome (sending node peer_id (Ping \<lparr>pp_ping_id = ping_id\<rparr>) (handled node))
           (\<lambda>(node, effs). Returns (node, effs, ping_id)))"

definition ping_listen :: "'c \<Rightarrow> ('pk, 'sk, 'rng, 'c) Node \<Rightarrow> ('pk, 'sk, 'rng, 'c) Node" where
  "ping_listen fresh node = node\<lparr>nd_on_pong_packet := listen fresh (nd_on_pong_packet node)\<rparr>"

text \<open>The pong that the loop of the pinging task breaks on.\<close>

definition is_pong :: "PeerID \<Rightarrow> u32 \<Rightarrow> node_event \<Rightarrow> bool" where
  "is_pong peer_id ping_id e =
     (case e of EvPong n pong \<Rightarrow> pp_ping_id pong = ping_id \<and> n = peer_id | _ \<Rightarrow> False)"

definition await_pong :: "PeerID \<Rightarrow> u32 \<Rightarrow> node_event list \<Rightarrow> (node_event \<times> node_event list) option" where
  "await_pong peer_id ping_id = recv_until (is_pong peer_id ping_id)"

text \<open>The second half of a periodic ping: the time it took, or a timeout.\<close>

definition ping_finish ::
  "('c, node_event) channel_send \<Rightarrow> ('pk, 'sk, 'rng, 'c) Node \<Rightarrow> PeerID \<Rightarrow> usize option \<Rightarrow>
    ('pk, 'sk, 'rng, 'c) handled" where
  "ping_finish send node peer_id result =
     (case result of
        Some nanos \<Rightarrow>
          bind_outcome (set_ping (nd_connections node) peer_id nanos)
            (\<lambda>pool. handled (node\<lparr>nd_connections := pool\<rparr>) [])
      | None \<Rightarrow> disconnecting send node peer_id timeout_quit)"

section \<open>Commands\<close>

datatype node_action =
    Effect effect
  | Log string
  | AwaitPong PeerID u32 nat
  | StartLookup KeyID

definition newline :: string where
  "newline = [CHR 0x0A]"

definition bucket_line :: "ConnectionPool \<Rightarrow> usize \<times> usize \<Rightarrow> string" where
  "bucket_line pool = (\<lambda>(bucket_level, bucket_id).
     let ps = peers_on_bucket pool bucket_level bucket_id
     in if ps = [] then ''''
        else show_nat bucket_level @ ''-'' @ [''ABC'' ! bucket_id] @ '' ('' @ show_nat (length ps) @ ''): ''
             @ concat (map (\<lambda>p. show_peer p @ '', '') ps) @ newline)"

definition debug_buckets :: "ConnectionPool \<Rightarrow> string" where
  "debug_buckets pool =
     (let message = ''Buckets:'' @ newline @ concat (map (bucket_line pool) all_buckets)
      in if message = '''' then ''No buckets'' else message)"

definition ping_report :: "usize option \<Rightarrow> string" where
  "ping_report result =
     (case result of Some nanos \<Rightarrow> ''Ping is '' @ show_nat (nanos div 1000000) @ '' ms''
      | None \<Rightarrow> ''Timed out'')"

text \<open>\<open>Node::on_command\<close>; \<open>debug\<close> is the derived \<open>Debug\<close> text of a command.\<close>

fun on_command ::
  "(Command \<Rightarrow> string) \<Rightarrow> 'c \<Rightarrow> ('pk, 'sk, 'rng, 'c) Node \<Rightarrow> Command \<Rightarrow>
    (('pk, 'sk, 'rng, 'c) Node \<times> node_action list) outcome" where
  "on_command debug fresh node Conns =
     Returns (node, [Log (show_nat (pool_len (nd_connections node)) @ '' connections'')])"
| "on_command debug fresh node Buckets = Returns (node, [Log (debug_buckets (nd_connections node))])"
| "on_command debug fresh node RefreshBuckets =
     bind_outcome (refresh_buckets (nd_connections node))
       (\<lambda>effs. Returns (node, map Effect effs @ [Log ''Buckets refreshed'']))"
| "on_command debug fresh node (PingCommand node_id) =
     bind_outcome (ping_send node node_id)
       (\<lambda>(node, effs, ping_id).
          Returns (ping_listen fresh node, map Effect effs @ [AwaitPong node_id ping_id 15]))"
| "on_command debug fresh node (SetLogLevel level) =
     Returns (node\<lparr>nd_ll := log_set (nd_ll node) level,
                   nd_connections := (nd_connections node)\<lparr>cp_ll := log_set (cp_ll (nd_connections node)) level\<rparr>\<rparr>,
              [])"
| "on_command debug fresh node Id = Returns (node, [Log (show_peer (ne_peer_id (nd_env node)))])"
| "on_command debug fresh node (Find key) = Returns (node, [StartLookup key])"
| "on_command debug fresh node c = Returns (node, [Log (debug c)])"

section \<open>Invariant\<close>

text \<open>
  The pool and the store are well formed, the pool knows its node, and both know the same
  identity and log level.
\<close>

definition node_inv :: "('pk, 'sk, 'rng, 'c) Node \<Rightarrow> bool" where
  "node_inv node \<longleftrightarrow>
     pool_inv (nd_connections node) \<and> cp_node_ref (nd_connections node)
   \<and> cp_our_peer_id (nd_connections node) = ne_peer_id (nd_env node)
   \<and> cp_ll (nd_connections node) = nd_ll node
   \<and> dht_inv (nd_dht node)"

lemma node_new_inv: "wf_peer (ne_peer_id env) \<Longrightarrow> node_inv (node_new env refresher)"
  using pool_new_inv [of "ne_peer_id env" "log_from 1"]
  by (simp add: node_inv_def node_new_def Let_def set_node_ref_inv)
    (simp add: set_node_ref_def pool_new_def)

lemma node_keys_inv:
  "node_keys lib c encryption generate public_of addr = Returns env \<Longrightarrow> sha_law lib \<Longrightarrow>
    wf_peer (ne_peer_id env) \<and> node_inv (node_new env refresher)"
  by (auto simp: node_keys_def Let_def wf_peer_id_of_key intro!: node_new_inv split: sum.splits)

lemma answer_store [simp]:
  "fst (answer_find_value node p) = fst (dht_get (nd_dht node) (fv_key p))"
  by (simp add: answer_find_value_def case_prod_unfold Let_def)

lemma send_packet_Returns:
  "cp_node_ref pool \<Longrightarrow> (\<forall>q. p \<noteq> Quit q) \<Longrightarrow>
    send_packet c pool n p = Returns
      (case raw_bytes c p of Inl e \<Rightarrow> []
       | Inr bs \<Rightarrow> (case bt_get (cp_connections pool) n of None \<Rightarrow> []
                     | Some peer \<Rightarrow> [Wrote (pi_write_stream peer) (write_frame bs)]))"
  by (cases p) (auto simp: send_packet_def send_packet_unchecked_def with_node_def
      split: sum.split option.split)

lemma disconnect_frame:
  assumes "disconnect c pool n q = Returns (pool', effs)"
  shows "cp_node_ref pool' = cp_node_ref pool" and "cp_our_peer_id pool' = cp_our_peer_id pool"
    and "cp_ll pool' = cp_ll pool"
  using disconnect_Returns [OF assms] by simp_all

lemma disconnecting_inv:
  assumes "node_inv node" and "disconnecting send node n q = Returns (node', effs)"
  shows "node_inv node'"
proof -
  from assms(2) obtain pool where "disconnect (ne_codec (nd_env node)) (nd_connections node) n q = Returns (pool, effs)"
    and node': "nd_connections node' = pool" "nd_env node' = nd_env node" "nd_ll node' = nd_ll node"
      "nd_dht node' = nd_dht node"
    by (auto simp: disconnecting_def bind_outcome_Returns_iff handled_def)
  with disconnect_frame disconnect_inv assms(1) show ?thesis
    by (metis node_inv_def)
qed

lemma on_packet_inv:
  assumes "node_inv node" and "on_packet dbg shuffle send node n p = Returns (node', effs)"
  shows "node_inv node'"
proof (cases p)
  case (Quit q)
  with assms(2) obtain node1 ls where "disconnecting send node n quit_received = Returns (node1, effs)"
    and "node' = node1\<lparr>nd_on_quit_packet := ls\<rparr>"
    by (auto simp: bind_outcome_Returns_iff handled_def)
  with disconnecting_inv [OF assms(1)] show ?thesis by (simp add: node_inv_def)
qed (use assms in \<open>auto simp: node_inv_def bind_outcome_Returns_iff handled_def sending_def
      case_prod_unfold Let_def dht_get_inv split: if_splits\<close>)


section \<open>When a packet panics\<close>

text \<open>The identities inside a packet are byte arrays of length 32.\<close>

fun wf_packet :: "Packet \<Rightarrow> bool" where
  "wf_packet (DiscoverPeers p) \<longleftrightarrow> wf_peer (dp_target p)"
| "wf_packet (FindDhtValue p) \<longleftrightarrow> wf_peer (fv_key p)"
| "wf_packet (FindPeer p) \<longleftrightarrow> wf_peer (fp_peer_id p)"
| "wf_packet _ \<longleftrightarrow> True"

fun handshake_packet :: "Packet \<Rightarrow> bool" where
  "handshake_packet (ProtocolVersion _) \<longleftrightarrow> True"
| "handshake_packet (InitRsa _) \<longleftrightarrow> True"
| "handshake_packet (InitAes _) \<longleftrightarrow> True"
| "handshake_packet (Ehlo _) \<longleftrightarrow> True"
| "handshake_packet _ \<longleftrightarrow> False"

lemma bind_eq_Panics_Returns [simp]: "bind_outcome (Returns a) f = Panics \<longleftrightarrow> f a = Panics"
  by simp

lemma disconnecting_total:
  assumes "cp_node_ref (nd_connections node)"
  shows "\<exists>node' effs. disconnecting send node n q = Returns (node', effs)"
proof -
  have "\<exists>r. disconnect (ne_codec (nd_env node)) (nd_connections node) n q = Returns r"
    using assms
    by (auto simp: disconnect_def send_packet_unchecked_def with_node_def split: sum.split option.split)
  then show ?thesis
    by (auto simp: disconnecting_def handled_def event_eq)
qed

lemma on_packet_panics:
  assumes "node_inv node" and "wf_packet p"
  shows "on_packet dbg shuffle send node n p = Panics \<longleftrightarrow> handshake_packet p"
proof -
  have ref: "cp_node_ref (nd_connections node)" and inv: "pool_inv (nd_connections node)"
    using assms(1) by (simp_all add: node_inv_def)
  note send = send_packet_Returns [OF ref]
  show ?thesis
  proof (cases p)
    case (DiscoverPeers q)
    then have "wf_peer (dp_target q)" using assms(2) by simp
    then show ?thesis
      by (simp add: DiscoverPeers prepare_response_eq [OF inv] handled_def sending_def send event_eq)
  next
    case (Quit q)
    from disconnecting_total [OF ref, of send n quit_received] show ?thesis
      by (auto simp: Quit handled_def event_eq)
  qed (simp_all add: handled_def sending_def send event_eq case_prod_unfold Let_def)
qed

section \<open>What a packet changes\<close>

lemma disconnecting_connections:
  assumes "disconnecting send node n q = Returns (node', effs)"
  shows "nd_connections node' =
    (nd_connections node)\<lparr>cp_connections := bt_remove n (cp_connections (nd_connections node))\<rparr>"
  using assms disconnect_Returns
  by (auto simp: disconnecting_def bind_outcome_Returns_iff handled_def)

lemma on_packet_connections:
  assumes "on_packet dbg shuffle send node n p = Returns (node', effs)"
  shows "nd_connections node' =
    (case p of
       Quit _ \<Rightarrow> (nd_connections node)\<lparr>cp_connections := bt_remove n (cp_connections (nd_connections node))\<rparr>
     | _ \<Rightarrow> nd_connections node)"
proof (cases p)
  case (Quit q)
  with assms obtain node1 ls where "disconnecting send node n quit_received = Returns (node1, effs)"
    and "node' = node1\<lparr>nd_on_quit_packet := ls\<rparr>"
    by (auto simp: bind_outcome_Returns_iff handled_def)
  with disconnecting_connections show ?thesis by (auto simp: Quit)
qed (use assms in \<open>auto simp: bind_outcome_Returns_iff handled_def sending_def case_prod_unfold Let_def
      split: if_splits\<close>)

text \<open>Nothing is stored for a peer that asks to.\<close>

lemma on_packet_stored:
  assumes "node_inv node" and "on_packet dbg shuffle send node n p = Returns (node', effs)"
  shows "stored (nd_dht node') = stored (nd_dht node)"
proof (cases p)
  case (Quit q)
  with assms obtain node1 ls where q: "disconnecting send node n quit_received = Returns (node1, effs)"
    and node': "node' = node1\<lparr>nd_on_quit_packet := ls\<rparr>"
    by (auto simp: bind_outcome_Returns_iff handled_def)
  from q have "nd_dht node1 = nd_dht node"
    by (auto simp: disconnecting_def bind_outcome_Returns_iff handled_def)
  then show ?thesis by (simp add: node')
next
  case (FindDhtValue q)
  have "dht_inv (nd_dht node)" using assms(1) by (simp add: node_inv_def)
  with assms(2) show ?thesis
    by (auto simp: FindDhtValue bind_outcome_Returns_iff handled_def sending_def case_prod_unfold Let_def
        stored_get)
qed (use assms in \<open>auto simp: bind_outcome_Returns_iff handled_def sending_def split: if_splits\<close>)

section \<open>Answers\<close>

lemma unat_MAX [simp]:
  "unat MAX_DHT_PEERS_RETURNED = 32" "unat MAX_DHT_VALUES_RETURNED = 64"
  "unat MAX_DISCOVERY_PEERS_RETURNED = 64"
  by (simp_all add: constants_defs)

lemma find_value_result:
  "fvr_result (snd (answer_find_value node p)) =
    (if stored (nd_dht node) (fv_key p) = []
     then NotFound (closest_peers (min 32 (unat (fv_limit_peers p))) (fv_key p)
            (peers_with_addrs (nd_connections node)))
     else Found (take (min 64 (unat (fv_limit_values p))) (stored (nd_dht node) (fv_key p))))"
  by (simp add: answer_find_value_def case_prod_unfold Let_def dht_get_eq unat_min)

lemma answers_accepted:
  "\<not> too_many_results (fvr_result (snd (answer_find_value node p)))"
  "length (fpr_peers (answer_find_peer node q)) \<le> unat MAX_DHT_PEERS_RETURNED"
  by (auto simp: find_value_result too_many_results_def answer_find_peer_def unat_min)

lemma peers_wf:
  "pool_inv pool \<Longrightarrow> \<forall>e\<in>set (peers_with_addrs pool). wf_peer (fst e)"
  using pool_invD(3) [of pool] by (force simp: peers_with_addrs_def peers_def)

lemma peers_distinct_fst: "pool_inv pool \<Longrightarrow> distinct (map fst (peers_with_addrs pool))"
  using peers_distinct by simp

section \<open>Pongs\<close>

text \<open>
  A pong that is handled before the pinging task listens does not reach it, one that is
  handled later does.
\<close>

lemma pong_handled:
  "on_packet dbg shuffle send node n (Pong p) = Returns (node', effs) \<Longrightarrow>
    listeners (nd_on_pong_packet node') = broadcast send (EvPong n p) (listeners (nd_on_pong_packet node))"
  by (auto simp: bind_outcome_Returns_iff handled_def event_eq)

end
