(* ===== verification/Sample_Nodes.thy ===== *)
theory Sample_Nodes
  imports Handshake Local_Network
begin

text \<open>
  Two concrete nodes for the witnesses: their keys are the bytes 1 and 2, and the table of their
  serialisation holds the packets that they exchange.
\<close>

definition sample_draw :: "u8 \<Rightarrow> unit draw" where
  "sample_draw k = \<lparr>dr_nonce = replicate 16 k, dr_aes_key_part = replicate 16 (k + 10), dr_oaep = ()\<rparr>"

definition sample_base :: "Packet codec \<Rightarrow> u8 \<Rightarrow> (u8, u8, unit) node_env" where
  "sample_base c k =
     \<lparr>ne_lib = sample_lib, ne_codec = c, ne_encryption = True, ne_private_key = k,
      ne_public_key = k, ne_peer_id = peer_id_of_key sample_lib k, ne_addr = local_addr (unat k)\<rparr>"

text \<open>A question for the values of a key, and an answer to it.\<close>

definition sample_question :: Packet where
  "sample_question =
     FindDhtValue \<lparr>fv_request_id = 0, fv_key = sample_peer 9, fv_limit_peers = MAX_DHT_PEERS_RETURNED,
       fv_limit_values = MAX_DHT_VALUES_RETURNED\<rparr>"

definition sample_answer :: Packet where
  "sample_answer = FindDhtValueResp \<lparr>fvr_request_id = 0, fvr_result = NotFound []\<rparr>"

definition sample_packets :: "Packet list" where
  "sample_packets =
     (let env = sample_base (table_codec [])
      in [version_packet, rsa_packet (env 1) (sample_draw 1), rsa_packet (env 2) (sample_draw 2),
          aes_packet (sample_draw 1) (replicate 16 2), aes_packet (sample_draw 2) (replicate 16 1),
          ehlo_packet (env 1), ehlo_packet (env 2), already_connected_packet,
          Quit (handshake_quit UnexpectedPacket), Quit (handshake_quit AlreadyConnected),
          Quit (handshake_quit SamePeer), sample_question, sample_answer])"

definition sample_env :: "u8 \<Rightarrow> (u8, u8, unit) node_env" where
  "sample_env = sample_base (table_codec sample_packets)"

lemma sample_env_sel [simp]:
  "ne_lib (sample_env k) = sample_lib" "ne_codec (sample_env k) = table_codec sample_packets"
  "ne_encryption (sample_env k)" "ne_private_key (sample_env k) = k" "ne_public_key (sample_env k) = k"
  "ne_peer_id (sample_env k) = peer_id_of_key sample_lib k" "ne_addr (sample_env k) = local_addr (unat k)"
  by (simp_all add: sample_env_def sample_base_def)

lemma sample_draw_sel [simp]:
  "dr_nonce (sample_draw k) = replicate 16 k" "dr_aes_key_part (sample_draw k) = replicate 16 (k + 10)"
  "dr_oaep (sample_draw k) = ()"
  by (simp_all add: sample_draw_def)

lemma peer_id_of_sample_key [simp]: "peer_id_of_key sample_lib k = PeerID (k # 3 # replicate 30 0)"
  by (simp add: peer_id_of_key_def)

lemma sample_talk_mem: "sample_question \<in> set sample_packets" "sample_answer \<in> set sample_packets"
  by (simp_all add: sample_packets_def Let_def)

text \<open>The serialised packets are single bytes.\<close>

lemma sample_packets_short: "p \<in> set sample_packets \<Longrightarrow> short (raw_bytes (table_codec sample_packets) p)"
  by (simp add: raw_bytes_table short_def)

lemma sample_packets_law: "codec_law (table_codec sample_packets)"
  by (rule table_codec_law) (simp add: sample_packets_def Let_def)

lemma sample_packets_mem:
  "version_packet \<in> set sample_packets"
  "rsa_packet (sample_env 1) (sample_draw 1) \<in> set sample_packets"
  "rsa_packet (sample_env 2) (sample_draw 2) \<in> set sample_packets"
  "aes_packet (sample_draw 1) (dr_nonce (sample_draw 2)) \<in> set sample_packets"
  "aes_packet (sample_draw 2) (dr_nonce (sample_draw 1)) \<in> set sample_packets"
  "ehlo_packet (sample_env 1) \<in> set sample_packets"
  "ehlo_packet (sample_env 2) \<in> set sample_packets"
  "already_connected_packet \<in> set sample_packets"
  by (simp_all add: sample_packets_def Let_def rsa_packet_def ehlo_packet_def sample_base_def)

lemma short_sealed:
  "aes_packet d n \<in> set sample_packets \<Longrightarrow> short (sealed (sample_env k) d pk n)"
  by (cases "dr_oaep d") (simp add: sealed_def short_def raw_bytes_table)

lemma sample_meets:
  "meets (sample_env 1) (sample_draw 1) None (pool_new i ll) (sample_env 2) (sample_draw 2)"
  "meets (sample_env 2) (sample_draw 2) None (pool_new i ll) (sample_env 1) (sample_draw 1)"
  "meets (sample_env 1) (sample_draw 1) (Some (PeerID (2 # 3 # replicate 30 0))) (pool_new i ll)
     (sample_env 2) (sample_draw 2)"
  using sample_packets_mem
  by (simp_all add: meets_def sample_packets_law sample_packets_short short_sealed contains_def
      bt_contains_def bt_get_def pool_new_def del: sample_draw_sel(1))
    simp_all

end
