(* ===== verification/Node_Theorems.thy ===== *)
theory Node_Theorems
  imports Node Sample_Nodes
begin

text \<open>
  The properties of a node among its connected peers: which packets it survives, what they
  change, and what it answers. The sample node of the witnesses has one connection.
\<close>

section \<open>A node with a connection\<close>

definition sample_node :: "(u8, u8, unit, node_event list) Node" where
  "sample_node =
     (let node = node_new (sample_env 1) []
      in node\<lparr>nd_connections := connected (nd_connections node) (sample_peer 2) (new_connection 7 8 ''local-2'')\<rparr>)"

lemma sample_node_sel [simp]:
  "cp_connections (nd_connections sample_node) = [(sample_peer 2, new_connection 7 8 ''local-2'')]"
  "nd_env sample_node = sample_env 1" "cp_node_ref (nd_connections sample_node)"
  "nd_ping_id_counter sample_node = counter_default"
  by (simp_all add: sample_node_def node_new_def Let_def connected_def pool_new_def set_node_ref_def)

lemma sample_node_inv: "node_inv sample_node"
proof -
  have "wf_peer (PeerID (1 # 3 # replicate 30 0))" by (simp add: wf_peer_def)
  then have "pool_inv (nd_connections sample_node)"
    by (simp add: pool_inv_def sample_node_def node_new_def Let_def connected_def pool_new_def
        set_node_ref_def bt_inv_def peers_def) (simp add: sample_peer_def)
  then show ?thesis
    by (simp add: node_inv_def) (simp add: sample_node_def node_new_def Let_def connected_def pool_new_def
        set_node_ref_def)
qed

text \<open>The same node with a serialisation that knows the packet \<open>p\<close> only.\<close>

definition talking :: "Packet \<Rightarrow> (u8, u8, unit, node_event list) Node" where
  "talking p = sample_node\<lparr>nd_env := sample_base (table_codec [p]) 1\<rparr>"

lemma talking_sel [simp]:
  "nd_connections (talking p) = nd_connections sample_node" "nd_dht (talking p) = nd_dht sample_node"
  "raw_bytes (ne_codec (nd_env (talking p))) p = Inr [0]"
  by (simp_all add: talking_def sample_base_def raw_bytes_table)

lemma talking_inv: "node_inv (talking p)"
  using sample_node_inv by (simp add: node_inv_def talking_def sample_base_def)

lemma talking_connection:
  "bt_get (cp_connections (nd_connections (talking p))) (sample_peer 2) = Some (new_connection 7 8 ''local-2'')"
  by (simp add: bt_get_def)

lemma talking_answers:
  "answer_find_peer (talking q) r = answer_find_peer sample_node r"
  "answer_find_value (talking q) v = answer_find_value sample_node v"
  by (simp_all only: answer_find_peer_def answer_find_value_def talking_sel)

lemma new_connection_stream: "pi_write_stream (new_connection w task addr) = w"
  by (simp add: new_connection_def)

section \<open>Properties\<close>

text \<open>
  C6: a packet of a connected peer makes the node panic exactly when it is one of the four packets
  of the handshake; every other packet, whatever it holds, is handled.
\<close>

theorem packet_panics_iff_handshake_packet:
  assumes "node_inv node" and "wf_packet p"
  shows "on_packet dbg shuffle send node n p = Panics \<longleftrightarrow>
    (\<exists>q. p = ProtocolVersion q) \<or> (\<exists>q. p = InitRsa q) \<or> (\<exists>q. p = InitAes q) \<or> (\<exists>q. p = Ehlo q)"
  unfolding on_packet_panics [OF assms] by (cases p) simp_all

theorem packet_panics_iff_handshake_packet_witness:
  "on_packet True (\<lambda>ps. ps) (\<lambda>c e. Some (c @ [e])) sample_node (sample_peer 2) (Ehlo \<lparr>eh_addr = ''x''\<rparr>) = Panics
   \<and> on_packet True (\<lambda>ps. ps) (\<lambda>c e. Some (c @ [e])) sample_node (sample_peer 2) (Ping \<lparr>pp_ping_id = 1\<rparr>) \<noteq> Panics"
  using packet_panics_iff_handshake_packet [OF sample_node_inv, of "Ehlo \<lparr>eh_addr = ''x''\<rparr>"]
    packet_panics_iff_handshake_packet [OF sample_node_inv, of "Ping \<lparr>pp_ping_id = 1\<rparr>"]
  by simp

text \<open>
  C7: handling a packet keeps the invariant of the node (the connection table is ordered, holds
  only well-formed identities and never the node itself; the pool can reach its node and agrees
  with it on identity and log level; the store is well formed). Only a quit packet changes the
  table, by removing its sender, and no packet changes what is stored in the DHT.
\<close>

theorem packet_keeps_invariant:
  assumes "node_inv node" and "on_packet dbg shuffle send node n p = Returns (node', effs)"
  shows "node_inv node' \<and> stored (nd_dht node') = stored (nd_dht node)
    \<and> bt_get (cp_connections (nd_connections node')) =
        (if \<exists>q. p = Quit q then (bt_get (cp_connections (nd_connections node)))(n := None)
         else bt_get (cp_connections (nd_connections node)))"
proof (intro conjI)
  have inv: "bt_inv (cp_connections (nd_connections node))"
    using assms(1) pool_invD(1) by (simp add: node_inv_def)
  show "node_inv node'" by (rule on_packet_inv [OF assms])
  show "stored (nd_dht node') = stored (nd_dht node)" by (rule on_packet_stored [OF assms])
  show "bt_get (cp_connections (nd_connections node')) =
        (if \<exists>q. p = Quit q then (bt_get (cp_connections (nd_connections node)))(n := None)
         else bt_get (cp_connections (nd_connections node)))"
    unfolding on_packet_connections [OF assms(2)] using inv
    by (cases p) (auto simp: fun_eq_iff bt.get_del)
qed

theorem packet_keeps_invariant_witness:
  "\<exists>node' effs. on_packet True (\<lambda>ps. ps) (\<lambda>c e. Some (c @ [e])) sample_node (sample_peer 2)
      (Quit \<lparr>q_reason_code = ''bye'', q_message = None, q_report_fault = False\<rparr>) = Returns (node', effs)
    \<and> node_inv node' \<and> bt_get (cp_connections (nd_connections node')) (sample_peer 2) = None"
proof -
  let ?q = "Quit \<lparr>q_reason_code = ''bye'', q_message = None, q_report_fault = False\<rparr>"
  have "on_packet True (\<lambda>ps. ps) (\<lambda>c e. Some (c @ [e])) sample_node (sample_peer 2) ?q \<noteq> Panics"
    using on_packet_panics [OF sample_node_inv, of ?q] by simp
  then obtain node' effs where
    r: "on_packet True (\<lambda>ps. ps) (\<lambda>c e. Some (c @ [e])) sample_node (sample_peer 2) ?q = Returns (node', effs)"
    by (metis outcome.exhaust surj_pair)
  from packet_keeps_invariant [OF sample_node_inv r] r show ?thesis by auto
qed

text \<open>
  C15: a connected peer that asks for a peer gets one frame on its stream, whose list holds at most
  32 and at most the requested number of connected peers, sorted by their distance to the
  target, every peer left out being strictly further away than every one in the list; the target
  itself comes first if it is connected.
\<close>

theorem find_peer_answer:
  assumes "node_inv node" and "wf_peer (fp_peer_id p)"
    and "bt_get (cp_connections (nd_connections node)) n = Some peer"
    and "raw_bytes (ne_codec (nd_env node)) (FindPeerResp (answer_find_peer node p)) = Inr bs"
  shows "(\<exists>node'. on_packet dbg shuffle send node n (FindPeer p) =
        Returns (node', [Wrote (pi_write_stream peer) (write_frame bs)]))
    \<and> (let ans = fpr_peers (answer_find_peer node p); conns = peers_with_addrs (nd_connections node)
       in set ans \<subseteq> set conns
        \<and> length ans = min (length conns) (min 32 (unat (fp_limit p)))
        \<and> sorted (map (\<lambda>e. distance (fst e) (fp_peer_id p)) ans)
        \<and> (\<forall>x\<in>set ans. \<forall>y\<in>set conns - set ans. distance (fst x) (fp_peer_id p) < distance (fst y) (fp_peer_id p))
        \<and> (contains (nd_connections node) (fp_peer_id p) \<and> fp_limit p > 0 \<longrightarrow> fst (hd ans) = fp_peer_id p))"
proof (intro conjI)
  have inv: "pool_inv (nd_connections node)" and ref: "cp_node_ref (nd_connections node)"
    using assms(1) by (simp_all add: node_inv_def)
  show "\<exists>node'. on_packet dbg shuffle send node n (FindPeer p) =
        Returns (node', [Wrote (pi_write_stream peer) (write_frame bs)])"
    using assms(3,4) by (simp add: sending_def send_packet_Returns [OF ref] event_eq handled_def)
  let ?conns = "peers_with_addrs (nd_connections node)" and ?key = "fp_peer_id p"
  let ?n = "min 32 (unat (fp_limit p))"
  have ans: "fpr_peers (answer_find_peer node p) = closest_peers ?n ?key ?conns"
    by (simp add: answer_find_peer_def unat_min)
  have best: "\<forall>x\<in>set (closest_peers ?n ?key ?conns). \<forall>y\<in>set ?conns - set (closest_peers ?n ?key ?conns).
      distance (fst x) ?key < distance (fst y) ?key"
    using closest_peers_best [OF assms(2) peers_wf [OF inv] peers_distinct_fst [OF inv]] by blast
  have first: "fst (hd (closest_peers ?n ?key ?conns)) = ?key"
    if "contains (nd_connections node) ?key" and "fp_limit p > 0"
  proof -
    have "?key \<in> fst ` set ?conns"
      using that(1) by (force simp: contains_def bt_contains_def bt_get_def peers_with_addrs_def dest: map_of_SomeD)
    moreover have "unat (fp_limit p) > 0" using that(2) by (simp add: word_less_nat_alt)
    ultimately show ?thesis
      using xor_dist.key_first [OF assms(2) peers_wf [OF inv]] by (simp add: closest_peers_def hd_take)
  qed
  have "sorted (map (\<lambda>e. distance (fst e) ?key) (closest_peers ?n ?key ?conns))"
    by (simp add: closest_peers_def flip: take_map)
  with best first show "let ans = fpr_peers (answer_find_peer node p); conns = peers_with_addrs (nd_connections node)
       in set ans \<subseteq> set conns
        \<and> length ans = min (length conns) (min 32 (unat (fp_limit p)))
        \<and> sorted (map (\<lambda>e. distance (fst e) (fp_peer_id p)) ans)
        \<and> (\<forall>x\<in>set ans. \<forall>y\<in>set conns - set ans. distance (fst x) (fp_peer_id p) < distance (fst y) (fp_peer_id p))
        \<and> (contains (nd_connections node) (fp_peer_id p) \<and> fp_limit p > 0 \<longrightarrow> fst (hd ans) = fp_peer_id p)"
    unfolding Let_def ans using set_closest_peers by simp
qed

theorem find_peer_answer_witness:
  "let p = \<lparr>fp_request_id = 3, fp_peer_id = sample_peer 2, fp_limit = 5\<rparr>;
       node = talking (FindPeerResp (answer_find_peer sample_node p))
   in \<exists>node'. on_packet True (\<lambda>ps. ps) (\<lambda>c e. Some (c @ [e])) node (sample_peer 2) (FindPeer p) =
        Returns (node', [Wrote 7 (write_frame [0])])"
proof -
  let ?p = "\<lparr>fp_request_id = 3, fp_peer_id = sample_peer 2, fp_limit = 5\<rparr>"
  let ?node = "talking (FindPeerResp (answer_find_peer sample_node ?p))"
  have "raw_bytes (ne_codec (nd_env ?node)) (FindPeerResp (answer_find_peer ?node ?p)) = Inr [0]"
    by (simp only: talking_answers talking_sel)
  from find_peer_answer [OF talking_inv _ talking_connection this] show ?thesis
    unfolding Let_def new_connection_stream by simp
qed

text \<open>
  C16: a connected peer that asks for the values of a key gets them, in the order of their storage and
  at most 64, if any are stored; otherwise it gets the connected peers closest to the key, at
  most 32, and every peer left out is strictly further away.
\<close>

theorem find_value_answer:
  assumes "node_inv node" and "wf_peer (fv_key p)"
    and "bt_get (cp_connections (nd_connections node)) n = Some peer"
    and "raw_bytes (ne_codec (nd_env node)) (FindDhtValueResp (snd (answer_find_value node p))) = Inr bs"
  shows "(\<exists>node'. on_packet dbg shuffle send node n (FindDhtValue p) =
        Returns (node', [Wrote (pi_write_stream peer) (write_frame bs)]))
    \<and> (case fvr_result (snd (answer_find_value node p)) of
         Found vs \<Rightarrow> stored (nd_dht node) (fv_key p) \<noteq> []
           \<and> vs = take (min 64 (unat (fv_limit_values p))) (stored (nd_dht node) (fv_key p))
       | NotFound ps \<Rightarrow> stored (nd_dht node) (fv_key p) = []
           \<and> length ps = min (pool_len (nd_connections node)) (min 32 (unat (fv_limit_peers p)))
           \<and> (\<forall>x\<in>set ps. \<forall>y\<in>set (peers_with_addrs (nd_connections node)) - set ps.
                distance (fst x) (fv_key p) < distance (fst y) (fv_key p)))"
proof (intro conjI)
  have inv: "pool_inv (nd_connections node)" and ref: "cp_node_ref (nd_connections node)"
    using assms(1) by (simp_all add: node_inv_def)
  show "\<exists>node'. on_packet dbg shuffle send node n (FindDhtValue p) =
        Returns (node', [Wrote (pi_write_stream peer) (write_frame bs)])"
    using assms(3,4)
    by (simp add: sending_def send_packet_Returns [OF ref] event_eq handled_def case_prod_unfold Let_def)
  have "length (peers_with_addrs (nd_connections node)) = pool_len (nd_connections node)"
    by (simp add: peers_with_addrs_def pool_len_def)
  with closest_peers_best [OF assms(2) peers_wf [OF inv] peers_distinct_fst [OF inv]]
  show "case fvr_result (snd (answer_find_value node p)) of
         Found vs \<Rightarrow> stored (nd_dht node) (fv_key p) \<noteq> []
           \<and> vs = take (min 64 (unat (fv_limit_values p))) (stored (nd_dht node) (fv_key p))
       | NotFound ps \<Rightarrow> stored (nd_dht node) (fv_key p) = []
           \<and> length ps = min (pool_len (nd_connections node)) (min 32 (unat (fv_limit_peers p)))
           \<and> (\<forall>x\<in>set ps. \<forall>y\<in>set (peers_with_addrs (nd_connections node)) - set ps.
                distance (fst x) (fv_key p) < distance (fst y) (fv_key p))"
    unfolding find_value_result by auto
qed

theorem find_value_answer_witness:
  "let p = \<lparr>fv_request_id = 3, fv_key = sample_peer 9, fv_limit_peers = 5, fv_limit_values = 5\<rparr>;
       node = talking (FindDhtValueResp (snd (answer_find_value sample_node p)))
   in \<exists>node'. on_packet True (\<lambda>ps. ps) (\<lambda>c e. Some (c @ [e])) node (sample_peer 2) (FindDhtValue p) =
        Returns (node', [Wrote 7 (write_frame [0])])"
proof -
  let ?p = "\<lparr>fv_request_id = 3, fv_key = sample_peer 9, fv_limit_peers = 5, fv_limit_values = 5\<rparr>"
  let ?node = "talking (FindDhtValueResp (snd (answer_find_value sample_node ?p)))"
  have "raw_bytes (ne_codec (nd_env ?node)) (FindDhtValueResp (snd (answer_find_value ?node ?p))) = Inr [0]"
    by (simp only: talking_answers talking_sel)
  from find_value_answer [OF talking_inv _ talking_connection this] show ?thesis
    unfolding Let_def new_connection_stream by simp
qed



end
