(* ===== verification/Dht_Lookup.thy ===== *)
theory Dht_Lookup
  imports Node_Theorems
begin

text \<open>
  The iterative lookup of a key in the DHT (\<open>src/node/dht.rs\<close>): the question put to one
  provider, and the loop that keeps up to three questions in flight, takes the closest
  providers first and learns new ones from the answers. Which question is answered first,
  and how, is decided by the network: an event per answer.
\<close>

section \<open>One provider\<close>

datatype SingleProviderLookupError =
    FailedToConnect
  | RequestIdMismatch
  | LookupIoError lib_error
  | LookupProtocolError lib_error
  | LookupHandshakeError HandshakeError

text \<open>Drawing an identifier, listening, and sending the request.\<close>

definition value_request :: "u32 \<Rightarrow> KeyID \<Rightarrow> FindDhtValuePacket" where
  "value_request request_id key =
     \<lparr>fv_request_id = request_id, fv_key = key, fv_limit_peers = MAX_DHT_PEERS_RETURNED,
      fv_limit_values = MAX_DHT_VALUES_RETURNED\<rparr>"

definition ask_provider ::
  "'c \<Rightarrow> ('pk, 'sk, 'rng, 'c) Node \<Rightarrow> KeyID \<Rightarrow> PeerID \<Rightarrow>
    (('pk, 'sk, 'rng, 'c) Node \<times> effect list \<times> u32) outcome" where
  "ask_provider fresh node key peer_id =
     (let (request_id, counter) = counter_next (nd_dht_req_counter node);
          node = node\<lparr>nd_dht_req_counter := counter,
                      nd_on_find_dht_value_resp_packet := listen fresh (nd_on_find_dht_value_resp_packet node)\<rparr>
      in bind_outcome
           (sending node peer_id (FindDhtValue (value_request request_id key)) (handled node))
           (\<lambda>(node, effs). Returns (node, effs, request_id)))"

definition is_value_resp :: "PeerID \<Rightarrow> u32 \<Rightarrow> node_event \<Rightarrow> bool" where
  "is_value_resp peer_id request_id e =
     (case e of EvFindDhtValueResp n p \<Rightarrow> fvr_request_id p = request_id \<and> n = peer_id | _ \<Rightarrow> False)"

definition mission_accomplished :: QuitPacket where
  "mission_accomplished =
     \<lparr>q_reason_code = ''MissionAccomplished'', q_message = None, q_report_fault = False\<rparr>"

text \<open>
  What follows the answer: a provider that was connected for this request only (\<open>connected\<close>
  is false) is disconnected.
\<close>

definition provider_answered ::
  "('c, node_event) channel_send \<Rightarrow> ('pk, 'sk, 'rng, 'c) Node \<Rightarrow> bool \<Rightarrow> PeerID \<Rightarrow> u32 \<Rightarrow>
    FindDhtValueRespPacket \<Rightarrow>
    (('pk, 'sk, 'rng, 'c) Node \<times> effect list \<times> (SingleProviderLookupError + DhtLookupResult)) outcome" where
  "provider_answered send node already_connected peer_id request_id p =
     (if already_connected then Returns (node, [], Inr (fvr_result p))
      else bind_outcome (disconnecting send node peer_id mission_accomplished)
        (\<lambda>(node, effs). Returns (node, effs,
           if fvr_request_id p \<noteq> request_id then Inl RequestIdMismatch else Inr (fvr_result p))))"

section \<open>The loop\<close>

type_synonym provider = "PeerID \<times> string"

record lookup =
  lk_already_queried :: "provider set"
  lk_providers :: "provider list"
  lk_concurrent :: "provider list"
  lk_steps :: nat
  lk_should_complete :: bool

text \<open>
  \<open>sort_by_key(..)\<close> then \<open>reverse()\<close>, so that \<open>pop\<close> takes the closest provider.
\<close>

definition by_distance :: "KeyID \<Rightarrow> provider list \<Rightarrow> provider list" where
  "by_distance key = sort_key (\<lambda>e. distance (fst e) key)"

definition lookup_new :: "KeyID \<Rightarrow> provider list \<Rightarrow> lookup" where
  "lookup_new key ps =
     \<lparr>lk_already_queried = {}, lk_providers = rev (by_distance key ps), lk_concurrent = [],
      lk_steps = 0, lk_should_complete = False\<rparr>"

definition start_lookup :: "KeyID \<Rightarrow> provider \<Rightarrow> lookup \<Rightarrow> lookup" where
  "start_lookup key provider s =
     s\<lparr>lk_providers := butlast (lk_providers s),
       lk_should_complete := (fst provider = key \<or> lk_should_complete s),
       lk_already_queried := insert provider (lk_already_queried s),
       lk_steps := lk_steps s + 1,
       lk_concurrent := lk_concurrent s @ [provider]\<rparr>"

text \<open>The inner \<open>while\<close>; \<open>None\<close> is its \<open>return None\<close>.\<close>

function fill_lookups :: "KeyID \<Rightarrow> lookup \<Rightarrow> lookup option" where
  "fill_lookups key s =
     (if length (lk_concurrent s) < KADEMLIA_ALPHA \<and> \<not> lk_should_complete s then
        (if lk_providers s \<noteq> [] then fill_lookups key (start_lookup key (last (lk_providers s)) s)
         else if lk_concurrent s = [] then None
         else Some s)
      else Some s)"
  by pat_completeness auto
termination
  by (relation "measure (\<lambda>(key, s). length (lk_providers s))") (auto simp: start_lookup_def)

declare fill_lookups.simps [simp del]

text \<open>
  A round of the outer loop up to \<open>select_all\<close>: the state in which the lookup waits, its
  result, the panic of \<open>select_all\<close> on an empty list, or the panic of a lookup in flight.
\<close>

datatype lookup_flow = Searching lookup | Finished "DhtValue list option" | Stuck | Died

definition await_any :: "KeyID \<Rightarrow> lookup \<Rightarrow> lookup_flow" where
  "await_any key s =
     (case fill_lookups key s of
        None \<Rightarrow> Finished None
      | Some s \<Rightarrow>
          if lk_concurrent s = [] \<and> lk_should_complete s then Finished None
          else if lk_concurrent s = [] then Stuck
          else Searching s)"

text \<open>
  An event: which of the lookups in flight finishes first (modulo their number), and its
  result. All lookups in flight belong to one task, so that a panic in one of them (\<open>connect\<close>
  refuses some addresses in this way) ends the whole lookup.
\<close>

type_synonym lookup_event = "nat \<times> (SingleProviderLookupError + DhtLookupResult) outcome"

definition finish_lookup :: "nat \<Rightarrow> lookup \<Rightarrow> lookup" where
  "finish_lookup i s =
     (let j = i mod length (lk_concurrent s)
      in s\<lparr>lk_concurrent := take j (lk_concurrent s) @ drop (Suc j) (lk_concurrent s)\<rparr>)"

definition learn :: "KeyID \<Rightarrow> provider list \<Rightarrow> lookup \<Rightarrow> lookup" where
  "learn key ps s =
     s\<lparr>lk_providers :=
        rev (remdups_adj (by_distance key
          (filter (\<lambda>r. r \<notin> lk_already_queried s) (lk_providers s @ ps))))\<rparr>"

text \<open>The rest of the round, and the next one up to its \<open>select_all\<close>.\<close>

definition on_result :: "KeyID \<Rightarrow> lookup \<Rightarrow> lookup_event \<Rightarrow> lookup_flow" where
  "on_result key s ev =
     (let s = finish_lookup (fst ev) s
      in case snd ev of
           Panics \<Rightarrow> Died
         | Returns (Inr (Found values)) \<Rightarrow> Finished (Some values)
         | Returns (Inr (NotFound ps)) \<Rightarrow> await_any key (learn key ps s)
         | Returns (Inl e) \<Rightarrow> await_any key s)"

fun lookup_run :: "KeyID \<Rightarrow> lookup_flow \<Rightarrow> lookup_event list \<Rightarrow> lookup_flow" where
  "lookup_run key (Searching s) (ev # evs) = lookup_run key (on_result key s ev) evs"
| "lookup_run key r _ = r"

definition dht_lookup ::
  "('pk, 'sk, 'rng, 'c) Node \<Rightarrow> KeyID \<Rightarrow> lookup_event list \<Rightarrow> lookup_flow" where
  "dht_lookup node key evs =
     lookup_run key (await_any key (lookup_new key (peers_with_addrs (nd_connections node)))) evs"

section \<open>What one round does\<close>

lemma fill_lookups_Some:
  "fill_lookups key s = Some s' \<Longrightarrow>
    \<exists>popped. lk_providers s = lk_providers s' @ rev popped
      \<and> lk_concurrent s' = lk_concurrent s @ popped
      \<and> lk_already_queried s' = lk_already_queried s \<union> set popped
      \<and> (lk_should_complete s \<longrightarrow> popped = [])
      \<and> length popped \<le> KADEMLIA_ALPHA - length (lk_concurrent s)"
proof (induction key s arbitrary: s' rule: fill_lookups.induct)
  case (1 key s)
  show ?case
  proof (cases "length (lk_concurrent s) < KADEMLIA_ALPHA \<and> \<not> lk_should_complete s \<and> lk_providers s \<noteq> []")
    case True
    let ?t = "start_lookup key (last (lk_providers s)) s"
    from True 1(2) have "fill_lookups key ?t = Some s'"
      by (simp add: fill_lookups.simps [of key s])
    from 1(1) [OF _ _ this] True obtain popped where
      "lk_providers ?t = lk_providers s' @ rev popped" "lk_concurrent s' = lk_concurrent ?t @ popped"
      "lk_already_queried s' = lk_already_queried ?t \<union> set popped"
      "length popped \<le> KADEMLIA_ALPHA - length (lk_concurrent ?t)"
      by blast
    moreover from this(1) True have "lk_providers s = lk_providers s' @ rev (last (lk_providers s) # popped)"
      using append_butlast_last_id [of "lk_providers s"] by (simp add: start_lookup_def)
    ultimately show ?thesis
      using True by (intro exI [of _ "last (lk_providers s) # popped"]) (auto simp: start_lookup_def)
  next
    case False
    with 1(2) have "s' = s"
      by (auto simp: fill_lookups.simps [of key s] split: if_splits)
    then show ?thesis by simp
  qed
qed

lemma fill_lookups_busy:
  "fill_lookups key s = Some s' \<Longrightarrow> \<not> lk_should_complete s' \<Longrightarrow> lk_concurrent s' \<noteq> []"
proof (induction key s arbitrary: s' rule: fill_lookups.induct)
  case (1 key s)
  then show ?case
    by (auto simp: fill_lookups.simps [of key s] KADEMLIA_ALPHA_def split: if_splits)
qed

text \<open>\<open>select_all\<close> is never called on an empty list.\<close>

lemma await_any_not_Stuck: "await_any key s \<noteq> Stuck"
  by (auto simp: await_any_def split: option.split dest: fill_lookups_busy)

lemma on_result_not_Stuck: "on_result key s ev \<noteq> Stuck"
  by (auto simp: on_result_def Let_def await_any_not_Stuck split: outcome.split sum.split DhtLookupResult.split)

lemma lookup_run_not_Stuck: "r \<noteq> Stuck \<Longrightarrow> lookup_run key r evs \<noteq> Stuck"
  by (induction key r evs rule: lookup_run.induct) (auto simp: on_result_not_Stuck)


section \<open>Closest first, three at a time\<close>

definition lookup_inv :: "KeyID \<Rightarrow> lookup \<Rightarrow> bool" where
  "lookup_inv key s \<longleftrightarrow>
     length (lk_concurrent s) \<le> KADEMLIA_ALPHA
   \<and> set (lk_concurrent s) \<subseteq> lk_already_queried s
   \<and> sorted (map (\<lambda>e. distance (fst e) key) (rev (lk_providers s)))"

lemma sorted_by_distance [simp]: "sorted (map (\<lambda>e. distance (fst e) key) (by_distance key ps))"
  by (simp add: by_distance_def)

lemma sorted_remdups_adj: "sorted (map f xs) \<Longrightarrow> sorted (map f (remdups_adj xs))"
proof (induction xs rule: remdups_adj.induct)
  case (3 x y xs)
  then show ?case
    by (auto simp: remdups_adj_set simp del: remdups_adj.simps(2))
qed simp_all

lemma lookup_new_inv: "lookup_inv key (lookup_new key ps)"
  by (simp add: lookup_inv_def lookup_new_def)

lemma learn_inv: "lookup_inv key s \<Longrightarrow> lookup_inv key (learn key ps s)"
  by (simp add: lookup_inv_def learn_def sorted_remdups_adj)

lemma finish_lookup_inv: "lookup_inv key s \<Longrightarrow> lookup_inv key (finish_lookup i s)"
  by (auto simp: lookup_inv_def finish_lookup_def Let_def dest: in_set_takeD in_set_dropD)

lemma fill_lookups_inv:
  assumes "lookup_inv key s" and "fill_lookups key s = Some s'"
  shows "lookup_inv key s'"
proof -
  from fill_lookups_Some [OF assms(2)] obtain popped where
    "lk_providers s = lk_providers s' @ rev popped" "lk_concurrent s' = lk_concurrent s @ popped"
    "lk_already_queried s' = lk_already_queried s \<union> set popped"
    "length popped \<le> KADEMLIA_ALPHA - length (lk_concurrent s)"
    by blast
  with assms(1) show ?thesis
    by (auto simp: lookup_inv_def sorted_append)
qed

lemma await_any_inv: "lookup_inv key s \<Longrightarrow> await_any key s = Searching s' \<Longrightarrow> lookup_inv key s'"
  by (auto simp: await_any_def fill_lookups_inv split: option.splits if_splits)

lemma on_result_inv: "lookup_inv key s \<Longrightarrow> on_result key s ev = Searching s' \<Longrightarrow> lookup_inv key s'"
  by (auto simp: on_result_def Let_def finish_lookup_inv learn_inv elim!: await_any_inv [rotated]
      split: outcome.splits sum.splits DhtLookupResult.splits)

text \<open>What the next question goes to is at least as close as everything known.\<close>

lemma lookup_inv_closest:
  assumes "lookup_inv key s" and "lk_providers s \<noteq> []" and "r \<in> set (lk_providers s)"
  shows "distance (fst (last (lk_providers s))) key \<le> distance (fst r) key"
proof -
  let ?f = "\<lambda>e. distance (fst e) key"
  have "lk_providers s = butlast (lk_providers s) @ [last (lk_providers s)]"
    using assms(2) by simp
  then obtain ps where ps: "lk_providers s = ps @ [last (lk_providers s)]" by blast
  with assms(1) have "sorted (map ?f (rev (ps @ [last (lk_providers s)])))"
    by (metis lookup_inv_def)
  then have "\<forall>q\<in>set ps. ?f (last (lk_providers s)) \<le> ?f q" by simp
  moreover have "r \<in> set ps \<or> r = last (lk_providers s)"
    using assms(3) by (subst (asm) ps) auto
  ultimately show ?thesis by auto
qed

section \<open>The lookup ends\<close>

text \<open>
  One round between two waits of the lookup, where every peer that an answer suggests is in
  \<open>U\<close>.
\<close>

inductive lookup_step :: "KeyID \<Rightarrow> provider set \<Rightarrow> lookup \<Rightarrow> lookup \<Rightarrow> bool" for key U where
  "on_result key s ev = Searching s' \<Longrightarrow> (\<forall>ps. snd ev = Returns (Inr (NotFound ps)) \<longrightarrow> set ps \<subseteq> U) \<Longrightarrow>
    lookup_step key U s s'"


definition within :: "provider set \<Rightarrow> lookup \<Rightarrow> bool" where
  "within U s \<longleftrightarrow>
     set (lk_providers s) \<subseteq> U \<and> lk_already_queried s \<subseteq> U \<and> lk_concurrent s \<noteq> []"

definition all_fresh :: "lookup \<Rightarrow> bool" where
  "all_fresh s \<longleftrightarrow> set (lk_providers s) \<inter> lk_already_queried s = {}"

text \<open>
  What is left to do: the peers never asked, then the lookups that can still be started on
  peers asked before. Once an answer has been learnt every known provider is a new one.
\<close>

definition work_left :: "provider set \<Rightarrow> lookup \<Rightarrow> nat \<times> nat" where
  "work_left U s =
     (card (U - lk_already_queried s),
      length (lk_concurrent s) + (if all_fresh s then 0 else 2 * length (lk_providers s)))"

lemma await_any_Searching:
  assumes "await_any key t = Searching s'"
  obtains popped where "lk_providers t = lk_providers s' @ rev popped"
    and "lk_concurrent s' = lk_concurrent t @ popped"
    and "lk_already_queried s' = lk_already_queried t \<union> set popped"
    and "lk_concurrent s' \<noteq> []"
proof -
  from assms have f: "fill_lookups key t = Some s'" and "lk_concurrent s' \<noteq> []"
    by (auto simp: await_any_def split: option.splits if_splits)
  with fill_lookups_Some [OF f] that show ?thesis by blast
qed

lemma await_any_work:
  assumes "await_any key t = Searching s'" and "finite U"
    and "set (lk_providers t) \<subseteq> U" and "lk_already_queried t \<subseteq> U"
    and "length (lk_concurrent t) + (if all_fresh t then 0 else 2 * length (lk_providers t)) < m"
  shows "within U s' \<and> (card (U - lk_already_queried s') < card (U - lk_already_queried t)
    \<or> lk_already_queried s' = lk_already_queried t \<and> snd (work_left U s') < m)"
proof -
  from await_any_Searching [OF assms(1)] obtain popped where
    p: "lk_providers t = lk_providers s' @ rev popped" and
    c: "lk_concurrent s' = lk_concurrent t @ popped" and
    q: "lk_already_queried s' = lk_already_queried t \<union> set popped" and
    ne: "lk_concurrent s' \<noteq> []" .
  have popped: "set popped \<subseteq> U" using assms(3) p by auto
  have "within U s'"
    using assms(3,4) p q ne popped by (auto simp: within_def)
  moreover have "card (U - lk_already_queried s') < card (U - lk_already_queried t)
      \<or> lk_already_queried s' = lk_already_queried t \<and> snd (work_left U s') < m"
  proof (cases "set popped \<subseteq> lk_already_queried t")
    case False
    with popped q have "U - lk_already_queried s' \<subset> U - lk_already_queried t" by auto
    then show ?thesis using assms(2) by (simp add: psubset_card_mono)
  next
    case True
    then have same: "lk_already_queried s' = lk_already_queried t" using q by auto
    have "snd (work_left U s') < m"
    proof (cases "all_fresh t")
      case fresh: True
      have "set popped \<subseteq> set (lk_providers t)" by (simp add: p)
      then have "set popped \<subseteq> set (lk_providers t) \<inter> lk_already_queried t"
        using True by (rule Int_greatest)
      also have "\<dots> = {}" using fresh by (simp only: all_fresh_def)
      finally have "set popped = {}" by (rule subset_empty [THEN iffD1])
      then have "popped = []" by (simp only: set_empty)
      with fresh p c same assms(5) show ?thesis by (auto simp: work_left_def all_fresh_def)
    next
      case False
      with assms(5) p c show ?thesis by (auto simp: work_left_def)
    qed
    with same show ?thesis by simp
  qed
  ultimately show ?thesis by simp
qed

lemma finish_lookup_less: "lk_concurrent s \<noteq> [] \<Longrightarrow> length (lk_concurrent (finish_lookup i s)) < length (lk_concurrent s)"
proof -
  assume "lk_concurrent s \<noteq> []"
  then have "i mod length (lk_concurrent s) < length (lk_concurrent s)" by simp
  then show ?thesis by (simp add: finish_lookup_def Let_def)
qed

lemma finish_lookup_frame [simp]:
  "lk_providers (finish_lookup i s) = lk_providers s"
  "lk_already_queried (finish_lookup i s) = lk_already_queried s"
  "all_fresh (finish_lookup i s) = all_fresh s"
  by (simp_all add: finish_lookup_def Let_def all_fresh_def)

lemma set_learn: "set (lk_providers (learn key ps s)) = (set (lk_providers s) \<union> set ps) - lk_already_queried s"
  by (auto simp: learn_def by_distance_def)

lemma lookup_step_work:
  assumes "lookup_step key U s s'" and "finite U" and "within U s"
  shows "within U s' \<and> (work_left U s', work_left U s) \<in> less_than <*lex*> less_than"
  using assms(1)
proof (cases rule: lookup_step.cases)
  case (1 ev)
  let ?t = "finish_lookup (fst ev) s"
  note less = finish_lookup_less [of s "fst ev"]
  have s: "set (lk_providers s) \<subseteq> U" "lk_already_queried s \<subseteq> U" "lk_concurrent s \<noteq> []"
    using assms(3) by (simp_all add: within_def)
  have "\<exists>t. await_any key t = Searching s' \<and> set (lk_providers t) \<subseteq> U \<and> lk_already_queried t = lk_already_queried s
    \<and> length (lk_concurrent t) + (if all_fresh t then 0 else 2 * length (lk_providers t)) < snd (work_left U s)"
  proof (cases "snd ev")
    case Panics
    with 1 show ?thesis by (simp add: on_result_def Let_def)
  next
    case (Returns res)
    show ?thesis
    proof (cases res)
      case (Inl e)
      with Returns 1 s less show ?thesis
        by (intro exI [of _ ?t]) (auto simp: on_result_def Let_def work_left_def)
    next
      case (Inr r)
      show ?thesis
      proof (cases r)
        case (Found vs)
        with Returns Inr 1 show ?thesis by (simp add: on_result_def Let_def)
      next
        case (NotFound ps)
        have "all_fresh (learn key ps ?t)" by (auto simp: all_fresh_def set_learn) (auto simp: learn_def)
        moreover have "lk_concurrent (learn key ps ?t) = lk_concurrent ?t"
          "lk_already_queried (learn key ps ?t) = lk_already_queried s" by (simp_all add: learn_def)
        moreover have "set (lk_providers (learn key ps ?t)) \<subseteq> U"
          using s 1(2) Returns Inr NotFound by (auto simp: set_learn)
        ultimately show ?thesis
          using Returns Inr NotFound 1 s less
          by (intro exI [of _ "learn key ps ?t"]) (auto simp: on_result_def Let_def work_left_def)
      qed
    qed
  qed
  then obtain t where t: "await_any key t = Searching s'" "set (lk_providers t) \<subseteq> U"
    "lk_already_queried t = lk_already_queried s"
    "length (lk_concurrent t) + (if all_fresh t then 0 else 2 * length (lk_providers t)) < snd (work_left U s)"
    by blast
  with await_any_work [OF t(1) assms(2) t(2) _ t(4)] s show ?thesis
    by (auto simp: work_left_def)
qed

lemma no_infinite_lookup:
  assumes "finite U" and "within U (f 0)" and "\<And>i. lookup_step key U (f i) (f (Suc i))"
  shows False
proof -
  have "within U (f i)" for i
    by (induction i) (use assms lookup_step_work in blast)+
  then have "(work_left U (f (Suc i)), work_left U (f i)) \<in> less_than <*lex*> less_than" for i
    using assms lookup_step_work by blast
  then have "\<exists>g. \<forall>i. (g (Suc i), g i) \<in> less_than <*lex*> less_than"
    by (intro exI [of _ "\<lambda>i. work_left U (f i)"]) simp
  moreover have "wf (less_than <*lex*> less_than)" by auto
  ultimately show False unfolding wf_iff_no_infinite_down_chain by simp
qed


section \<open>Runs\<close>

lemma await_any_no_value: "await_any key s \<noteq> Finished (Some vs)"
  by (auto simp: await_any_def split: option.split)

lemma on_result_value:
  "on_result key s ev = Finished (Some vs) \<longleftrightarrow> snd ev = Returns (Inr (Found vs))"
  by (auto simp: on_result_def Let_def await_any_no_value split: outcome.split sum.split DhtLookupResult.split)

lemma lookup_run_value:
  "lookup_run key r evs = Finished (Some vs) \<Longrightarrow>
    r = Finished (Some vs) \<or> (\<exists>i. (i, Returns (Inr (Found vs))) \<in> set evs)"
proof (induction key r evs rule: lookup_run.induct)
  case (1 key s ev evs)
  then show ?case
    using on_result_value [of key s ev vs] by (cases ev) auto
qed auto

lemma lookup_run_inv:
  "lookup_run key r evs = Searching s' \<Longrightarrow> (\<And>s. r = Searching s \<Longrightarrow> lookup_inv key s) \<Longrightarrow> lookup_inv key s'"
  by (induction key r evs rule: lookup_run.induct) (auto dest: on_result_inv)

lemma dht_lookup_inv: "dht_lookup node key evs = Searching s \<Longrightarrow> lookup_inv key s"
  unfolding dht_lookup_def
  by (erule lookup_run_inv) (auto intro: await_any_inv lookup_new_inv)

text \<open>Once the node with the key itself is asked, no other question is started.\<close>

lemma fill_lookups_complete [simp]: "lk_should_complete s \<Longrightarrow> fill_lookups key s = Some s"
  by (simp add: fill_lookups.simps)

lemma on_result_complete:
  assumes "lk_should_complete s" and "on_result key s ev = Searching s'"
  shows "lk_should_complete s' \<and> lk_already_queried s' = lk_already_queried s
    \<and> Suc (length (lk_concurrent s')) = length (lk_concurrent s) \<or> lk_concurrent s = []"
proof -
  have f: "lk_should_complete (finish_lookup i s) = lk_should_complete s" for i
    by (simp add: finish_lookup_def Let_def)
  have l: "lk_should_complete (learn key ps t) = lk_should_complete t"
    "lk_already_queried (learn key ps t) = lk_already_queried t"
    "lk_concurrent (learn key ps t) = lk_concurrent t" for ps t
    by (simp_all add: learn_def)
  have len: "lk_concurrent s \<noteq> [] \<Longrightarrow> Suc (length (lk_concurrent (finish_lookup i s))) = length (lk_concurrent s)" for i
  proof -
    assume "lk_concurrent s \<noteq> []"
    then have "i mod length (lk_concurrent s) < length (lk_concurrent s)" by simp
    then show ?thesis by (simp add: finish_lookup_def Let_def)
  qed
  from assms show ?thesis
    using len by (auto simp: on_result_def Let_def await_any_def f l
        split: outcome.splits sum.splits DhtLookupResult.splits if_splits)
qed

section \<open>Duplicates\<close>

text \<open>
  \<open>dedup\<close> removes adjacent duplicates only, and providers are sorted by the distance of their
  identity, which says nothing about their address.
\<close>

lemma by_distance_same: "\<forall>e\<in>set ps. fst e = p \<Longrightarrow> by_distance key ps = ps"
proof -
  assume "\<forall>e\<in>set ps. fst e = p"
  then have "map (\<lambda>e. distance (fst e) key) ps = map (\<lambda>e. distance p key) ps" by simp
  then have "sorted (map (\<lambda>e. distance (fst e) key) ps)"
    by (simp only: map_replicate_const) simp
  then show ?thesis unfolding by_distance_def by (rule sort_key_id_if_sorted)
qed

lemma duplicate_queries:
  assumes "p \<noteq> key" and "q \<noteq> key" and "p \<noteq> q" and "a \<noteq> b"
  shows "\<exists>s s'. await_any key (lookup_new key [(q, c)]) = Searching s
    \<and> on_result key s (0, Returns (Inr (NotFound [(p, a), (p, b), (p, a)]))) = Searching s'
    \<and> lk_concurrent s' = [(p, a), (p, b), (p, a)]"
proof -
  let ?s = "start_lookup key (q, c) (lookup_new key [(q, c)])"
  have s: "?s = \<lparr>lk_already_queried = {(q, c)}, lk_providers = [], lk_concurrent = [(q, c)],
      lk_steps = 1, lk_should_complete = False\<rparr>"
    using assms(2) by (simp add: start_lookup_def lookup_new_def by_distance_def)
  have "await_any key (lookup_new key [(q, c)]) = Searching ?s"
    using assms(2) unfolding s
    by (simp add: await_any_def lookup_new_def by_distance_def fill_lookups.simps KADEMLIA_ALPHA_def
        start_lookup_def)
  moreover have "learn key [(p, a), (p, b), (p, a)] (finish_lookup 0 ?s) =
      \<lparr>lk_already_queried = {(q, c)}, lk_providers = [(p, a), (p, b), (p, a)], lk_concurrent = [],
       lk_steps = 1, lk_should_complete = False\<rparr>"
    using assms(3,4) by (simp add: s learn_def finish_lookup_def by_distance_same [of _ p])
  then have "\<exists>s'. on_result key ?s (0, Returns (Inr (NotFound [(p, a), (p, b), (p, a)]))) = Searching s'
      \<and> lk_concurrent s' = [(p, a), (p, b), (p, a)]"
    using assms(1)
    by (simp add: on_result_def await_any_def fill_lookups.simps KADEMLIA_ALPHA_def start_lookup_def)
  ultimately show ?thesis by blast
qed

section \<open>Answers\<close>

text \<open>
  The answer that the loops of the single-provider lookups break on, and what the caller makes of
  it, on the messages that the listener receives; \<open>None\<close> still waits.
\<close>

definition await_value_resp :: "PeerID \<Rightarrow> u32 \<Rightarrow> node_event list \<Rightarrow> FindDhtValueRespPacket option" where
  "await_value_resp peer_id request_id msgs =
     (case recv_until (is_value_resp peer_id request_id) msgs of
        Some (EvFindDhtValueResp n p, rest) \<Rightarrow> Some p
      | _ \<Rightarrow> None)"

lemma await_value_resp_Some:
  "await_value_resp peer_id request_id msgs = Some p \<Longrightarrow>
    fvr_request_id p = request_id \<and> EvFindDhtValueResp peer_id p \<in> set msgs"
  by (auto simp: await_value_resp_def recv_until_Some_iff is_value_resp_def
      split: option.splits node_event.splits)

text \<open>
  An answer is never attributed to another request or to another peer: what the lookup takes
  is a response of the provider it asked with the identifier it drew, so that the error
  \<open>RequestIdMismatch\<close> is never returned.
\<close>

theorem answers_match_requests:
  assumes "await_value_resp peer_id request_id msgs = Some p"
    and "provider_answered send node already_connected peer_id request_id p = Returns (node', effs, r)"
  shows "EvFindDhtValueResp peer_id p \<in> set msgs \<and> fvr_request_id p = request_id \<and> r = Inr (fvr_result p)"
  using await_value_resp_Some [OF assms(1)] assms(2)
  by (auto simp: provider_answered_def bind_outcome_Returns_iff split: if_splits)

theorem answers_match_requests_witness:
  "\<exists>msgs p. await_value_resp (sample_peer 2) 4 msgs = Some p
    \<and> EvFindDhtValueResp (sample_peer 2) p \<in> set msgs \<and> fvr_request_id p = 4"
proof -
  let ?p = "\<lparr>fvr_request_id = 4, fvr_result = NotFound []\<rparr>"
  let ?msgs = "[EvFindDhtValueResp (sample_peer 2) \<lparr>fvr_request_id = 3, fvr_result = NotFound []\<rparr>,
    EvFindDhtValueResp (sample_peer 1) ?p, EvFindDhtValueResp (sample_peer 2) ?p]"
  have a: "await_value_resp (sample_peer 2) 4 ?msgs = Some ?p"
    by (simp add: await_value_resp_def is_value_resp_def)
  have "provider_answered (\<lambda>c e. Some (c @ [e])) sample_node True (sample_peer 2) 4 ?p =
      Returns (sample_node, [], Inr (NotFound []))"
    by (simp add: provider_answered_def)
  from answers_match_requests [OF a this] a show ?thesis by blast
qed

text \<open>A lookup on the sample node, for the witnesses.\<close>

lemma sample_peers: "peers_with_addrs (nd_connections sample_node) = [(sample_peer 2, ''local-2'')]"
  by (simp add: peers_with_addrs_def new_connection_def)

lemma sample_lookup:
  "\<exists>s. dht_lookup sample_node (sample_peer 9) [] = Searching s \<and> lk_concurrent s = [(sample_peer 2, ''local-2'')]"
  by (simp add: dht_lookup_def sample_peers await_any_def lookup_new_def by_distance_def
      fill_lookups.simps start_lookup_def KADEMLIA_ALPHA_def)

section \<open>Properties\<close>

text \<open>
  C18: a lookup ends. As long as the peers that the answers suggest come from a finite set, no
  sequence of answers keeps it going for ever, although peers may be asked again and again within a
  round; and it never waits for an empty set of lookups, on which \<open>select_all\<close> would panic.
\<close>

theorem lookup_terminates:
  assumes "finite U" and "set (peers_with_addrs (nd_connections node)) \<subseteq> U"
    and "f 0 = s" and "dht_lookup node key [] = Searching s"
  shows "(\<exists>i. \<not> lookup_step key U (f i) (f (Suc i))) \<and> (\<forall>evs. dht_lookup node key evs \<noteq> Stuck)"
proof
  let ?new = "lookup_new key (peers_with_addrs (nd_connections node))"
  from assms(4) have "await_any key ?new = Searching s" by (simp add: dht_lookup_def)
  then obtain popped where "lk_providers ?new = lk_providers s @ rev popped"
    "lk_concurrent s = lk_concurrent ?new @ popped"
    "lk_already_queried s = lk_already_queried ?new \<union> set popped" "lk_concurrent s \<noteq> []"
    by (rule await_any_Searching)
  moreover have "set (lk_providers ?new) \<subseteq> U" "lk_already_queried ?new = {}"
    using assms(2) by (simp_all add: lookup_new_def by_distance_def)
  ultimately have "within U (f 0)" by (auto simp: within_def assms(3))
  with no_infinite_lookup [OF assms(1)] show "\<exists>i. \<not> lookup_step key U (f i) (f (Suc i))" by blast
  show "\<forall>evs. dht_lookup node key evs \<noteq> Stuck"
    by (simp add: dht_lookup_def lookup_run_not_Stuck await_any_not_Stuck)
qed

theorem lookup_terminates_witness:
  "\<exists>s. dht_lookup sample_node (sample_peer 9) [] = Searching s
    \<and> \<not> lookup_step (sample_peer 9) {(sample_peer 2, ''local-2'')} s s"
proof -
  obtain s where s: "dht_lookup sample_node (sample_peer 9) [] = Searching s"
    using sample_lookup by blast
  have "finite {(sample_peer 2, ''local-2'')}"
    and "set (peers_with_addrs (nd_connections sample_node)) \<subseteq> {(sample_peer 2, ''local-2'')}"
    by (simp_all add: sample_peers)
  from lookup_terminates [OF this _ s, of "\<lambda>i. s"] s show ?thesis by auto
qed



text \<open>
  A lookup returns values only as one provider sent them, a result ends it at once, and after it
  has asked the node whose identity is the key itself it asks nobody else: every further answer
  only empties the set in flight.
\<close>

theorem lookup_result:
  shows "(dht_lookup node key evs = Finished (Some vs) \<longrightarrow> (\<exists>i. (i, Returns (Inr (Found vs))) \<in> set evs))
    \<and> on_result key s (i, Returns (Inr (Found vs))) = Finished (Some vs)
    \<and> (lk_should_complete s \<and> lk_concurrent s \<noteq> [] \<and> on_result key s ev = Searching s' \<longrightarrow>
         lk_should_complete s' \<and> lk_already_queried s' = lk_already_queried s
         \<and> Suc (length (lk_concurrent s')) = length (lk_concurrent s))"
proof (intro conjI impI)
  show "\<exists>i. (i, Returns (Inr (Found vs))) \<in> set evs" if "dht_lookup node key evs = Finished (Some vs)"
    using lookup_run_value [OF that [unfolded dht_lookup_def]] by (simp add: await_any_no_value)
  show "on_result key s (i, Returns (Inr (Found vs))) = Finished (Some vs)"
    by (simp add: on_result_value)
  assume "lk_should_complete s \<and> lk_concurrent s \<noteq> [] \<and> on_result key s ev = Searching s'"
  then show "lk_should_complete s'" "lk_already_queried s' = lk_already_queried s"
    "Suc (length (lk_concurrent s')) = length (lk_concurrent s)"
    using on_result_complete by blast+
qed

theorem lookup_result_witness:
  "\<exists>evs. dht_lookup sample_node (sample_peer 9) evs = Finished (Some [])
    \<and> (\<exists>i. (i, Returns (Inr (Found []))) \<in> set evs)"
proof -
  obtain s where s: "dht_lookup sample_node (sample_peer 9) [] = Searching s"
    using sample_lookup by blast
  then have run: "dht_lookup sample_node (sample_peer 9) [(1, Returns (Inr (Found [])))] = Finished (Some [])"
    by (simp add: dht_lookup_def on_result_value)
  show ?thesis using conjunct1 [OF lookup_result, THEN mp, OF run] run by blast
qed

text \<open>
  C34: one answer can make the lookup ask the same provider twice at the same time: duplicates in a
  list of suggestions survive when another address of the same peer separates them, because only
  adjacent duplicates are removed from the list sorted by identity.
\<close>

theorem provider_asked_twice:
  assumes "p \<noteq> key" and "q \<noteq> key" and "p \<noteq> q" and "a \<noteq> b"
  shows "\<exists>s s'. await_any key (lookup_new key [(q, c)]) = Searching s
    \<and> on_result key s (0, Returns (Inr (NotFound [(p, a), (p, b), (p, a)]))) = Searching s'
    \<and> lk_concurrent s' = [(p, a), (p, b), (p, a)]"
  by (rule duplicate_queries [OF assms])

theorem provider_asked_twice_witness:
  "\<exists>s s'. await_any (sample_peer 1) (lookup_new (sample_peer 1) [(sample_peer 4, ''local-4'')]) = Searching s
    \<and> on_result (sample_peer 1) s (0, Returns (Inr (NotFound
        [(sample_peer 2, ''local-2''), (sample_peer 2, ''local-3''), (sample_peer 2, ''local-2'')]))) = Searching s'
    \<and> lk_concurrent s' = [(sample_peer 2, ''local-2''), (sample_peer 2, ''local-3''), (sample_peer 2, ''local-2'')]"
  by (rule provider_asked_twice) simp_all

end
