(* ===== verification/Discovery.thy ===== *)
theory Discovery
  imports Dht_Lookup
begin

text \<open>
  Filling a bucket (\<open>src/node/discovery.rs\<close>): the mask that selects the peers of the bucket,
  the question put to each known provider, and the loop over providers and candidates.
\<close>

section \<open>The mask of a bucket\<close>

definition partial_mask :: "nat \<Rightarrow> u8 option" where
  "partial_mask r =
     (if r = 0 then Some 0b11000000
      else if r = 1 then Some 0b11110000
      else if r = 2 then Some 0b11111100
      else if r = 3 then Some 0b11111111
      else None)"

definition bucket_mask :: "usize \<Rightarrow> bytes" where
  "bucket_mask bucket_level =
     replicate (bucket_level div 4) 0xFF @ [the (partial_mask (bucket_level mod 4))]"

lemma length_bucket_mask [simp]: "length (bucket_mask l) = Suc (l div 4)"
  by (simp add: bucket_mask_def)

lemma byte_and_0: "(d :: u8) AND 0b11000000 = 0 \<longleftrightarrow> byte_digit 0 d = 0"
  by (rule all_u8, simp only: byte_cases) (intro conjI; simp add: byte_digit_numeral)

lemma byte_and_1: "(d :: u8) AND 0b11110000 = 0 \<longleftrightarrow> byte_digit 0 d = 0 \<and> byte_digit 1 d = 0"
  by (rule all_u8, simp only: byte_cases) (intro conjI; simp add: byte_digit_numeral)

lemma byte_and_2:
  "(d :: u8) AND 0b11111100 = 0 \<longleftrightarrow> byte_digit 0 d = 0 \<and> byte_digit 1 d = 0 \<and> byte_digit 2 d = 0"
  by (rule all_u8, simp only: byte_cases) (intro conjI; simp add: byte_digit_numeral)

lemma byte_and_3: "(d :: u8) AND 0b11111111 = d"
  by (rule all_u8, simp only: byte_cases) (intro conjI; simp)

lemma byte_and_eq: "a AND m = b AND m \<longleftrightarrow> (a XOR b) AND m = (0 :: u8)"
proof -
  have "(a XOR b) AND m = (a AND m) XOR (b AND m)"
    by (rule bit_word_eqI) (auto simp: bit_simps)
  then show ?thesis by simp
qed

lemma partial_mask_digits:
  assumes "r < 4"
  shows "a AND the (partial_mask r) = b AND the (partial_mask r) \<longleftrightarrow>
    (\<forall>k\<le>r. byte_digit k a = byte_digit k b)"
proof -
  have "(a XOR b) AND the (partial_mask r) = 0 \<longleftrightarrow> (\<forall>k\<le>r. byte_digit k (a XOR b) = 0)"
  proof -
    consider "r = 0" | "r = 1" | "r = 2" | "r = 3" using assms by linarith
    then show ?thesis
    proof cases
      case 4
      have "a XOR b = 0 \<longleftrightarrow> (\<forall>k\<le>3. byte_digit k (a XOR b) = 0)"
        using byte_zero_iff_digits [of "a XOR b"] by (auto simp: numeral_eq_Suc less_Suc_eq_le)
      then show ?thesis using 4 byte_and_3 [of "a XOR b"] by (simp add: partial_mask_def)
    qed (auto simp: partial_mask_def byte_and_0 byte_and_1 byte_and_2 le_Suc_eq numeral_eq_Suc)
  qed
  then show ?thesis
    unfolding byte_and_eq [of a] by (simp only: byte_digit_xor xor_nat_eq_0)
qed

lemma byte_eq_digits: "(a :: u8) = b \<longleftrightarrow> (\<forall>k<4. byte_digit k a = byte_digit k b)"
  using byte_zero_iff_digits [of "a XOR b"] by (simp add: byte_digit_xor xor_nat_eq_0)

lemma matches_bucket_mask:
  "matches p q (bucket_mask l) \<longleftrightarrow> (\<forall>l'\<le>l. peer_digit l' p = peer_digit l' q)"
proof -
  let ?j = "l div 4" and ?r = "l mod 4"
  let ?eq = "\<lambda>i k. byte_digit k (peer_bytes p ! i) = byte_digit k (peer_bytes q ! i)"
  have "matches p q (bucket_mask l) \<longleftrightarrow>
      (\<forall>i<?j. peer_bytes p ! i = peer_bytes q ! i)
      \<and> peer_bytes p ! ?j AND the (partial_mask ?r) = peer_bytes q ! ?j AND the (partial_mask ?r)"
    using byte_and_3
    by (auto simp: matches_def bucket_mask_def nth_append less_Suc_eq)
  also have "\<dots> \<longleftrightarrow> (\<forall>i<?j. \<forall>r<4. ?eq i r) \<and> (\<forall>r\<le>?r. ?eq ?j r)"
    using partial_mask_digits [of ?r "peer_bytes p ! ?j" "peer_bytes q ! ?j"]
      byte_eq_digits [of "peer_bytes p ! i" "peer_bytes q ! i" for i] by simp
  also have "\<dots> \<longleftrightarrow> ((\<forall>i<?j. \<forall>r<4. ?eq i r) \<and> (\<forall>r<?r. ?eq ?j r)) \<and> ?eq ?j ?r"
    by (auto simp: le_less)
  also have "\<dots> \<longleftrightarrow> (\<forall>l'<l. peer_digit l' p = peer_digit l' q) \<and> peer_digit l p = peer_digit l q"
    using digits_below_iff [of ?r ?j ?eq] by (simp add: peer_digit_def)
  also have "\<dots> \<longleftrightarrow> (\<forall>l'\<le>l. peer_digit l' p = peer_digit l' q)"
    by (auto simp: le_less)
  finally show ?thesis .
qed

text \<open>The mask and the target select exactly the peers of the bucket.\<close>

lemma mask_selects_bucket:
  assumes "wf_peer n" and "wf_peer our" and "l < 128" and "c < 3"
  shows "matches n (generate_in_bucket our l c) (bucket_mask l) \<longleftrightarrow> bucket n our = Some (l, c)"
proof -
  let ?t = "generate_in_bucket our l c"
  have t: "\<forall>l'<l. peer_digit l' our = peer_digit l' ?t" "peer_digit l our XOR peer_digit l ?t = Suc c"
    using bucket_generate [OF assms(2-4)] bucket_Some_iff [OF assms(2) wf_generate [OF assms(2)]]
    by auto
  have flip: "x = peer_digit l ?t \<longleftrightarrow> x XOR peer_digit l our = Suc c" for x
  proof -
    have "x XOR peer_digit l our = Suc c \<longleftrightarrow>
        x XOR peer_digit l our = peer_digit l our XOR peer_digit l ?t"
      by (simp add: t(2))
    also have "\<dots> \<longleftrightarrow> peer_digit l our XOR x = peer_digit l our XOR peer_digit l ?t"
      by (simp only: xor.commute)
    also have "\<dots> \<longleftrightarrow> x = peer_digit l ?t"
      by (metis xor.assoc xor.left_neutral xor_self_eq)
    finally show ?thesis by simp
  qed
  have "matches n ?t (bucket_mask l) \<longleftrightarrow>
      (\<forall>l'<l. peer_digit l' n = peer_digit l' our) \<and> peer_digit l n = peer_digit l ?t"
    unfolding matches_bucket_mask using t(1) by (auto simp: le_less)
  then show ?thesis
    using assms(3) by (simp add: bucket_Some_iff [OF assms(1,2)] flip)
qed


section \<open>Filling a bucket\<close>

definition discover_request :: "u32 \<Rightarrow> PeerID \<Rightarrow> bytes \<Rightarrow> DiscoverPeersPacket" where
  "discover_request request_id target msk =
     \<lparr>dp_request_id = request_id, dp_target = target, dp_mask = msk,
      dp_limit = MAX_DISCOVERY_PEERS_RETURNED\<rparr>"

definition is_discover_resp :: "PeerID \<Rightarrow> u32 \<Rightarrow> node_event \<Rightarrow> bool" where
  "is_discover_resp peer_id request_id e =
     (case e of EvDiscoverPeersResp n p \<Rightarrow> dpr_request_id p = request_id \<and> n = peer_id | _ \<Rightarrow> False)"

text \<open>
  Drawing an identifier, listening, and sending the question to a provider.
\<close>

definition ask_discovery ::
  "'c \<Rightarrow> ('pk, 'sk, 'rng, 'c) Node \<Rightarrow> PeerID \<Rightarrow> bytes \<Rightarrow> PeerID \<Rightarrow>
    (('pk, 'sk, 'rng, 'c) Node \<times> effect list \<times> u32) outcome" where
  "ask_discovery fresh node target msk peer_id =
     (let (request_id, counter) = counter_next (nd_discover_peer_req_counter node);
          node = node\<lparr>nd_discover_peer_req_counter := counter,
                      nd_on_discover_peers_resp_packet := listen fresh (nd_on_discover_peers_resp_packet node)\<rparr>
      in bind_outcome
           (sending node peer_id (DiscoverPeers (discover_request request_id target msk)) (handled node))
           (\<lambda>(node, effs). Returns (node, effs, request_id)))"

text \<open>
  The world of the loop: whether a peer is connected, what comes of an attempt to connect and
  shake hands (\<open>Crashed\<close> when \<open>connect\<close> panics, \<open>Unanswered\<close> when the handshake never ends),
  and the answer of a provider (\<open>None\<close> when it never answers: there is no timeout). The state \<open>'s\<close> holds the connection table and everything the network does.
\<close>

datatype attempt = NoListener | HandshakeFailed | Discovered | Crashed | Unanswered

record 's world =
  w_connected :: "'s \<Rightarrow> PeerID \<Rightarrow> bool"
  w_attempt :: "'s \<Rightarrow> provider \<Rightarrow> 's \<times> attempt"
  w_ask :: "'s \<Rightarrow> PeerID \<Rightarrow> 's \<times> provider list option"

datatype discovery_end = Filled | NoProviders | GaveUp | NoAnswer | TaskDied

text \<open>
  The variables of the loop. \<open>ds_tried\<close> is the model's record of the candidates it tried to
  connect to, in order.
\<close>

record 's discovery =
  ds_world :: 's
  ds_missing_peers :: nat
  ds_providers :: "PeerID list"
  ds_candidates :: "provider list"
  ds_old_candidates :: "provider set"
  ds_tried :: "provider list"

text \<open>What comes of a candidate that was neither tried nor connected.\<close>

definition try_candidate ::
  "'s world \<Rightarrow> provider \<Rightarrow> 's discovery \<Rightarrow> 's discovery \<times> discovery_end option" where
  "try_candidate w candidate d =
     (let (s, a) = w_attempt w (ds_world d) candidate;
          d = d\<lparr>ds_world := s, ds_tried := ds_tried d @ [candidate]\<rparr>
      in case a of
           NoListener \<Rightarrow> (d, None)
         | HandshakeFailed \<Rightarrow> (d, Some GaveUp)
         | Crashed \<Rightarrow> (d, Some TaskDied)
         | Unanswered \<Rightarrow> (d, Some NoAnswer)
         | Discovered \<Rightarrow> (d\<lparr>ds_missing_peers := ds_missing_peers d - 1\<rparr>, None))"

text \<open>One iteration of the \<open>while\<close>; \<open>None\<close> goes on.\<close>

definition discover_round :: "'s world \<Rightarrow> 's discovery \<Rightarrow> 's discovery \<times> discovery_end option" where
  "discover_round w d =
     (if ds_missing_peers d = 0 then (d, Some Filled)
      else if ds_candidates d \<noteq> [] then
        (let candidate = last (ds_candidates d);
             d = d\<lparr>ds_candidates := butlast (ds_candidates d)\<rparr>
         in if candidate \<in> ds_old_candidates d then (d, None)
            else
              let d = d\<lparr>ds_old_candidates := insert candidate (ds_old_candidates d)\<rparr>
              in if w_connected w (ds_world d) (fst candidate) then (d, None)
                 else try_candidate w candidate d)
      else if ds_providers d \<noteq> [] then
        (let (s, answer) = w_ask w (ds_world d) (last (ds_providers d));
             d = d\<lparr>ds_world := s, ds_providers := butlast (ds_providers d)\<rparr>
         in case answer of
              None \<Rightarrow> (d, Some NoAnswer)
            | Some ps \<Rightarrow> (d\<lparr>ds_candidates := ps\<rparr>, None))
      else (d, Some NoProviders))"

lemma try_candidate_frame:
  "try_candidate w c d = (d', r) \<Longrightarrow> ds_providers d' = ds_providers d \<and> ds_candidates d' = ds_candidates d
    \<and> ds_old_candidates d' = ds_old_candidates d \<and> ds_tried d' = ds_tried d @ [c]
    \<and> ds_missing_peers d' \<le> ds_missing_peers d"
  by (auto simp: try_candidate_def case_prod_unfold Let_def split: attempt.splits)

lemma discover_round_shrinks:
  assumes "discover_round w d = (d', None)"
  shows "length (ds_providers d') < length (ds_providers d)
    \<or> ds_providers d' = ds_providers d \<and> length (ds_candidates d') < length (ds_candidates d)"
  using assms
  by (auto simp: discover_round_def case_prod_unfold Let_def dest!: try_candidate_frame
      split: if_splits option.splits)

function discover_loop :: "'s world \<Rightarrow> 's discovery \<Rightarrow> 's discovery \<times> discovery_end" where
  "discover_loop w d =
     (case discover_round w d of (d', Some e) \<Rightarrow> (d', e) | (d', None) \<Rightarrow> discover_loop w d')"
  by pat_completeness auto
termination
  by (relation "measures [\<lambda>(w, d). length (ds_providers d), \<lambda>(w, d). length (ds_candidates d)]")
    (auto dest!: discover_round_shrinks [OF sym])

declare discover_loop.simps [simp del]

text \<open>
  \<open>KADEMLIA_BUCKET_SIZE - len\<close> on \<open>usize\<close>: too full a bucket panics in a debug build and
  wraps around in a release build.
\<close>

definition missing_peers :: "bool \<Rightarrow> usize \<Rightarrow> usize outcome" where
  "missing_peers dbg n =
     (if n \<le> KADEMLIA_BUCKET_SIZE then Returns (KADEMLIA_BUCKET_SIZE - n)
      else if dbg then Panics
      else Returns (usize_max + 1 + KADEMLIA_BUCKET_SIZE - n))"

definition discovery_new :: "'s \<Rightarrow> nat \<Rightarrow> PeerID list \<Rightarrow> 's discovery" where
  "discovery_new s m providers =
     \<lparr>ds_world = s, ds_missing_peers = m, ds_providers = providers, ds_candidates = [],
      ds_old_candidates = {}, ds_tried = []\<rparr>"

definition discover_peers_in_bucket ::
  "bool \<Rightarrow> (PeerID \<Rightarrow> bytes \<Rightarrow> 's world) \<Rightarrow> ConnectionPool \<Rightarrow> 's \<Rightarrow> usize \<Rightarrow> usize \<Rightarrow>
    ('s discovery \<times> discovery_end) outcome" where
  "discover_peers_in_bucket dbg w pool s bucket_level bucket_id =
     (if bucket_level < 128 \<and> bucket_id < 3 then
        let target = generate_in_bucket (cp_our_peer_id pool) bucket_level bucket_id;
            msk = bucket_mask bucket_level
        in bind_outcome (missing_peers dbg (length (peers_on_bucket pool bucket_level bucket_id)))
             (\<lambda>m. Returns (discover_loop (w target msk)
                 (discovery_new s m (peers_on_bucket_and_under pool bucket_level))))
      else Panics)"

section \<open>What the loop does\<close>

text \<open>
  No candidate is tried twice, and the connections made never exceed the missing ones.
\<close>

definition discovery_inv :: "nat \<Rightarrow> 's discovery \<Rightarrow> bool" where
  "discovery_inv m d \<longleftrightarrow>
     distinct (ds_tried d) \<and> set (ds_tried d) \<subseteq> ds_old_candidates d \<and> ds_missing_peers d \<le> m"

lemma discover_round_inv:
  assumes "discovery_inv m d" and "discover_round w d = (d', r)"
  shows "discovery_inv m d'"
  using assms
  by (auto simp: discover_round_def case_prod_unfold Let_def discovery_inv_def
      split: if_splits option.splits dest!: try_candidate_frame)

text \<open>What every round keeps the loop keeps, up to the round that ends it.\<close>

lemma discover_loop_last_round:
  assumes "\<And>d d' r. P d \<Longrightarrow> discover_round w d = (d', r) \<Longrightarrow> P d'"
  shows "P d \<Longrightarrow> discover_loop w d = (d', e) \<Longrightarrow> \<exists>d0. P d0 \<and> discover_round w d0 = (d', Some e)"
  using assms
proof (induction w d rule: discover_loop.induct)
  case (1 w d)
  obtain d1 r where round: "discover_round w d = (d1, r)" by fastforce
  show ?case
  proof (cases r)
    case None
    with round 1(2,4) have "P d1" by blast
    with round None 1 show ?thesis by (simp add: discover_loop.simps [of w d])
  next
    case (Some e1)
    with round 1(2,3) show ?thesis by (auto simp: discover_loop.simps [of w d])
  qed
qed

lemma discover_loop_keeps:
  assumes "\<And>d d' r. P d \<Longrightarrow> discover_round w d = (d', r) \<Longrightarrow> P d'" and "P d" and "discover_loop w d = (d', e)"
  shows "P d'"
proof -
  have "\<exists>d0. P d0 \<and> discover_round w d0 = (d', Some e)"
  proof (rule discover_loop_last_round [where P = P])
    show "P d2" if "P d1" "discover_round w d1 = (d2, r)" for d1 d2 r by (rule assms(1) [OF that])
  qed fact+
  with assms(1) show ?thesis by blast
qed

lemma discover_loop_inv:
  "discovery_inv m d \<Longrightarrow> discover_loop w d = (d', e) \<Longrightarrow> discovery_inv m d'"
  using discover_loop_keeps [of "discovery_inv m" w] discover_round_inv by blast

lemma discovery_new_inv: "discovery_inv m (discovery_new s m ps)"
  by (simp add: discovery_inv_def discovery_new_def)

text \<open>Every ending is the one its name says.\<close>

lemma discover_round_end:
  assumes "discover_round w d = (d', Some e)"
  shows "(e = Filled \<longrightarrow> ds_missing_peers d' = 0)
    \<and> (e = NoProviders \<longrightarrow> ds_missing_peers d' > 0 \<and> ds_providers d' = [] \<and> ds_candidates d' = [])"
  using assms
  by (auto simp: discover_round_def try_candidate_def case_prod_unfold Let_def
      split: option.splits if_splits attempt.splits)

lemma discover_loop_last:
  "discover_loop w d = (d', e) \<Longrightarrow> \<exists>d0. discover_round w d0 = (d', Some e)"
  using discover_loop_last_round [where P = "\<lambda>_. True"] by blast

text \<open>An honest node answers the question: it is not too long, and its target is well formed.\<close>

lemma request_accepted:
  assumes "wf_peer our" and "l < 128"
  shows "length (dp_mask (discover_request i (generate_in_bucket our l c) (bucket_mask l))) \<le> 32"
    and "wf_packet (DiscoverPeers (discover_request i (generate_in_bucket our l c) (bucket_mask l)))"
  using assms by (simp_all add: discover_request_def)

text \<open>
  The answer of an honest node to our question, before it is trimmed: a permutation of those
  of its peers that belong to our bucket.
\<close>

lemma honest_answer:
  assumes "pool_inv pool" and "wf_peer our" and "l < 128" and "c < 3"
  shows "filter (\<lambda>e. matches (fst e) (generate_in_bucket our l c) (bucket_mask l)) (peers_with_addrs pool) =
    filter (\<lambda>e. bucket (fst e) our = Some (l, c)) (peers_with_addrs pool)"
  using peers_wf [OF assms(1)] assms(2-4)
  by (intro filter_cong refl) (auto simp: mask_selects_bucket)

section \<open>Properties\<close>

text \<open>
  The question that a node asks to fill a bucket selects exactly that bucket: an identity matches
  the generated target under the mask of the level if and only if it is in the bucket, for each of
  the 384 buckets; the mask is never longer than a responder accepts.
\<close>

theorem discovery_mask_selects_bucket:
  assumes "wf_peer n" and "wf_peer our" and "length mem = 32" and "l < 128" and "c < 3"
  shows "\<exists>t. generate_in_bucket_in mem our l c = Returns t
    \<and> (matches_checked dbg n t (bucket_mask l) = Returns True \<longleftrightarrow> bucket_checked n our = Returns (Some (l, c)))
    \<and> length (bucket_mask l) \<le> 32"
proof -
  have t: "generate_in_bucket_in mem our l c = Returns (generate_in_bucket our l c)"
    by (rule generate_in_bucket_in_eq [OF assms(2-5)])
  have "matches_checked dbg n (generate_in_bucket our l c) (bucket_mask l) =
      Returns (matches n (generate_in_bucket our l c) (bucket_mask l))"
    using assms by (intro matches_checked_eq) simp_all
  with t mask_selects_bucket [OF assms(1,2,4,5)] bucket_checked_eq [OF assms(1,2)] assms(4) show ?thesis
    by simp
qed

theorem discovery_mask_selects_bucket_witness:
  "\<exists>t. generate_in_bucket_in (replicate 32 7) (sample_peer 1) 5 2 = Returns t
    \<and> matches_checked True (PeerID (1 # 48 # replicate 30 0)) t (bucket_mask 5) = Returns True"
proof -
  have "bucket_checked (PeerID (1 # 48 # replicate 30 0)) (sample_peer 1) = Returns (Some (5, 2))"
    by (simp add: bucket_checked_def sample_peer_def upt_rec bucket_round_def bucket_digit_def)
  with discovery_mask_selects_bucket [of "PeerID (1 # 48 # replicate 30 0)" "sample_peer 1" "replicate 32 7" 5 2 True]
  show ?thesis by (auto simp: wf_peer_def sample_peer_def)
qed

text \<open>
  The answer of an honest node to that question, end to end: connected peers of the responder
  that are in the bucket of the asking node, all of them if they are at most 64.
\<close>

lemma honest_discovery_answer:
  assumes "pool_inv pool" and "wf_peer our" and "l < 128" and "c < 3"
    and "\<And>xs. mset (shuffle xs) = mset xs"
  shows "\<exists>resp. prepare_discover_peers_response dbg shuffle pool
      (discover_request i (generate_in_bucket our l c) (bucket_mask l)) = Returns resp
    \<and> dpr_request_id resp = i
    \<and> (\<forall>e\<in>set (dpr_peers resp). e \<in> set (peers_with_addrs pool) \<and> bucket_checked (fst e) our = Returns (Some (l, c)))
    \<and> length (dpr_peers resp) =
        min 64 (length (filter (\<lambda>e. bucket_checked (fst e) our = Returns (Some (l, c))) (peers_with_addrs pool)))"
proof -
  let ?q = "discover_request i (generate_in_bucket our l c) (bucket_mask l)"
  let ?found = "filter (\<lambda>e. bucket (fst e) our = Some (l, c)) (peers_with_addrs pool)"
  have wf: "wf_peer (dp_target ?q)" "length (dp_mask ?q) \<le> 32"
    using assms(2,3) by (simp_all add: discover_request_def)
  have found: "filter (\<lambda>e. matches (fst e) (dp_target ?q) (dp_mask ?q)) (peers_with_addrs pool) = ?found"
    using honest_answer [OF assms(1-4)] by (simp add: discover_request_def)
  have resp: "prepare_discover_peers_response dbg shuffle pool ?q =
      Returns \<lparr>dpr_request_id = i, dpr_peers = trim_loop 64 (shuffle ?found)\<rparr>"
    unfolding prepare_response_eq [OF assms(1) wf] found
    by (simp add: discover_request_def)
  have checked: "bucket_checked (fst e) our = Returns (Some (l, c)) \<longleftrightarrow> bucket (fst e) our = Some (l, c)"
    if "e \<in> set (peers_with_addrs pool)" for e
    using peers_wf [OF assms(1)] that bucket_checked_eq [OF _ assms(2)] by simp
  then have same: "filter (\<lambda>e. bucket_checked (fst e) our = Returns (Some (l, c))) (peers_with_addrs pool) = ?found"
    by (intro filter_cong) simp_all
  have "set (trim_loop 64 (shuffle ?found)) \<subseteq> set ?found"
    using set_trim_loop [of 64 "shuffle ?found"] mset_eq_setD [OF assms(5) [of ?found]] by simp
  moreover have "length (trim_loop 64 (shuffle ?found)) = min 64 (length ?found)"
    using mset_eq_length [OF assms(5) [of ?found]] by (simp add: length_trim_loop)
  ultimately show ?thesis
    unfolding resp same using checked by (intro exI conjI refl) auto
qed

text \<open>
  Filling a bucket panics exactly on an invalid bucket and, in a debug build, on a bucket that
  already holds more than eight peers (the subtraction wraps around in a release build, so that the
  loop then looks for almost \<open>2 ^ 64\<close> peers); otherwise it returns, whatever the network does.
\<close>

theorem discovery_panics_iff:
  "discover_peers_in_bucket dbg w pool s l c = Panics \<longleftrightarrow>
    \<not> (l < 128 \<and> c < 3) \<or> dbg \<and> 8 < length (peers_on_bucket pool l c)"
  by (auto simp: discover_peers_in_bucket_def missing_peers_def KADEMLIA_BUCKET_SIZE_def Let_def)



end
