(* ===== verification/Test_Stream.thy ===== *)
theory Test_Stream
  imports Tewta_Prelude
begin

text \<open>
  The in-memory streams that connect the nodes of one process (\<open>src/stream.rs\<close>). Buffers and
  waker cells are shared (\<open>Arc<Mutex<..>>\<close>), so they live in a store and a stream holds their
  addresses. Whether a lock is free when a half polls for it is an argument of the poll; a
  half that found a lock taken keeps the future of the lock, which is woken when the lock is
  released (as \<open>async_mutex\<close> documents).
\<close>

section \<open>Streams and their halves\<close>

record 'w store =
  st_data :: "nat \<Rightarrow> bytes"
  st_waker :: "nat \<Rightarrow> 'w option"

record TestStream =
  ts_inbound :: nat
  ts_outbound :: nat
  ts_to_wake_on_write :: nat
  ts_waken_on_readable :: nat
  ts_log_id :: "nat \<times> bool"

record TestReadHalf =
  rh_data :: nat
  rh_waken_on_readable :: nat
  rh_lock_fut :: bool
  rh_waker_lock_fut :: bool
  rh_log_id :: "nat \<times> bool"

record TestWriteHalf =
  wh_data :: nat
  wh_to_wake_on_write :: nat
  wh_wrote :: bool
  wh_woke :: bool
  wh_lock_fut :: bool
  wh_waker_lock_fut :: bool
  wh_log_id :: "nat \<times> bool"

text \<open>
  \<open>TestStream::new\<close>: two empty buffers at the fresh addresses \<open>i\<close> and \<open>j\<close>, two empty waker
  cells at \<open>k\<close> and \<open>l\<close>, wired crosswise.
\<close>

definition stream_new ::
  "nat \<Rightarrow> nat \<Rightarrow> nat \<Rightarrow> nat \<Rightarrow> nat \<Rightarrow> 'w store \<Rightarrow> (TestStream \<times> TestStream) \<times> 'w store" where
  "stream_new i j k l log_id st =
     ((\<lparr>ts_inbound = i, ts_outbound = j, ts_to_wake_on_write = k, ts_waken_on_readable = l,
        ts_log_id = (log_id, True)\<rparr>,
       \<lparr>ts_inbound = j, ts_outbound = i, ts_to_wake_on_write = l, ts_waken_on_readable = k,
        ts_log_id = (log_id, False)\<rparr>),
      \<lparr>st_data = (st_data st)(i := [], j := []), st_waker = (st_waker st)(k := None, l := None)\<rparr>)"

definition into_split :: "TestStream \<Rightarrow> TestReadHalf \<times> TestWriteHalf" where
  "into_split s =
     (\<lparr>rh_data = ts_inbound s, rh_waken_on_readable = ts_waken_on_readable s, rh_lock_fut = False,
       rh_waker_lock_fut = False, rh_log_id = ts_log_id s\<rparr>,
      \<lparr>wh_data = ts_outbound s, wh_to_wake_on_write = ts_to_wake_on_write s, wh_wrote = False,
       wh_woke = False, wh_lock_fut = False, wh_waker_lock_fut = False, wh_log_id = ts_log_id s\<rparr>)"

definition reunite :: "TestReadHalf \<Rightarrow> TestWriteHalf \<Rightarrow> TestStream outcome" where
  "reunite r w =
     (if rh_log_id r = wh_log_id w then
        Returns \<lparr>ts_inbound = rh_data r, ts_outbound = wh_data w,
                 ts_to_wake_on_write = wh_to_wake_on_write w,
                 ts_waken_on_readable = rh_waken_on_readable r, ts_log_id = rh_log_id r\<rparr>
      else Panics)"

section \<open>Polling\<close>

datatype 'a poll = Ready 'a | Pending

text \<open>
  \<open>poll_read\<close> with the waker \<open>cx\<close> of the reading task and room for \<open>remaining\<close> bytes;
  \<open>waker_free\<close> and \<open>data_free\<close> tell whether the locks are free.
\<close>

definition poll_read ::
  "bool \<Rightarrow> bool \<Rightarrow> 'w \<Rightarrow> nat \<Rightarrow> TestReadHalf \<Rightarrow> 'w store \<Rightarrow> bytes poll \<times> TestReadHalf \<times> 'w store" where
  "poll_read waker_free data_free cx remaining r st =
     (let st = (if waker_free then st\<lparr>st_waker := (st_waker st)(rh_waken_on_readable r := Some cx)\<rparr> else st);
          r = r\<lparr>rh_waker_lock_fut := \<not> waker_free\<rparr>
      in if data_free then
           (let r = r\<lparr>rh_lock_fut := False\<rparr>; data = st_data st (rh_data r)
            in if data \<noteq> [] then
                 (if remaining < length data
                  then (Ready (take remaining data), r,
                        st\<lparr>st_data := (st_data st)(rh_data r := drop remaining data)\<rparr>)
                  else (Ready data, r, st\<lparr>st_data := (st_data st)(rh_data r := [])\<rparr>))
               else (Pending, r, st))
         else (Pending, r\<lparr>rh_lock_fut := True\<rparr>, st))"

text \<open>\<open>poll_write\<close> of \<open>buf\<close>, with the wakers it wakes.\<close>

definition poll_write ::
  "bool \<Rightarrow> bool \<Rightarrow> bytes \<Rightarrow> TestWriteHalf \<Rightarrow> 'w store \<Rightarrow> nat poll \<times> TestWriteHalf \<times> 'w store \<times> 'w list" where
  "poll_write data_free waker_free buf w st =
     (let (w, st) =
            (if \<not> wh_wrote w then
               if data_free then
                 (w\<lparr>wh_lock_fut := False, wh_wrote := True\<rparr>,
                  st\<lparr>st_data := (st_data st)(wh_data w := st_data st (wh_data w) @ buf)\<rparr>)
               else (w\<lparr>wh_lock_fut := True\<rparr>, st)
             else (w, st));
          (w, woken) =
            (if wh_wrote w \<and> \<not> wh_woke w then
               if waker_free then
                 (w\<lparr>wh_waker_lock_fut := False, wh_woke := True\<rparr>,
                  case st_waker st (wh_to_wake_on_write w) of Some cx \<Rightarrow> [cx] | None \<Rightarrow> [])
               else (w\<lparr>wh_waker_lock_fut := True\<rparr>, [])
             else (w, []))
      in if wh_wrote w \<and> wh_woke w
         then (Ready (length buf), w\<lparr>wh_wrote := False, wh_woke := False\<rparr>, st, woken)
         else (Pending, w, st, woken))"

definition poll_flush :: "unit poll" where
  "poll_flush = Ready ()"

definition poll_shutdown :: "unit poll outcome" where
  "poll_shutdown = Panics"

section \<open>Wiring\<close>

text \<open>What one end writes is what the other end reads, and the reader it wakes is that one.\<close>

lemma wiring:
  assumes "stream_new i j k l log_id st = ((a, b), st')"
    and "into_split a = (ra, wa)" and "into_split b = (rb, wb)"
  shows "wh_data wa = rh_data rb" and "wh_data wb = rh_data ra"
    and "wh_to_wake_on_write wa = rh_waken_on_readable rb"
    and "wh_to_wake_on_write wb = rh_waken_on_readable ra"
    and "i \<noteq> j \<Longrightarrow> wh_data wa \<noteq> rh_data ra"
  using assms by (auto simp: stream_new_def into_split_def)

lemma reunite_split: "reunite (fst (into_split s)) (snd (into_split s)) = Returns s"
  by (simp add: reunite_def into_split_def)

section \<open>One direction of a stream\<close>

text \<open>
  A writing task and a reading task on the two halves of one direction. The writing task
  polls with the same buffer until it is done, as \<open>write_all\<close> does; \<open>d_accepted\<close> and
  \<open>d_received\<close> record what has gone in and come out. The reading task sleeps after a pending
  poll (\<open>d_waiting\<close>) until it is woken (\<open>d_woken\<close>) or one of its lock futures is.
\<close>

record direction =
  d_store :: "unit store"
  d_reader :: TestReadHalf
  d_writer :: TestWriteHalf
  d_buf :: "bytes option"
  d_waiting :: bool
  d_woken :: bool
  d_accepted :: bytes
  d_received :: bytes

definition direction_new :: "TestReadHalf \<Rightarrow> TestWriteHalf \<Rightarrow> unit store \<Rightarrow> direction" where
  "direction_new r w st =
     \<lparr>d_store = st, d_reader = r, d_writer = w, d_buf = None, d_waiting = False, d_woken = False,
      d_accepted = [], d_received = []\<rparr>"

datatype direction_event =
    StartWrite bytes
  | PollWrite bool bool
  | PollRead bool bool nat

fun direction_step :: "direction_event \<Rightarrow> direction \<Rightarrow> direction" where
  "direction_step (StartWrite buf) d = (if d_buf d = None then d\<lparr>d_buf := Some buf\<rparr> else d)"
| "direction_step (PollWrite data_free waker_free) d =
     (case d_buf d of
        None \<Rightarrow> d
      | Some buf \<Rightarrow>
          (case poll_write data_free waker_free buf (d_writer d) (d_store d) of
             (r, w, st, woken) \<Rightarrow>
               d\<lparr>d_store := st, d_writer := w, d_woken := (d_woken d \<or> woken \<noteq> []),
                 d_accepted := (if data_free \<and> \<not> wh_wrote (d_writer d) then d_accepted d @ buf else d_accepted d),
                 d_buf := (case r of Ready _ \<Rightarrow> None | Pending \<Rightarrow> d_buf d)\<rparr>))"
| "direction_step (PollRead waker_free data_free remaining) d =
     (case poll_read waker_free data_free () remaining (d_reader d) (d_store d) of
        (r, rh, st) \<Rightarrow>
          d\<lparr>d_store := st, d_reader := rh, d_woken := False, d_waiting := (r = Pending),
            d_received := d_received d @ (case r of Ready bs \<Rightarrow> bs | Pending \<Rightarrow> [])\<rparr>)"

inductive direction_reach :: "direction \<Rightarrow> direction \<Rightarrow> bool" for d0 where
  init: "direction_reach d0 d0"
| step: "direction_reach d0 d \<Longrightarrow> direction_reach d0 (direction_step ev d)"

text \<open>
  The halves share their cells; nothing is lost, added or reordered; the flags of the writer
  belong to the buffer it writes; and whenever the reader sleeps on available bytes,
  somebody is about to wake it.
\<close>

definition direction_inv :: "direction \<Rightarrow> bool" where
  "direction_inv d \<longleftrightarrow>
     wh_data (d_writer d) = rh_data (d_reader d)
   \<and> wh_to_wake_on_write (d_writer d) = rh_waken_on_readable (d_reader d)
   \<and> d_accepted d = d_received d @ st_data (d_store d) (rh_data (d_reader d))
   \<and> (wh_wrote (d_writer d) \<longrightarrow> d_buf d \<noteq> None) \<and> \<not> wh_woke (d_writer d)
   \<and> (d_waiting d \<and> \<not> d_woken d \<and> \<not> rh_lock_fut (d_reader d) \<and> \<not> rh_waker_lock_fut (d_reader d) \<longrightarrow>
        st_waker (d_store d) (rh_waken_on_readable (d_reader d)) \<noteq> None
        \<and> (st_data (d_store d) (rh_data (d_reader d)) \<noteq> [] \<longrightarrow> wh_wrote (d_writer d)))"

lemma direction_new_inv:
  assumes "stream_new i j k l log_id st = ((a, b), st')" and "i \<noteq> j"
  shows "direction_inv (direction_new (fst (into_split b)) (snd (into_split a)) st')"
  using assms by (auto simp: direction_inv_def direction_new_def stream_new_def into_split_def)

lemma poll_write_inv: "direction_inv d \<Longrightarrow> direction_inv (direction_step (PollWrite df kf) d)"
  by (cases "d_buf d"; cases "wh_wrote (d_writer d)"; cases df; cases kf;
      cases "st_waker (d_store d) (rh_waken_on_readable (d_reader d))")
    (auto simp: direction_inv_def poll_write_def)

lemma poll_read_inv: "direction_inv d \<Longrightarrow> direction_inv (direction_step (PollRead kf df n) d)"
  by (cases kf; cases df; cases "st_data (d_store d) (rh_data (d_reader d)) = []";
      cases "n < length (st_data (d_store d) (rh_data (d_reader d)))")
    (auto simp: direction_inv_def poll_read_def Let_def)

lemma direction_step_inv: "direction_inv d \<Longrightarrow> direction_inv (direction_step ev d)"
proof (cases ev)
  case (StartWrite buf)
  then show "direction_inv d \<Longrightarrow> ?thesis" by (auto simp: direction_inv_def)
qed (simp_all only: poll_write_inv poll_read_inv)

lemma direction_reach_inv:
  "direction_reach d0 d \<Longrightarrow> direction_inv d0 \<Longrightarrow> direction_inv d"
  by (induction rule: direction_reach.induct) (simp_all only: direction_step_inv)

section \<open>An abandoned write\<close>

text \<open>
  A write that is dropped after its bytes went in and before the reader was woken leaves its
  flag behind: the next write is reported as done although none of its bytes were written.
\<close>

lemma abandoned_write:
  assumes "wh_wrote w" and "\<not> wh_woke w"
  shows "\<exists>w' woken. poll_write df True buf w st = (Ready (length buf), w', st, woken)"
  using assms by (simp add: poll_write_def)

lemma poll_write_blocked:
  assumes "\<not> wh_wrote w" and "\<not> wh_woke w"
  shows "poll_write True False buf w st =
    (Pending, w\<lparr>wh_lock_fut := False, wh_wrote := True, wh_waker_lock_fut := True\<rparr>,
     st\<lparr>st_data := (st_data st)(wh_data w := st_data st (wh_data w) @ buf)\<rparr>, [])"
  using assms by (simp add: poll_write_def)

section \<open>Properties\<close>

text \<open>
  C21: a stream is a pipe: whatever interleaving of polls its two ends make, and whichever locks are
  taken when they poll, the bytes that the reader got and those still in the buffer are the bytes
  that the writer put in, in order, with none lost or repeated; and a reader that sleeps while
  bytes are available is going to be woken (it registered its waker and the writer has not come to
  wake it yet).
\<close>

theorem stream_is_a_pipe:
  assumes "stream_new i j k l log_id st = ((a, b), st')" and "i \<noteq> j"
    and "direction_reach (direction_new (fst (into_split b)) (snd (into_split a)) st') d"
  shows "d_accepted d = d_received d @ st_data (d_store d) (rh_data (d_reader d))
    \<and> (d_waiting d \<and> st_data (d_store d) (rh_data (d_reader d)) \<noteq> [] \<longrightarrow>
         d_woken d \<or> rh_lock_fut (d_reader d) \<or> rh_waker_lock_fut (d_reader d)
         \<or> wh_wrote (d_writer d) \<and> d_buf d \<noteq> None \<and> st_waker (d_store d) (wh_to_wake_on_write (d_writer d)) \<noteq> None)"
  using direction_reach_inv [OF assms(3) direction_new_inv [OF assms(1,2)]]
  by (auto simp: direction_inv_def)

theorem stream_is_a_pipe_witness:
  "\<exists>a b st'. stream_new 0 1 2 3 9 \<lparr>st_data = (\<lambda>_. []), st_waker = (\<lambda>_. None :: unit option)\<rparr> = ((a, b), st')
    \<and> d_received (direction_step (PollRead True True 2) (direction_step (PollWrite True True)
        (direction_step (StartWrite [1, 2, 3]) (direction_new (fst (into_split b)) (snd (into_split a)) st')))) = [1, 2]
    \<and> d_accepted (direction_step (PollRead True True 2) (direction_step (PollWrite True True)
        (direction_step (StartWrite [1, 2, 3]) (direction_new (fst (into_split b)) (snd (into_split a)) st')))) = [1, 2, 3]"
proof -
  obtain a b and st' :: "unit store" where new: "stream_new 0 1 2 3 9 \<lparr>st_data = (\<lambda>_. []), st_waker = (\<lambda>_. None :: unit option)\<rparr> = ((a, b), st')"
    by (simp add: stream_new_def)
  let ?d = "direction_new (fst (into_split b)) (snd (into_split a)) st'"
  let ?e = "direction_step (PollRead True True 2) (direction_step (PollWrite True True) (direction_step (StartWrite [1, 2, 3]) ?d))"
  have "direction_reach ?d ?e" by (intro direction_reach.intros)
  from stream_is_a_pipe [OF new _ this] have "d_accepted ?e = d_received ?e @ st_data (d_store ?e) (rh_data (d_reader ?e))"
    by simp
  moreover have "d_received ?e = [1, 2]" "st_data (d_store ?e) (rh_data (d_reader ?e)) = [3]"
    using new by (auto simp: stream_new_def into_split_def direction_new_def poll_write_def poll_read_def)
  ultimately show ?thesis using new by auto
qed

text \<open>
  C40: a write is not cancellation safe: dropped between putting its bytes into the buffer and waking
  the reader (which it does when the lock of the waker is taken), it leaves its flag behind, and the
  next write of any other bytes is reported as complete although none of them entered the stream.
\<close>

theorem abandoned_write_loses_the_next:
  assumes "\<not> wh_wrote w" and "\<not> wh_woke w"
    and "poll_write True False buf w st = (r, w', st', woken)"
  shows "r = Pending \<and> (\<exists>w'' woken'. poll_write df True buf' w' st' = (Ready (length buf'), w'', st', woken'))"
  using assms by (auto simp: poll_write_blocked poll_write_def)

theorem abandoned_write_loses_the_next_witness:
  "\<exists>w' st' woken w'' woken'.
    poll_write True False [1, 2] \<lparr>wh_data = 0, wh_to_wake_on_write = 1, wh_wrote = False, wh_woke = False,
        wh_lock_fut = False, wh_waker_lock_fut = False, wh_log_id = (0, True)\<rparr>
      \<lparr>st_data = (\<lambda>_. []), st_waker = (\<lambda>_. None :: unit option)\<rparr> = (Pending, w', st', woken)
    \<and> poll_write True True [7, 8, 9] w' st' = (Ready 3, w'', st', woken')"
proof -
  let ?w = "\<lparr>wh_data = 0, wh_to_wake_on_write = 1, wh_wrote = False, wh_woke = False,
        wh_lock_fut = False, wh_waker_lock_fut = False, wh_log_id = (0, True)\<rparr>"
  obtain r w' st' woken where
    p: "poll_write True False [1, 2] ?w \<lparr>st_data = (\<lambda>_. []), st_waker = (\<lambda>_. None :: unit option)\<rparr> = (r, w', st', woken)"
    by (metis surj_pair)
  from abandoned_write_loses_the_next [OF _ _ p, of True "[7, 8, 9]"] p show ?thesis by auto
qed

end
