(* ===== verification/Handshake_Theorems.thy ===== *)
theory Handshake_Theorems
  imports Sample_Nodes
begin

text \<open>
  The properties of the handshake, for one node among arbitrary peers and for two honest nodes.
\<close>

section \<open>Any environment\<close>

text \<open>
  A step of a task whose environment answers as it likes: what arrives, what fails, what the
  pool holds.
\<close>

inductive any_step :: "'a proc \<Rightarrow> 'a proc \<Rightarrow> bool" where
  "any_step (Recv n k) (k x)"
| "any_step (Send bs k) (k x)"
| "any_step (Access upd k) (k pool)"

inductive_simps any_step_simps [simp]:
  "any_step (Done a) q" "any_step Crash q" "any_step (Recv n k) q" "any_step (Send bs k) q"
  "any_step (Access upd k) q"

lemma crash_free_steps: "any_step\<^sup>*\<^sup>* p q \<Longrightarrow> crash_free p \<Longrightarrow> crash_free q"
  by (induction rule: rtranclp_induct) (auto elim!: any_step.cases)

text \<open>Tasks that only read the pool.\<close>

primrec keeps_pool :: "'a proc \<Rightarrow> bool" where
  "keeps_pool (Done a) \<longleftrightarrow> True"
| "keeps_pool Crash \<longleftrightarrow> True"
| "keeps_pool (Recv n k) \<longleftrightarrow> (\<forall>x. keeps_pool (k x))"
| "keeps_pool (Send bs k) \<longleftrightarrow> (\<forall>x. keeps_pool (k x))"
| "keeps_pool (Access upd k) \<longleftrightarrow> (\<forall>x. upd x = x \<and> keeps_pool (k x))"

lemma keeps_pool_bind:
  "keeps_pool m \<Longrightarrow> (\<And>a. keeps_pool (f a)) \<Longrightarrow> keeps_pool (bind_proc m f)"
  by (induction m) auto

lemma keeps_pool_and_then:
  "keeps_pool m \<Longrightarrow> (\<And>a. keeps_pool (f a)) \<Longrightarrow> keeps_pool (and_then m f)"
  by (auto simp: and_then_def intro!: keeps_pool_bind split: sum.split)

lemma keeps_pool_exec:
  "keeps_pool m \<Longrightarrow> exec m pool inc = (m', pool', rest, out) \<Longrightarrow> pool' = pool"
proof (induction m arbitrary: pool inc out)
  case (Access upd k)
  then have "upd pool = pool" and "keeps_pool (k pool)" by simp_all
  with Access.IH [OF rangeI this(2)] Access.prems(2) show ?case by simp
next
  case (Recv n k)
  then show ?case by (auto split: if_splits intro: Recv.IH [OF rangeI])
next
  case (Send bs k)
  then show ?case by (auto split: prod.splits intro: Send.IH [OF rangeI])
qed simp_all

lemma keeps_pool_pieces [simp]:
  "keeps_pool (ok a)" "keeps_pool (fail e)" "keeps_pool (convert err r)"
  by (auto simp: ok_def fail_def convert_def split: sum.split)

lemma keeps_pool_wire [simp]:
  "keeps_pool (read_exact n)" "keeps_pool read_u32" "keeps_pool (send_frame p)" "keeps_pool recv_frame"
proof -
  show e: "keeps_pool (read_exact n)" for n by (simp add: read_exact_def)
  show u: "keeps_pool read_u32" by (simp add: read_u32_def keeps_pool_and_then e)
  show "keeps_pool (send_frame p)" by (simp add: send_frame_def write_all_def keeps_pool_and_then)
  show "keeps_pool recv_frame" by (simp add: recv_frame_def keeps_pool_and_then e u)
qed

lemma keeps_pool_checks [simp]:
  "keeps_pool (check_version p)" "keeps_pool (check_rsa env p)" "keeps_pool (check_identity env x i)"
  "keeps_pool (check_new i)" "keeps_pool (check_ehlo p)" "keeps_pool (check_aes n p)"
  "keeps_pool (make_aes_key i j a b)"
  by (auto simp: check_version_def check_rsa_def check_identity_def check_new_def check_ehlo_def
      check_aes_def make_aes_key_def keeps_pool_and_then split: Packet.split option.split)

lemma keeps_pool_packets [simp]:
  "keeps_pool (send_plain env p)" "keeps_pool (recv_plain env)" "keeps_pool (send_aes env d pk n)"
  "keeps_pool (recv_aes env)"
  by (simp_all add: send_plain_def recv_plain_def send_aes_def recv_aes_def keeps_pool_and_then)

lemma keeps_pool_handshake_raw: "keeps_pool (handshake_raw env d x)"
  by (simp add: handshake_raw_def await_version_def await_rsa_def await_aes_def await_ehlo_def
      Let_def keeps_pool_and_then case_prod_unfold)

section \<open>One node and the frames of an honest peer\<close>

definition honest_frames ::
  "('pk, 'sk, 'rng) node_env \<Rightarrow> 'rng draw \<Rightarrow> ('pk, 'sk, 'rng) node_env \<Rightarrow> 'rng draw \<Rightarrow> bytes" where
  "honest_frames env d env' d' =
     frame_of env version_packet @ frame_of env (rsa_packet env' d')
     @ sealed_frame env' d' (ne_public_key env) (dr_nonce d) @ frame_of env (ehlo_packet env')"

lemma honest_exec:
  assumes "meets env d ex pool env' d'" and "meets env' d' ex' pool'' env d"
  shows "\<exists>out. exec (handshake env d ex w task) pool (honest_frames env d env' d' @ rest) =
    (Done (Inr (ne_peer_id env')),
     connected pool (ne_peer_id env') (new_connection w task (ne_addr env')), rest, out)"
proof -
  have c: "ne_codec env' = ne_codec env" using assms(1) by (simp add: meets_def)
  from assms(2) have short: "short (raw_bytes (ne_codec env) (rsa_packet env d))"
    "short (raw_bytes (ne_codec env) (ehlo_packet env))"
    unfolding meets_def c by blast+
  have "\<not> contains pool (ne_peer_id env')" using assms(1) unfolding meets_def by blast
  moreover have "\<exists>out. exec (handshake_raw env d ex) pool (honest_frames env d env' d' @ rest) =
    (Done (Inr (ne_peer_id env', ne_addr env')), pool, rest, out)"
    unfolding honest_frames_def append_assoc
    by (simp add: stage_start [OF assms(1)] stage_version [OF assms(1) short(1)]
        stage_rsa [OF assms] stage_aes [OF assms(1) short(2)] stage_ehlo [OF assms(1)] after_def)
  ultimately show ?thesis
    unfolding handshake_def exec_bind_Done_iff using exec_finish_new by blast
qed

section \<open>Properties\<close>

text \<open>
  C2: a handshake that succeeds has received exactly the four frames of the protocol, in order:
  a version list with ours, a valid public key with a 16-byte nonce, our own nonce and a 16-byte
  half of the key (under our public key when encryption is on), and an address. The peer is
  registered under the hash of the key it has shown, is not ourselves, is the expected peer if
  one is, and was not connected before; no other connection changes.
\<close>

theorem handshake_authenticates:
  assumes "exec (handshake env d ex w task) pool inc = (Done (Inr peer_id), pool', rest, out)"
  shows "peer_id \<noteq> ne_peer_id env \<and> (ex = None \<or> ex = Some peer_id) \<and> \<not> contains pool peer_id
    \<and> (\<exists>addr. accepted env d inc peer_id addr rest
         \<and> pool' = connected pool peer_id (new_connection w task addr))"
proof -
  from handshake_Inr [OF assms] obtain addr where
    "exec (handshake_raw env d ex) pool inc = (Done (Inr (peer_id, addr)), pool, rest, out)"
    "pool' = connected pool peer_id (new_connection w task addr)" .
  with handshake_raw_Inr [of env d ex pool inc peer_id addr pool rest out] show ?thesis by blast
qed

theorem handshake_authenticates_witness:
  "\<exists>pool' out. exec (handshake (sample_env 1) (sample_draw 1) None 7 8) (pool_new (PeerID (1 # 3 # replicate 30 0)) (log_from 1))
      (honest_frames (sample_env 1) (sample_draw 1) (sample_env 2) (sample_draw 2))
      = (Done (Inr (PeerID (2 # 3 # replicate 30 0))), pool', [], out)
    \<and> (\<exists>addr. accepted (sample_env 1) (sample_draw 1)
          (honest_frames (sample_env 1) (sample_draw 1) (sample_env 2) (sample_draw 2))
          (PeerID (2 # 3 # replicate 30 0)) addr [])"
proof -
  from honest_exec [OF sample_meets(1,2), where rest = "[]"] obtain pool' out where
    run: "exec (handshake (sample_env 1) (sample_draw 1) None 7 8) (pool_new (PeerID (1 # 3 # replicate 30 0)) (log_from 1))
      (honest_frames (sample_env 1) (sample_draw 1) (sample_env 2) (sample_draw 2))
      = (Done (Inr (PeerID (2 # 3 # replicate 30 0))), pool', [], out)"
    by fastforce
  from handshake_authenticates [OF run] run show ?thesis by blast
qed

text \<open>
  C3: whatever a peer sends, whichever operation on its stream fails and whatever other tasks do
  to the pool in the meantime, the handshake never panics.
\<close>

theorem handshake_never_panics:
  assumes "length (dr_aes_key_part d) = 16" and "raw_bytes (ne_codec env) already_connected_packet = Inr bs"
    and "any_step\<^sup>*\<^sup>* (handshake env d ex w task) p"
  shows "p \<noteq> Crash"
  using crash_free_steps [OF assms(3) crash_free_handshake [OF assms(1,2)]] by auto

theorem handshake_never_panics_witness:
  "\<exists>p. any_step (handshake (sample_env 1) (sample_draw 1) None 7 8) p \<and> p \<noteq> Crash"
proof -
  have "\<exists>p. any_step (handshake (sample_env 1) (sample_draw 1) None 7 8) p"
    using sample_packets_mem(1)
    by (auto simp: handshake_def handshake_raw_def send_plain_def raw_bytes_table send_frame_def
        write_all_def)
  then obtain p where p: "any_step (handshake (sample_env 1) (sample_draw 1) None 7 8) p" ..
  have "raw_bytes (ne_codec (sample_env 1)) already_connected_packet
      = Inr [word_of_nat (length (takeWhile (\<lambda>y. y \<noteq> already_connected_packet) sample_packets))]"
    using sample_packets_mem(8) by (simp add: raw_bytes_table)
  from handshake_never_panics [OF _ this r_into_rtranclp, OF _ p] p show ?thesis by auto
qed



text \<open>
  C1: the handshake of two honest nodes that do not know each other yet ends: under every
  scheduling of the two tasks it takes a bounded number of steps, can always go on until both
  tasks are done, and wherever it comes to rest both nodes have registered each other with the
  other's address and no byte is left over.
\<close>

theorem honest_handshake_completes:
  assumes "meets ea da xa pa eb db" and "meets eb db xb pb ea da"
  shows "(\<exists>n. \<forall>m t. (link_step ^^ m) (handshakes ea da xa pa wa ta eb db xb pb wb tb) t \<longrightarrow> m \<le> n)
    \<and> (\<forall>t. link_step\<^sup>*\<^sup>* (handshakes ea da xa pa wa ta eb db xb pb wb tb) t \<longrightarrow>
         link_step\<^sup>*\<^sup>* t (both_connected ea pa wa ta eb pb wb tb)
         \<and> (link_at_rest t \<longrightarrow> t = both_connected ea pa wa ta eb pb wb tb))"
proof -
  let ?s = "handshakes ea da xa pa wa ta eb db xb pb wb tb"
  let ?f = "both_connected ea pa wa ta eb pb wb tb"
  have run: "link_step\<^sup>*\<^sup>* ?s ?f" and rest: "link.at_rest ?f"
    using handshakes_run [OF assms] both_connected_at_rest by (simp_all add: link_at_rest_eq)
  have stays: "t = ?f" if "link_at_rest t" "link_step\<^sup>*\<^sup>* t ?f" for t
    using that(2,1) by (cases rule: converse_rtranclpE) (auto simp: link_step_iff link_at_rest_def)
  from link.no_longer_run link.every_run_rests run rest stays show ?thesis
    unfolding link_step_eq by blast
qed

theorem honest_handshake_completes_witness:
  "\<exists>n. \<forall>m t. (link_step ^^ m)
      (handshakes (sample_env 1) (sample_draw 1) (Some (PeerID (2 # 3 # replicate 30 0)))
         (pool_new (PeerID (1 # 3 # replicate 30 0)) (log_from 1)) 7 8
         (sample_env 2) (sample_draw 2) None (pool_new (PeerID (2 # 3 # replicate 30 0)) (log_from 1)) 5 6) t
    \<longrightarrow> m \<le> n"
  using honest_handshake_completes [OF sample_meets(3,2)] by blast

end
