(* ===== verification/Dialing.thy ===== *)
theory Dialing
  imports Handshake_Theorems Node_Theorems
begin

text \<open>
  Opening connections: connecting to an address and shaking hands with who listens there, as the
  discovery (\<open>src/node/discovery.rs\<close>) and the lookup (\<open>src/node/dht.rs\<close>) do, and accepting a
  connection under a time limit (\<open>on_connection\<close> in \<open>src/node/node.rs\<close>).
\<close>

section \<open>Handshakes under a time limit\<close>

text \<open>
  \<open>timeout(.., p)\<close>: the task is dropped after \<open>n\<close> steps unless it is done. A step that
  completes the task is not interrupted, because the task is polled before the timer.
\<close>

primrec timed :: "'a proc \<Rightarrow> nat \<Rightarrow> 'a option proc" where
  "timed (Done a) n = Done (Some a)"
| "timed Crash n = Crash"
| "timed (Recv l k) n = (case n of 0 \<Rightarrow> Done None | Suc m \<Rightarrow> Recv l (\<lambda>x. timed (k x) m))"
| "timed (Send bs k) n = (case n of 0 \<Rightarrow> Done None | Suc m \<Rightarrow> Send bs (\<lambda>x. timed (k x) m))"
| "timed (Access upd k) n = (case n of 0 \<Rightarrow> Done None | Suc m \<Rightarrow> Access upd (\<lambda>x. timed (k x) m))"

text \<open>\<open>Node::on_connection\<close>, for a time limit of \<open>n\<close> steps; the outcome is only logged.\<close>

definition on_connection ::
  "('pk, 'sk, 'rng) node_env \<Rightarrow> 'rng draw \<Rightarrow> nat \<Rightarrow> nat \<Rightarrow> nat \<Rightarrow> unit proc" where
  "on_connection env d w task n =
     bind_proc (timed (handshake env d None w task) n)
       (\<lambda>r. case r of
          Some (Inr peer_id) \<Rightarrow> Done ()
        | Some (Inl e) \<Rightarrow> Done ()
        | None \<Rightarrow> Done ())"

text \<open>A task whose only change of the pool is its last step.\<close>

primrec commits_last :: "'a proc \<Rightarrow> bool" where
  "commits_last (Done a) \<longleftrightarrow> True"
| "commits_last Crash \<longleftrightarrow> True"
| "commits_last (Recv l k) \<longleftrightarrow> (\<forall>x. commits_last (k x))"
| "commits_last (Send bs k) \<longleftrightarrow> (\<forall>x. commits_last (k x))"
| "commits_last (Access upd k) \<longleftrightarrow>
     (\<forall>x. commits_last (k x) \<and> (upd x = x \<or> (\<exists>a. k x = Done a)))"

lemma commits_last_keeps: "keeps_pool p \<Longrightarrow> commits_last p"
  by (induction p) auto

lemma commits_last_bind:
  "keeps_pool m \<Longrightarrow> (\<And>a. commits_last (f a)) \<Longrightarrow> commits_last (bind_proc m f)"
  by (induction m) auto

lemma keeps_pool_emit [simp]: "keeps_pool (emit effs p) \<longleftrightarrow> keeps_pool p"
  by (induction effs p rule: emit.induct) simp_all

lemma bind_emit: "bind_proc (emit effs p) f = emit effs (bind_proc p f)"
  by (induction effs p rule: emit.induct) simp_all

lemma commits_last_finish: "commits_last (finish env w task r)"
proof (cases r)
  case (Inl e)
  have "keeps_pool (and_then (send_plain env (Quit (handshake_quit e))) (\<lambda>_. fail e :: PeerID hs))"
    by (simp add: keeps_pool_and_then)
  with Inl show ?thesis by (simp add: finish_def commits_last_keeps)
next
  case (Inr p)
  have "commits_last (emit effs (fail e :: PeerID hs))" for effs e
    by (rule commits_last_keeps) simp
  with Inr show ?thesis
    by (cases p)
      (auto simp: finish_def insert_connection_def insert_peer_def Let_def bind_emit ok_def fail_def
        split: sum.split)
qed

lemma commits_last_handshake: "commits_last (handshake env d ex w task)"
  unfolding handshake_def
  by (rule commits_last_bind [OF keeps_pool_handshake_raw commits_last_finish])

lemma timed_dropped:
  "commits_last p \<Longrightarrow> exec (timed p n) pool inc = (Done None, pool', rest, out) \<Longrightarrow> pool' = pool"
proof (induction p arbitrary: n pool inc out)
  case (Recv l k)
  then show ?case by (auto split: nat.splits if_splits intro: Recv.IH [OF rangeI])
next
  case (Send bs k)
  then show ?case by (auto split: nat.splits prod.splits intro: Send.IH [OF rangeI])
next
  case (Access upd k)
  show ?case
  proof (cases n)
    case (Suc m)
    with Access.prems have run: "exec (timed (k pool) m) (upd pool) inc = (Done None, pool', rest, out)"
      and k: "commits_last (k pool)" "upd pool = pool \<or> (\<exists>a. k pool = Done a)"
      by simp_all
    then have "upd pool = pool" by auto
    with Access.IH [OF rangeI k(1) run] show ?thesis by simp
  qed (use Access.prems in simp)
qed simp_all

lemma timed_done:
  "exec (timed p n) pool inc = (Done (Some a), pool', rest, out) \<Longrightarrow> exec p pool inc = (Done a, pool', rest, out)"
  by (induction p arbitrary: n pool inc out) (fastforce split: nat.splits if_splits prod.splits)+

section \<open>Dialing an address\<close>

text \<open>
  What surrounds one attempt: the listeners of the network, the two ends of the new stream, the
  draws and the numbers of the write half and of the reading task, and the bytes that the peer
  sends before it stops answering or the handshake is over. No other task changes the pool while
  the handshake runs.
\<close>

record ('rng, 's) surroundings =
  sr_listeners :: "'s list option list"
  sr_ours :: 's
  sr_theirs :: 's
  sr_draw :: "'rng draw"
  sr_write_half :: nat
  sr_task :: nat
  sr_inbox :: bytes

datatype dialed = NotListening | StillShaking | Shook "HandshakeError + PeerID"

text \<open>\<open>connect(addr).await\<close>, then \<open>self.handshake(r, w, Some(peer_id)).await\<close>.\<close>

definition dial ::
  "('rng, 's) surroundings \<Rightarrow> ('pk, 'sk, 'rng, 'c) Node \<Rightarrow> PeerID \<times> string \<Rightarrow>
    (('pk, 'sk, 'rng, 'c) Node \<times> 's list option list \<times> dialed) outcome" where
  "dial su node = (\<lambda>(peer_id, addr).
     bind_outcome (connect (sr_ours su) (sr_theirs su) (sr_listeners su) addr)
       (\<lambda>(ls, stream). case stream of
          None \<Rightarrow> Returns (node, ls, NotListening)
        | Some s \<Rightarrow>
            (case exec (handshake (nd_env node) (sr_draw su) (Some peer_id) (sr_write_half su) (sr_task su))
                    (nd_connections node) (sr_inbox su) of
               (p, pool, rest, out) \<Rightarrow>
                 (case p of
                    Done r \<Rightarrow> Returns (node\<lparr>nd_connections := pool\<rparr>, ls, Shook r)
                  | Crash \<Rightarrow> Panics
                  | _ \<Rightarrow> Returns (node\<lparr>nd_connections := pool\<rparr>, ls, StillShaking)))))"

text \<open>A run that is not done has changed nothing yet.\<close>

lemma commits_last_exec:
  "commits_last p \<Longrightarrow> exec p pool inc = (p', pool', rest, out) \<Longrightarrow> (\<And>a. p' \<noteq> Done a) \<Longrightarrow> pool' = pool"
proof (induction p arbitrary: pool inc out)
  case (Recv l k)
  show ?case
    using Recv.prems Recv.IH [OF rangeI _ _ Recv.prems(3)] by (auto split: if_splits)
next
  case (Send bs k)
  show ?case
    using Send.prems Send.IH [OF rangeI _ _ Send.prems(3)] by (auto split: prod.splits)
next
  case (Access upd k)
  then have run: "exec (k pool) (upd pool) inc = (p', pool', rest, out)"
    and k: "commits_last (k pool)" "upd pool = pool \<or> (\<exists>a. k pool = Done a)"
    by simp_all
  from k(2) have "upd pool = pool"
  proof
    assume "\<exists>a. k pool = Done a"
    then obtain a where "k pool = Done a" ..
    with run have "p' = Done a" by simp
    with Access.prems(3) show ?thesis by blast
  qed
  with Access.IH [OF rangeI k(1) run Access.prems(3)] show ?case by simp
qed simp_all

text \<open>The codec of a node can write every quit packet of the program.\<close>

definition quits_serialise :: "('pk, 'sk, 'rng) node_env \<Rightarrow> bool" where
  "quits_serialise env \<longleftrightarrow> (\<forall>q. \<exists>bs. raw_bytes (ne_codec env) (Quit q) = Inr bs)"

lemma handshake_error_keeps:
  assumes "exec (handshake env d ex w task) pool inc = (Done (Inl e), pool', rest, out)"
  shows "pool' = pool"
proof -
  from assms obtain r pool1 rest1 out1 out2 where
    raw: "exec (handshake_raw env d ex) pool inc = (Done r, pool1, rest1, out1)" and
    fin: "exec (finish env w task r) pool1 rest1 = (Done (Inl e), pool', rest, out2)"
    unfolding handshake_def exec_bind_Done_iff by blast
  have pool1: "pool1 = pool" by (rule keeps_pool_exec [OF keeps_pool_handshake_raw raw])
  show ?thesis
  proof (cases r)
    case (Inl e')
    have "keeps_pool (finish env w task (Inl e'))" by (simp add: finish_def keeps_pool_and_then)
    from keeps_pool_exec [OF this fin [unfolded Inl]] pool1 show ?thesis by simp
  next
    case (Inr p)
    then obtain i addr where r: "r = Inr (i, addr)" by (cases p) auto
    with handshake_raw_Inr [of env d ex pool inc i addr pool1 rest1 out1] raw
    have "\<not> contains pool i" by auto
    with exec_finish_new [of pool i env w task addr rest1] fin r pool1 show ?thesis by auto
  qed
qed

lemma connected_inv:
  assumes "pool_inv pool" and "wf_peer n" and "n \<noteq> cp_our_peer_id pool"
  shows "pool_inv (connected pool n peer)"
  using assms
  by (auto simp: pool_inv_def connected_def bt.inv_ins peers_def dest!: set_bt_insert)

section \<open>New connections\<close>

definition newly_connected :: "('pk, 'sk, 'rng, 'c) Node \<Rightarrow> PeerID \<Rightarrow> ('pk, 'sk, 'rng, 'c) Node \<Rightarrow> bool" where
  "newly_connected node peer_id node' \<longleftrightarrow>
     \<not> contains (nd_connections node) peer_id \<and> peer_id \<noteq> ne_peer_id (nd_env node)
   \<and> (\<exists>pk. peer_id = peer_id_of_key (ne_lib (nd_env node)) pk)
   \<and> (\<exists>peer. node' = node\<lparr>nd_connections := connected (nd_connections node) peer_id peer\<rparr>)"

lemma handshake_newly_connected:
  assumes "exec (handshake (nd_env node) d ex w task) (nd_connections node) inc = (Done (Inr i), pool, rest, out)"
  shows "newly_connected node i (node\<lparr>nd_connections := pool\<rparr>) \<and> (ex = None \<or> ex = Some i)"
proof -
  from handshake_Inr [OF assms] obtain a where
    raw: "exec (handshake_raw (nd_env node) d ex) (nd_connections node) inc =
      (Done (Inr (i, a)), nd_connections node, rest, out)" and
    pool: "pool = connected (nd_connections node) i (new_connection w task a)" .
  from handshake_raw_Inr [OF raw] show ?thesis
    unfolding newly_connected_def pool by (auto simp: accepted_def)
qed

lemma newly_connected_inv:
  assumes "node_inv node" and "sha_law (ne_lib (nd_env node))" and "newly_connected node peer_id node'"
  shows "node_inv node'"
proof -
  from assms(3) obtain pk peer where "peer_id = peer_id_of_key (ne_lib (nd_env node)) pk"
    "peer_id \<noteq> ne_peer_id (nd_env node)"
    "node' = node\<lparr>nd_connections := connected (nd_connections node) peer_id peer\<rparr>"
    unfolding newly_connected_def by blast
  with assms(1,2) connected_inv [of "nd_connections node" peer_id peer] show ?thesis
    by (simp add: node_inv_def wf_peer_id_of_key) (simp add: connected_def)
qed

lemma newly_connected_env: "newly_connected node peer_id node' \<Longrightarrow> nd_env node' = nd_env node"
  by (auto simp: newly_connected_def)

lemma newly_connected_len:
  assumes "node_inv node" and "newly_connected node peer_id node'"
  shows "pool_len (nd_connections node') = Suc (pool_len (nd_connections node))"
proof -
  from assms(2) obtain peer where n: "node' = node\<lparr>nd_connections := connected (nd_connections node) peer_id peer\<rparr>"
    and fresh: "\<not> contains (nd_connections node) peer_id"
    unfolding newly_connected_def by blast
  have "bt_inv (cp_connections (nd_connections node))"
    using assms(1) pool_invD(1) by (simp add: node_inv_def)
  with fresh show ?thesis
    by (simp add: n connected_def pool_len_def bt.length_ins contains_def bt_contains_def)
qed

section \<open>What dialing does\<close>

lemma dial_cases:
  assumes "exec (handshake (nd_env node) (sr_draw su) (Some peer_id) (sr_write_half su) (sr_task su))
      (nd_connections node) (sr_inbox su) = (p, pool, rest, out)"
  shows "dial su node (peer_id, addr) =
    (case connect (sr_ours su) (sr_theirs su) (sr_listeners su) addr of
       Panics \<Rightarrow> Panics
     | Returns (ls, None) \<Rightarrow> Returns (node, ls, NotListening)
     | Returns (ls, Some s) \<Rightarrow>
         (case p of
            Done r \<Rightarrow> Returns (node\<lparr>nd_connections := pool\<rparr>, ls, Shook r)
          | Crash \<Rightarrow> Panics
          | _ \<Rightarrow> Returns (node\<lparr>nd_connections := pool\<rparr>, ls, StillShaking)))"
  unfolding dial_def prod.case assms
  by (cases "connect (sr_ours su) (sr_theirs su) (sr_listeners su) addr") (simp_all split: option.split prod.split)

text \<open>
  Every outcome but a completed handshake leaves the node alone, and a completed one adds exactly
  the peer that was dialed.
\<close>

lemma dial_frame:
  assumes "dial su node (peer_id, addr) = Returns (node', ls, r)"
  shows "if r = Shook (Inr peer_id) then newly_connected node peer_id node'
    else node' = node \<and> (\<forall>p. r \<noteq> Shook (Inr p))"
proof -
  let ?h = "handshake (nd_env node) (sr_draw su) (Some peer_id) (sr_write_half su) (sr_task su)"
  obtain p pool rest out where e: "exec ?h (nd_connections node) (sr_inbox su) = (p, pool, rest, out)"
    by (cases "exec ?h (nd_connections node) (sr_inbox su)") auto
  note dial = assms [unfolded dial_cases [OF e]]
  show ?thesis
  proof (cases "\<exists>i. p = Done (Inr i)")
    case True
    then obtain i where i: "p = Done (Inr i)" ..
    from handshake_newly_connected [OF e [unfolded i]] have "i = peer_id"
      "newly_connected node peer_id (node\<lparr>nd_connections := pool\<rparr>)" by auto
    with dial show ?thesis
      by (auto simp: i split: outcome.splits option.splits)
  next
    case False
    have "pool = nd_connections node" if "p \<noteq> Crash"
    proof (cases p)
      case (Done r)
      with False obtain err where "p = Done (Inl err)" by (cases r) auto
      with e handshake_error_keeps show ?thesis by metis
    qed (use commits_last_exec [OF commits_last_handshake e] in auto)
    with False dial show ?thesis
      by (auto split: outcome.splits option.splits proc.splits)
  qed
qed

lemma dial_inv:
  assumes "node_inv node" and "sha_law (ne_lib (nd_env node))" and "dial su node c = Returns (node', ls, r)"
  shows "node_inv node'"
proof -
  obtain peer_id addr where c: "c = (peer_id, addr)" by (cases c)
  from dial_frame [OF assms(3) [unfolded c]] have "node' = node \<or> newly_connected node peer_id node'"
    by (simp split: if_splits)
  with newly_connected_inv [OF assms(1,2)] assms(1) show ?thesis by blast
qed

text \<open>Dialing panics only where \<open>connect\<close> does.\<close>

lemma dial_panics:
  assumes "length (dr_aes_key_part (sr_draw su)) = 16" and "quits_serialise (nd_env node)"
  shows "dial su node (peer_id, addr) = Panics \<longleftrightarrow>
    connect (sr_ours su) (sr_theirs su) (sr_listeners su) addr = Panics"
proof -
  obtain bs where "raw_bytes (ne_codec (nd_env node)) already_connected_packet = Inr bs"
    using assms(2) unfolding quits_serialise_def already_connected_packet_def by blast
  note free = crash_free_handshake [OF assms(1) this]
  let ?h = "handshake (nd_env node) (sr_draw su) (Some peer_id) (sr_write_half su) (sr_task su)"
  obtain p pool rest out where e: "exec ?h (nd_connections node) (sr_inbox su) = (p, pool, rest, out)"
    by (cases "exec ?h (nd_connections node) (sr_inbox su)") auto
  from crash_free_exec [OF free e] have "p \<noteq> Crash" by auto
  then show ?thesis
    unfolding dial_cases [OF e] by (auto split: outcome.splits option.splits proc.splits)
qed

section \<open>Accepting a connection and joining the network\<close>

text \<open>
  \<open>on_connection\<close> on a node. A handshake that is stuck when the bytes of its peer are used up runs
  into its time limit without having changed anything.
\<close>

definition accept :: "nat \<Rightarrow> ('rng, 's) surroundings \<Rightarrow> ('pk, 'sk, 'rng, 'c) Node \<Rightarrow> ('pk, 'sk, 'rng, 'c) Node outcome" where
  "accept limit su node =
     (case exec (on_connection (nd_env node) (sr_draw su) (sr_write_half su) (sr_task su) limit)
             (nd_connections node) (sr_inbox su) of
        (p, pool, rest, out) \<Rightarrow>
          (case p of Crash \<Rightarrow> Panics | _ \<Rightarrow> Returns (node\<lparr>nd_connections := pool\<rparr>)))"

text \<open>
  \<open>Node::bootstrap_peers\<close>: one attempt per node of the network, each to a random number \<open>n\<close>,
  until five connections are open. The numbers, surroundings and time limits of the attempts are
  the list.
\<close>

fun bootstrap_peers ::
  "(nat \<times> ('rng, 's) surroundings \<times> nat) list \<Rightarrow> 's list option list \<Rightarrow> ('pk, 'sk, 'rng, 'c) Node \<Rightarrow>
    (('pk, 'sk, 'rng, 'c) Node \<times> 's list option list) outcome" where
  "bootstrap_peers [] ls node = Returns (node, ls)"
| "bootstrap_peers ((n, su, limit) # attempts) ls node =
     bind_outcome (connect (sr_ours su) (sr_theirs su) ls (local_addr n))
       (\<lambda>(ls, stream). bind_outcome (case stream of None \<Rightarrow> Returns node | Some s \<Rightarrow> accept limit su node)
          (\<lambda>node. if pool_len (nd_connections node) \<ge> 5 then Returns (node, ls)
                  else bootstrap_peers attempts ls node))"

lemma commits_last_timed: "commits_last p \<Longrightarrow> commits_last (timed p n)"
  by (induction p arbitrary: n) (auto split: nat.split)

lemma accept_frame:
  assumes "accept limit su node = Returns node'"
  shows "node' = node \<or> (\<exists>peer_id. newly_connected node peer_id node')"
proof -
  let ?h = "handshake (nd_env node) (sr_draw su) None (sr_write_half su) (sr_task su)"
  obtain p pool rest out where e: "exec (timed ?h limit) (nd_connections node) (sr_inbox su) = (p, pool, rest, out)"
    by (cases "exec (timed ?h limit) (nd_connections node) (sr_inbox su)") auto
  have node': "node' = node\<lparr>nd_connections := pool\<rparr>"
  proof (cases "\<exists>a. p = Done a")
    case True
    then obtain a where "p = Done a" ..
    with e assms show ?thesis
      by (cases a)
        (auto simp: accept_def on_connection_def exec_bind [of "timed ?h limit"] split: sum.splits)
  next
    case False
    then have "p \<noteq> Done a" for a by blast
    from exec_bind_stuck [OF e this, of "\<lambda>r. case r of Some (Inr peer_id) \<Rightarrow> Done ()
        | Some (Inl e) \<Rightarrow> Done () | None \<Rightarrow> Done ()"] False assms show ?thesis
      by (cases p) (auto simp: accept_def on_connection_def)
  qed
  show ?thesis
  proof (cases "\<exists>i. p = Done (Some (Inr i))")
    case True
    then obtain i where "p = Done (Some (Inr i))" ..
    with handshake_newly_connected [OF timed_done] e node' show ?thesis by blast
  next
    case False
    have "pool = nd_connections node"
    proof (cases "\<exists>a. p = Done a")
      case True
      then obtain r where r: "p = Done r" ..
      with False consider "r = None" | err where "r = Some (Inl err)"
        by (metis option.exhaust sum.exhaust)
      then show ?thesis
      proof cases
        case 1
        with e r show ?thesis by (auto intro: timed_dropped [OF commits_last_handshake])
      next
        case 2
        with e r show ?thesis by (auto intro: handshake_error_keeps [OF timed_done])
      qed
    next
      case False
      with commits_last_exec [OF commits_last_timed [OF commits_last_handshake] e] show ?thesis by blast
    qed
    with node' show ?thesis by simp
  qed
qed

lemma bootstrap_frame:
  assumes "bootstrap_peers attempts ls node = Returns (node', ls')"
    and "node_inv node" and "sha_law (ne_lib (nd_env node))" and "pool_len (nd_connections node) < 5"
  shows "node_inv node' \<and> pool_len (nd_connections node') \<le> 5 \<and> length ls' = length ls
    \<and> pool_len (nd_connections node') \<le> pool_len (nd_connections node) + length attempts"
  using assms
proof (induction attempts ls node rule: bootstrap_peers.induct)
  case (2 n su limit attempts ls node)
  from 2(2) obtain ls1 stream where c: "connect (sr_ours su) (sr_theirs su) ls (local_addr n) = Returns (ls1, stream)"
    and cont: "bind_outcome (case stream of None \<Rightarrow> Returns node | Some s \<Rightarrow> accept limit su node)
        (\<lambda>node. if pool_len (nd_connections node) \<ge> 5 then Returns (node, ls1)
                else bootstrap_peers attempts ls1 node) = Returns (node', ls')"
    by (auto simp: bind_outcome_Returns_iff)
  from cont obtain node1 where n1: "(case stream of None \<Rightarrow> Returns node | Some s \<Rightarrow> accept limit su node) = Returns node1"
    and rest: "(if pool_len (nd_connections node1) \<ge> 5 then Returns (node1, ls1)
                else bootstrap_peers attempts ls1 node1) = Returns (node', ls')"
    by (auto simp: bind_outcome_Returns_iff)
  from n1 accept_frame have "node1 = node \<or> (\<exists>peer_id. newly_connected node peer_id node1)"
    by (cases stream) auto
  then have inv: "node_inv node1" "sha_law (ne_lib (nd_env node1))"
    "pool_len (nd_connections node1) \<le> Suc (pool_len (nd_connections node))"
    using newly_connected_inv [OF 2(3,4)] newly_connected_len [OF 2(3)] 2(3,4) newly_connected_env
    by fastforce+
  have len: "length ls1 = length ls" by (rule connect_frame(1) [OF c])
  show ?case
  proof (cases "pool_len (nd_connections node1) \<ge> 5")
    case True
    with rest inv 2(5) len show ?thesis by auto
  next
    case False
    then have "bootstrap_peers attempts ls1 node1 = Returns (node', ls')" using rest by simp
    from 2(1) [OF False this inv(1,2)] False inv(3) len show ?thesis by simp
  qed
qed auto

section \<open>Properties\<close>

text \<open>
  C5: a handshake that is dropped when its time is over, at whatever point, has not registered the
  peer: the pool is as it was. One that ends in time has done exactly what it does without a limit.
\<close>

theorem timeout_registers_nothing:
  assumes "exec (timed (handshake env d ex w task) n) pool inc = (Done r, pool', rest, out)"
  shows "case r of None \<Rightarrow> pool' = pool
    | Some x \<Rightarrow> exec (handshake env d ex w task) pool inc = (Done x, pool', rest, out)"
  using assms timed_dropped [OF commits_last_handshake] timed_done by (auto split: option.split)

theorem timeout_registers_nothing_witness:
  "\<exists>pool' rest out. exec (timed (handshake (sample_env 1) (sample_draw 1) None 7 8) 2)
      (pool_new (sample_peer 1) (log_from 1)) [] = (Done None, pool', rest, out)
    \<and> pool' = pool_new (sample_peer 1) (log_from 1)"
proof -
  have "\<exists>pool' rest out. exec (timed (handshake (sample_env 1) (sample_draw 1) None 7 8) 2)
      (pool_new (sample_peer 1) (log_from 1)) [] = (Done None, pool', rest, out)"
    using sample_packets_mem(1)
    by (simp add: handshake_def handshake_raw_def send_plain_def raw_bytes_table send_frame_def
        write_all_def numeral_2_eq_2 await_version_def recv_plain_def recv_frame_def read_u32_def
        read_exact_def and_then_assoc)
  then obtain pool' rest out where
    run: "exec (timed (handshake (sample_env 1) (sample_draw 1) None 7 8) 2)
      (pool_new (sample_peer 1) (log_from 1)) [] = (Done None, pool', rest, out)" by blast
  from timeout_registers_nothing [OF run] run show ?thesis by simp
qed



end
