(* ===== verification/Network_Tasks.thy ===== *)
theory Network_Tasks
  imports Dialing Discovery
begin

text \<open>
  The tasks that open connections, on the components that they use: the question to one provider
  of the lookup (\<open>src/node/dht.rs\<close>) and the world of the loop of \<open>src/node/discovery.rs\<close>, with
  \<^theory_text>\<open>connect\<close>, the handshake, the requests and the listeners of the model.
\<close>

section \<open>One provider of a lookup\<close>

text \<open>
  Asking a connected provider and waiting for its answer among the messages \<open>msgs\<close> that the
  listener receives; \<open>later\<close> is what other tasks do to the node in the meantime. A result \<open>None\<close>
  still waits.
\<close>

type_synonym ('pk, 'sk, 'rng, 'c) provider_result =
  "(('pk, 'sk, 'rng, 'c) Node \<times> effect list \<times> (SingleProviderLookupError + DhtLookupResult) option) outcome"

definition ask_and_wait ::
  "('c, node_event) channel_send \<Rightarrow> 'c \<Rightarrow> (('pk, 'sk, 'rng, 'c) Node \<Rightarrow> ('pk, 'sk, 'rng, 'c) Node) \<Rightarrow>
    node_event list \<Rightarrow> bool \<Rightarrow> ('pk, 'sk, 'rng, 'c) Node \<Rightarrow> KeyID \<Rightarrow> PeerID \<Rightarrow>
    ('pk, 'sk, 'rng, 'c) provider_result" where
  "ask_and_wait send fresh later msgs already_connected node key peer_id =
     bind_outcome (ask_provider fresh node key peer_id)
       (\<lambda>(node, effs, request_id).
          case await_value_resp peer_id request_id msgs of
            None \<Rightarrow> Returns (node, effs, None)
          | Some p \<Rightarrow>
              bind_outcome (provider_answered send (later node) already_connected peer_id request_id p)
                (\<lambda>(node, effs', r). Returns (node, effs @ effs', Some r)))"

definition dht_lookup_on_single_provider ::
  "('c, node_event) channel_send \<Rightarrow> 'c \<Rightarrow> (('pk, 'sk, 'rng, 'c) Node \<Rightarrow> ('pk, 'sk, 'rng, 'c) Node) \<Rightarrow>
    node_event list \<Rightarrow> ('rng, 's) surroundings \<Rightarrow> ('pk, 'sk, 'rng, 'c) Node \<Rightarrow> KeyID \<Rightarrow> provider \<Rightarrow>
    ('pk, 'sk, 'rng, 'c) provider_result" where
  "dht_lookup_on_single_provider send fresh later msgs su node key provider =
     (if contains (nd_connections node) (fst provider)
      then ask_and_wait send fresh later msgs True node key (fst provider)
      else bind_outcome (dial su node provider)
        (\<lambda>(node, ls, r). case r of
           NotListening \<Rightarrow> Returns (node, [], Some (Inl FailedToConnect))
         | StillShaking \<Rightarrow> Returns (node, [], None)
         | Shook (Inl e) \<Rightarrow> Returns (node, [], Some (Inl (LookupHandshakeError e)))
         | Shook (Inr peer_id) \<Rightarrow> ask_and_wait send fresh later msgs False node key peer_id))"

text \<open>What other tasks do to a node keeps its invariant.\<close>

definition harmless :: "(('pk, 'sk, 'rng, 'c) Node \<Rightarrow> ('pk, 'sk, 'rng, 'c) Node) \<Rightarrow> bool" where
  "harmless later \<longleftrightarrow> (\<forall>node. node_inv node \<longrightarrow> node_inv (later node))"

lemma ask_provider_frame:
  assumes "node_inv node"
  shows "\<exists>node' effs request_id. ask_provider fresh node key peer_id = Returns (node', effs, request_id)
    \<and> nd_connections node' = nd_connections node \<and> node_inv node'"
proof -
  have "cp_node_ref (nd_connections node)" using assms by (simp add: node_inv_def)
  from send_packet_Returns [OF this] assms show ?thesis
    by (auto simp: ask_provider_def sending_def handled_def Let_def case_prod_unfold node_inv_def)
qed

text \<open>A provider that was dialed for the question only is disconnected after its answer.\<close>

lemma ask_and_wait_answered:
  assumes "node_inv node" and "harmless later"
  shows "\<exists>node' effs r. ask_and_wait send fresh later msgs already node key peer_id = Returns (node', effs, r)
    \<and> node_inv node'
    \<and> (\<forall>e. r \<noteq> Some (Inl e)) \<and> (r \<noteq> None \<and> \<not> already \<longrightarrow> \<not> contains (nd_connections node') peer_id)"
proof -
  from ask_provider_frame [OF assms(1)] obtain node1 effs i where
    ask: "ask_provider fresh node key peer_id = Returns (node1, effs, i)" and inv: "node_inv node1"
    by blast
  show ?thesis
  proof (cases "await_value_resp peer_id i msgs")
    case None
    with ask inv show ?thesis by (simp add: ask_and_wait_def)
  next
    case (Some p)
    have inv2: "node_inv (later node1)" using assms(2) inv by (simp add: harmless_def)
    then have "cp_node_ref (nd_connections (later node1))" by (simp add: node_inv_def)
    from disconnecting_total [OF this] obtain node2 effs2 where
      d: "disconnecting send (later node1) peer_id mission_accomplished = Returns (node2, effs2)" by blast
    have "bt_inv (cp_connections (nd_connections (later node1)))"
      using inv2 pool_invD(1) by (simp add: node_inv_def)
    then have "\<not> contains (nd_connections node2) peer_id"
      unfolding disconnecting_connections [OF d] by (simp add: contains_def bt_contains_def bt.get_del)
    with disconnecting_inv [OF inv2 d] inv2 d Some ask await_value_resp_Some [OF Some] show ?thesis
      by (cases already) (simp_all add: ask_and_wait_def provider_answered_def)
  qed
qed

section \<open>The world of a discovery\<close>

text \<open>
  The state of the network around the loop: the node, the listeners, the surroundings of the
  connection attempts to come, the messages that the listeners of the questions to come receive,
  and the effects so far. A list that is used up is a network that does not answer any more.
\<close>

record ('pk, 'sk, 'rng, 'c, 's) network =
  nt_node :: "('pk, 'sk, 'rng, 'c) Node"
  nt_listeners :: "'s list option list"
  nt_attempts :: "('rng, 's) surroundings list"
  nt_messages :: "node_event list list"
  nt_effects :: "effect list"

definition await_discover_resp :: "PeerID \<Rightarrow> u32 \<Rightarrow> node_event list \<Rightarrow> provider list option" where
  "await_discover_resp peer_id request_id msgs =
     (case recv_until (is_discover_resp peer_id request_id) msgs of
        Some (EvDiscoverPeersResp n p, rest) \<Rightarrow> Some (dpr_peers p)
      | _ \<Rightarrow> None)"

definition network_attempt ::
  "('pk, 'sk, 'rng, 'c, 's) network \<Rightarrow> provider \<Rightarrow> ('pk, 'sk, 'rng, 'c, 's) network \<times> attempt" where
  "network_attempt s candidate =
     (case nt_attempts s of
        [] \<Rightarrow> (s, Unanswered)
      | su # sus \<Rightarrow>
          let s = s\<lparr>nt_attempts := sus\<rparr>
          in (case dial (su\<lparr>sr_listeners := nt_listeners s\<rparr>) (nt_node s) candidate of
                Panics \<Rightarrow> (s, Crashed)
              | Returns (node, ls, r) \<Rightarrow>
                  (s\<lparr>nt_node := node, nt_listeners := ls\<rparr>,
                   case r of
                     NotListening \<Rightarrow> NoListener
                   | StillShaking \<Rightarrow> Unanswered
                   | Shook (Inl e) \<Rightarrow> HandshakeFailed
                   | Shook (Inr peer_id) \<Rightarrow> Discovered)))"

definition network_ask ::
  "'c \<Rightarrow> PeerID \<Rightarrow> bytes \<Rightarrow> ('pk, 'sk, 'rng, 'c, 's) network \<Rightarrow> PeerID \<Rightarrow>
    ('pk, 'sk, 'rng, 'c, 's) network \<times> provider list option" where
  "network_ask fresh target msk s provider =
     (case ask_discovery fresh (nt_node s) target msk provider of
        Panics \<Rightarrow> (s, None)
      | Returns (node, effs, request_id) \<Rightarrow>
          let s = s\<lparr>nt_node := node, nt_effects := nt_effects s @ effs\<rparr>
          in (case nt_messages s of
                [] \<Rightarrow> (s, None)
              | msgs # rest \<Rightarrow> (s\<lparr>nt_messages := rest\<rparr>, await_discover_resp provider request_id msgs)))"

definition network_world ::
  "'c \<Rightarrow> PeerID \<Rightarrow> bytes \<Rightarrow> ('pk, 'sk, 'rng, 'c, 's) network world" where
  "network_world fresh target msk =
     \<lparr>w_connected = (\<lambda>s peer_id. contains (nd_connections (nt_node s)) peer_id),
      w_attempt = network_attempt,
      w_ask = network_ask fresh target msk\<rparr>"

text \<open>\<open>Node::discover_peers_in_bucket\<close> on the network.\<close>

definition discover_on_network ::
  "bool \<Rightarrow> 'c \<Rightarrow> ('pk, 'sk, 'rng, 'c, 's) network \<Rightarrow> usize \<Rightarrow> usize \<Rightarrow>
    (('pk, 'sk, 'rng, 'c, 's) network discovery \<times> discovery_end) outcome" where
  "discover_on_network dbg fresh s bucket_level bucket_id =
     discover_peers_in_bucket dbg (network_world fresh) (nd_connections (nt_node s)) s bucket_level bucket_id"

section \<open>What a discovery does to the node\<close>

text \<open>
  The node stays well formed, and every connection that the loop counts as found is a new one.
\<close>

definition found_invariant :: "nat \<Rightarrow> ('pk, 'sk, 'rng, 'c, 's) network discovery \<Rightarrow> bool" where
  "found_invariant m d \<longleftrightarrow>
     node_inv (nt_node (ds_world d)) \<and> sha_law (ne_lib (nd_env (nt_node (ds_world d))))
   \<and> pool_len (nd_connections (nt_node (ds_world d))) + ds_missing_peers d = m"

lemma network_attempt_frame:
  assumes "network_attempt s c = (s', r)" and "node_inv (nt_node s)" and "sha_law (ne_lib (nd_env (nt_node s)))"
  shows "node_inv (nt_node s') \<and> sha_law (ne_lib (nd_env (nt_node s')))
    \<and> pool_len (nd_connections (nt_node s')) =
        (if r = Discovered then Suc (pool_len (nd_connections (nt_node s))) else pool_len (nd_connections (nt_node s)))"
proof (cases "nt_attempts s")
  case Nil
  with assms show ?thesis by (auto simp: network_attempt_def)
next
  case (Cons su sus)
  let ?su = "su\<lparr>sr_listeners := nt_listeners s\<rparr>"
  show ?thesis
  proof (cases "dial ?su (nt_node s) c")
    case Panics
    with Cons assms show ?thesis by (auto simp: network_attempt_def Let_def)
  next
    case (Returns x)
    then obtain node ls q where d: "dial ?su (nt_node s) c = Returns (node, ls, q)" by (cases x) auto
    obtain peer_id addr where c: "c = (peer_id, addr)" by (cases c)
    note frame = dial_frame [OF d [unfolded c]]
    have env: "nd_env node = nd_env (nt_node s)"
      using frame newly_connected_env by (auto split: if_splits)
    from frame newly_connected_len [OF assms(2)]
    have "pool_len (nd_connections node) = (if \<exists>p. q = Shook (Inr p) then Suc (pool_len (nd_connections (nt_node s)))
        else pool_len (nd_connections (nt_node s)))"
      by (auto split: if_splits)
    with dial_inv [OF assms(2,3) d] assms(1,3) env show ?thesis
      by (auto simp: network_attempt_def Cons Let_def d split: dialed.splits sum.splits)
  qed
qed

lemma network_ask_frame:
  assumes "network_ask fresh t m s p = (s', r)" and "node_inv (nt_node s)"
  shows "node_inv (nt_node s') \<and> nd_env (nt_node s') = nd_env (nt_node s)
    \<and> nd_connections (nt_node s') = nd_connections (nt_node s)"
  using assms
  by (auto simp: network_ask_def ask_discovery_def sending_def handled_def Let_def case_prod_unfold
      node_inv_def bind_outcome_Returns_iff split: outcome.splits list.splits)

lemma discover_round_found:
  assumes "found_invariant m d" and "discover_round (network_world fresh t msk) d = (d', r)"
  shows "found_invariant m d'"
proof -
  have inv: "node_inv (nt_node (ds_world d))" "sha_law (ne_lib (nd_env (nt_node (ds_world d))))"
    using assms(1) by (simp_all add: found_invariant_def)
  let ?c = "last (ds_candidates d)" and ?p = "last (ds_providers d)"
  obtain s r where a: "network_attempt (ds_world d) ?c = (s, r)" by (cases "network_attempt (ds_world d) ?c")
  obtain s' ans where q: "network_ask fresh t msk (ds_world d) ?p = (s', ans)"
    by (cases "network_ask fresh t msk (ds_world d) ?p")
  from assms network_attempt_frame [OF a inv] network_ask_frame [OF q inv(1)] inv show ?thesis
    by (auto simp: discover_round_def network_world_def try_candidate_def Let_def a q
        found_invariant_def split: if_splits option.splits attempt.splits)
qed

lemma discover_loop_found:
  "found_invariant m d \<Longrightarrow> discover_loop (network_world fresh t msk) d = (d', e) \<Longrightarrow> found_invariant m d'"
  by (rule discover_loop_keeps [where P = "found_invariant m", OF discover_round_found])

section \<open>Properties\<close>



text \<open>
  C20: asking one provider never panics unless \<open>connect\<close> refuses its address, keeps the node well
  formed, and leaves nothing behind: after an answer from a provider that was dialed for the
  question the node is no longer connected to it, and if dialing fails the node is unchanged.
\<close>

theorem single_provider_lookup:
  assumes "node_inv node" and "sha_law (ne_lib (nd_env node))" and "quits_serialise (nd_env node)"
    and "length (dr_aes_key_part (sr_draw su)) = 16" and "harmless later"
  shows "(case dht_lookup_on_single_provider send fresh later msgs su node key (peer_id, addr) of
      Panics \<Rightarrow> connect (sr_ours su) (sr_theirs su) (sr_listeners su) addr = Panics
    | Returns (node', effs, r) \<Rightarrow> node_inv node'
        \<and> (\<forall>e. r = Some (Inl e) \<longrightarrow> node' = node)
        \<and> (r \<noteq> None \<and> \<not> contains (nd_connections node) peer_id \<longrightarrow> \<not> contains (nd_connections node') peer_id))"
proof (cases "contains (nd_connections node) peer_id")
  case True
  with ask_and_wait_answered [OF assms(1,5), where send = send and fresh = fresh and msgs = msgs
      and already = True and key = key and peer_id = peer_id] show ?thesis
    by (auto simp: dht_lookup_on_single_provider_def)
next
  case False
  note wait = ask_and_wait_answered [OF _ assms(5), where send = send and fresh = fresh and msgs = msgs
      and already = False and key = key and peer_id = peer_id]
  show ?thesis
  proof (cases "dial su node (peer_id, addr)")
    case Panics
    with False dial_panics [OF assms(4,3), of peer_id addr] show ?thesis
      by (simp add: dht_lookup_on_single_provider_def)
  next
    case (Returns x)
    then obtain node1 ls q where d: "dial su node (peer_id, addr) = Returns (node1, ls, q)" by (cases x) auto
    note frame = dial_frame [OF d] and inv = dial_inv [OF assms(1,2) d]
    show ?thesis
    proof (cases "q = Shook (Inr peer_id)")
      case True
      with wait [OF inv] False d show ?thesis by (auto simp: dht_lookup_on_single_provider_def)
    next
      case other: False
      with frame inv False d show ?thesis
        by (auto simp: dht_lookup_on_single_provider_def split: dialed.splits sum.splits)
    qed
  qed
qed

theorem single_provider_lookup_witness:
  "\<exists>node :: (u8, u8, unit, node_event list) Node. node_inv node \<and>
    (let su = \<lparr>sr_listeners = [None, Some [()]], sr_ours = (), sr_theirs = (), sr_draw = sample_draw 1,
               sr_write_half = 3, sr_task = 4, sr_inbox = write_frame [9]\<rparr>
     in case dht_lookup_on_single_provider (\<lambda>c e. Some (c @ [e])) [] (\<lambda>node. node) [] su node (sample_peer 9)
            (sample_peer 5, local_addr 1) of
          Panics \<Rightarrow> False
        | Returns (node', effs, r) \<Rightarrow> node_inv node')"
proof -
  let ?c = "\<lparr>raw_bytes = (\<lambda>p. Inr [7]), from_raw_bytes = (\<lambda>bs. Inl ''bad'')\<rparr>"
  let ?node = "sample_node\<lparr>nd_env := sample_base ?c 1\<rparr>"
  let ?su = "\<lparr>sr_listeners = [None, Some [()]], sr_ours = (), sr_theirs = (), sr_draw = sample_draw 1,
               sr_write_half = 3, sr_task = 4, sr_inbox = write_frame [9]\<rparr>"
  have inv: "node_inv ?node"
    using sample_node_inv by (simp add: node_inv_def sample_base_def)
  have "sha_law (ne_lib (nd_env ?node))" "quits_serialise (nd_env ?node)"
    by (simp_all add: sample_base_def quits_serialise_def)
  note r = single_provider_lookup [OF inv this, where su = ?su and later = "\<lambda>node. node"
      and send = "\<lambda>c e. Some (c @ [e])" and fresh = "[]" and msgs = "[]"
      and key = "sample_peer 9" and peer_id = "sample_peer 5" and addr = "local_addr 1"]
  have "connect () () [None, Some [()]] (local_addr 1) \<noteq> Panics"
    by (simp add: connect_local usize_max_def)
  with r have "case dht_lookup_on_single_provider (\<lambda>c e. Some (c @ [e])) [] (\<lambda>node. node) [] ?su ?node
      (sample_peer 9) (sample_peer 5, local_addr 1) of
        Panics \<Rightarrow> False | Returns (node', effs, r) \<Rightarrow> node_inv node'"
    by (auto simp: harmless_def split: outcome.splits)
  with inv show ?thesis unfolding Let_def by blast
qed

end
