(* ===== verification/Crossing.thy ===== *)
theory Crossing
  imports Dialing
begin

text \<open>
  Two nodes that dial each other at the same time: the handshakes on the two streams share the
  pools of the nodes, and what one of them registers the other one can refuse
  (\<open>ConnectionPool::insert\<close> in \<open>src/node/connections.rs\<close>, called from \<open>src/node/handshake.rs\<close>).
\<close>

section \<open>Two connections at once\<close>

text \<open>
  Two nodes with two streams between them, and a handshake at each of the four ends. The tasks
  of one node share its pool: a step on one of the streams is followed by the pools of the
  other.
\<close>

type_synonym dialog = "(HandshakeError + PeerID, HandshakeError + PeerID) link"

definition with_pools :: "dialog \<Rightarrow> dialog \<Rightarrow> dialog" where
  "with_pools s t = t\<lparr>l_pool := l_pool s, r_pool := r_pool s\<rparr>"

inductive crossing_step :: "dialog \<times> dialog \<Rightarrow> dialog \<times> dialog \<Rightarrow> bool" where
  one: "link_step s s' \<Longrightarrow> crossing_step (s, t) (s', with_pools s' t)"
| two: "link_step t t' \<Longrightarrow> crossing_step (s, t) (with_pools t' s, t')"

lemma with_pools_simps [simp]:
  "with_pools s (with_pools s' t) = with_pools s t"
  "l_pool (with_pools s t) = l_pool s" "r_pool (with_pools s t) = r_pool s"
  by (simp_all add: with_pools_def)

lemma with_same_pools: "l_pool s = l_pool t \<Longrightarrow> r_pool s = r_pool t \<Longrightarrow> with_pools s t = t"
  by (simp add: with_pools_def)

lemma crossing_one:
  "link_step\<^sup>*\<^sup>* s s' \<Longrightarrow> with_pools s t = t \<Longrightarrow> crossing_step\<^sup>*\<^sup>* (s, t) (s', with_pools s' t)"
proof (induction rule: rtranclp_induct)
  case (step u v)
  from crossing_step.one [OF step.hyps(2), of "with_pools u t"]
  show ?case using step by (auto intro: rtranclp.rtrancl_into_rtrancl)
qed simp

lemma crossing_two:
  "link_step\<^sup>*\<^sup>* t t' \<Longrightarrow> with_pools t s = s \<Longrightarrow> crossing_step\<^sup>*\<^sup>* (s, t) (with_pools t' s, t')"
proof (induction rule: rtranclp_induct)
  case (step u v)
  from crossing_step.two [OF step.hyps(2), of "with_pools u s"]
  show ?case using step by (auto intro: rtranclp.rtrancl_into_rtrancl)
qed simp

abbreviation dialog_at :: "(HandshakeError + PeerID) proc \<Rightarrow> ConnectionPool \<Rightarrow> bytes \<Rightarrow>
    (HandshakeError + PeerID) proc \<Rightarrow> ConnectionPool \<Rightarrow> bytes \<Rightarrow> dialog" where
  "dialog_at p pool i q qool j \<equiv>
     \<lparr>l_task = p, l_pool = pool, l_inbox = i, r_task = q, r_pool = qool, r_inbox = j\<rparr>"

lemma run_one_left:
  "exec p pa i = (p', pa', i', out) \<Longrightarrow> j' = j @ out \<Longrightarrow>
    crossing_step\<^sup>*\<^sup>* (dialog_at p pa i q pb j, dialog_at x pa k y pb l)
      (dialog_at p' pa' i' q pb j', dialog_at x pa' k y pb l)"
  using crossing_one [OF exec_left, where t = "dialog_at x pa k y pb l", of p pa i p' pa' i' out q pb j]
  by (simp add: with_pools_def)

lemma run_one_right:
  "exec q pb j = (q', pb', j', out) \<Longrightarrow> i' = i @ out \<Longrightarrow>
    crossing_step\<^sup>*\<^sup>* (dialog_at p pa i q pb j, dialog_at x pa k y pb l)
      (dialog_at p pa i' q' pb' j', dialog_at x pa k y pb' l)"
  using crossing_one [OF exec_right, where t = "dialog_at x pa k y pb l", of q pb j q' pb' j' out p pa i]
  by (simp add: with_pools_def)

lemma run_two_left:
  "exec x pa k = (x', pa', k', out) \<Longrightarrow> l' = l @ out \<Longrightarrow>
    crossing_step\<^sup>*\<^sup>* (dialog_at p pa i q pb j, dialog_at x pa k y pb l)
      (dialog_at p pa' i q pb j, dialog_at x' pa' k' y pb l')"
  using crossing_two [OF exec_left, where s = "dialog_at p pa i q pb j", of x pa k x' pa' k' out y pb l]
  by (simp add: with_pools_def)

lemma run_two_right:
  "exec y pb l = (y', pb', l', out) \<Longrightarrow> k' = k @ out \<Longrightarrow>
    crossing_step\<^sup>*\<^sup>* (dialog_at p pa i q pb j, dialog_at x pa k y pb l)
      (dialog_at p pa i q pb' j, dialog_at x pa k' y' pb' l')"
  using crossing_two [OF exec_right, where s = "dialog_at p pa i q pb j", of y pb l y' pb' l' out x pa k]
  by (simp add: with_pools_def)

text \<open>
  The two pools after each node has registered another stream, and the bytes that are left: on
  the stream that one node has registered, the refusal of the other.
\<close>

definition crossed ::
  "('pk, 'sk, 'rng) node_env \<Rightarrow> ConnectionPool \<Rightarrow> nat \<Rightarrow> nat \<Rightarrow>
    ('pk, 'sk, 'rng) node_env \<Rightarrow> ConnectionPool \<Rightarrow> nat \<Rightarrow> nat \<Rightarrow> bytes \<Rightarrow> dialog \<times> dialog" where
  "crossed ea pa wa ta eb pb wb tb refusal =
     (let pa' = connected pa (ne_peer_id eb) (new_connection wa ta (ne_addr eb));
          pb' = connected pb (ne_peer_id ea) (new_connection wb tb (ne_addr ea))
      in (dialog_at (Done (Inr (ne_peer_id eb))) pa' refusal (Done (Inl AlreadyConnected)) pb' [],
          dialog_at (Done (Inl AlreadyConnected)) pa' [] (Done (Inr (ne_peer_id ea))) pb' refusal))"

lemma contains_connected: "pool_inv pool \<Longrightarrow> contains (connected pool i peer) i"
  using pool_invD(1) [of pool] by (simp add: contains_def bt_contains_def connected_def bt.get_ins)

lemma crossed_from_half_way:
  assumes ab: "meets ea da xa pa eb db" and ba: "meets eb db xb pb ea da"
    and refusal: "raw_bytes (ne_codec ea) already_connected_packet = Inr bs"
    and inv: "pool_inv pa" "pool_inv pb"
  shows "crossing_step\<^sup>*\<^sup>* (half_way ea pa w1 t1 eb pb v1 u1, half_way ea pa w2 t2 eb pb v2 u2)
    (crossed ea pa w1 t1 eb pb v2 u2 (write_frame bs))"
proof -
  have refusal': "raw_bytes (ne_codec eb) already_connected_packet = Inr bs"
    using refusal ab by (simp add: meets_def)
  have na: "\<not> contains pa (ne_peer_id eb)" and nb: "\<not> contains pb (ne_peer_id ea)"
    using ab ba unfolding meets_def by blast+
  let ?A = "\<lambda>w t. bind_proc (await_ehlo ea (ne_peer_id eb)) (finish ea w t)"
  let ?B = "\<lambda>w t. bind_proc (await_ehlo eb (ne_peer_id ea)) (finish eb w t)"
  let ?ha = "frame_of ea (ehlo_packet ea)" and ?hb = "frame_of eb (ehlo_packet eb)"
  let ?pa = "connected pa (ne_peer_id eb) (new_connection w1 t1 (ne_addr eb))"
  let ?pb = "connected pb (ne_peer_id ea) (new_connection v2 u2 (ne_addr ea))"
  note a = last_frame [OF ab, where inc = "[]", simplified] and b = last_frame [OF ba, where inc = "[]", simplified]
  note a_new = trans [OF a exec_finish_new [OF na]] and b_new = trans [OF b exec_finish_new [OF nb]]
  note a_known = trans [OF a exec_finish_known [OF contains_connected [OF inv(1)] refusal]]
  note b_known = trans [OF b exec_finish_known [OF contains_connected [OF inv(2)] refusal']]
  let ?s0 = "(dialog_at (?A w1 t1) pa ?hb (?B v1 u1) pb ?ha, dialog_at (?A w2 t2) pa ?hb (?B v2 u2) pb ?ha)"
  let ?s1 = "(dialog_at (Done (Inr (ne_peer_id eb))) ?pa [] (?B v1 u1) pb ?ha,
       dialog_at (?A w2 t2) ?pa ?hb (?B v2 u2) pb ?ha)"
  let ?s2 = "(dialog_at (Done (Inr (ne_peer_id eb))) ?pa [] (?B v1 u1) ?pb ?ha,
       dialog_at (?A w2 t2) ?pa ?hb (Done (Inr (ne_peer_id ea))) ?pb [])"
  let ?s3 = "(dialog_at (Done (Inr (ne_peer_id eb))) ?pa (write_frame bs) (Done (Inl AlreadyConnected)) ?pb [],
       dialog_at (?A w2 t2) ?pa ?hb (Done (Inr (ne_peer_id ea))) ?pb [])"
  have s1: "crossing_step\<^sup>*\<^sup>* ?s0 ?s1" by (rule run_one_left [OF a_new]) simp
  have s2: "crossing_step\<^sup>*\<^sup>* ?s1 ?s2" by (rule run_two_right [OF b_new]) simp
  have s3: "crossing_step\<^sup>*\<^sup>* ?s2 ?s3" by (rule run_one_right [OF b_known]) simp
  have s4: "crossing_step\<^sup>*\<^sup>* ?s3 (crossed ea pa w1 t1 eb pb v2 u2 (write_frame bs))"
    unfolding crossed_def Let_def by (rule run_two_left [OF a_known]) simp
  show ?thesis
    unfolding half_way_def
    by (rule rtranclp_trans [OF rtranclp_trans [OF rtranclp_trans [OF s1 s2] s3] s4])
qed

text \<open>A refusal that the reading task finds on a registered stream ends the connection.\<close>

lemma refusal_disconnects:
  assumes "codec_law (ne_codec (nd_env node))" and "cp_node_ref (nd_connections node)"
    and "raw_bytes (ne_codec (nd_env node)) already_connected_packet = Inr bs" and "length bs < 1000000"
  shows "reader_round (ne_codec (nd_env node)) (write_frame bs) = Handle already_connected_packet []
    \<and> (\<exists>node' effs. on_packet dbg shuffle send node n already_connected_packet = Returns (node', effs)
        \<and> nd_connections node' = (nd_connections node)\<lparr>cp_connections := bt_remove n (cp_connections (nd_connections node))\<rparr>)"
proof
  have "from_raw_bytes (ne_codec (nd_env node)) bs = Inr already_connected_packet"
    using assms(1,3) by (simp add: codec_law_def)
  then show "reader_round (ne_codec (nd_env node)) (write_frame bs) = Handle already_connected_packet []"
    using assms(4) read_frame_write [of bs "[]"] by (simp add: reader_round_def)
  obtain node1 effs where d: "disconnecting send node n quit_received = Returns (node1, effs)"
    using disconnecting_total [OF assms(2)] by blast
  from d disconnecting_connections [OF d]
  show "\<exists>node' effs. on_packet dbg shuffle send node n already_connected_packet = Returns (node', effs)
        \<and> nd_connections node' = (nd_connections node)\<lparr>cp_connections := bt_remove n (cp_connections (nd_connections node))\<rparr>"
    by (auto simp: already_connected_packet_def event_eq handled_def)
qed

lemma meets_pool:
  "meets env d ex pool env' d' \<Longrightarrow> \<not> contains pool' (ne_peer_id env') \<Longrightarrow> meets env d ex pool' env' d'"
  unfolding meets_def by blast

lemma connected_removed:
  assumes "pool_inv pool" and "\<not> contains pool n"
  shows "(connected pool n peer)\<lparr>cp_connections := bt_remove n (cp_connections (connected pool n peer))\<rparr> = pool"
  using bt.del_ins_absent [OF pool_invD(1) [OF assms(1)], of n peer] assms(2)
  by (simp add: connected_def contains_def bt_contains_def)

lemma refusal_undone:
  assumes "node_inv node" and "\<not> contains (nd_connections node) n" and "codec_law (ne_codec (nd_env node))"
    and "raw_bytes (ne_codec (nd_env node)) already_connected_packet = Inr bs" and "length bs < 1000000"
  shows "reader_round (ne_codec (nd_env node)) (write_frame bs) = Handle already_connected_packet []
    \<and> (\<exists>node' effs. on_packet dbg shuffle send (node\<lparr>nd_connections := connected (nd_connections node) n peer\<rparr>) n
          already_connected_packet = Returns (node', effs) \<and> nd_connections node' = nd_connections node)"
proof -
  let ?node = "node\<lparr>nd_connections := connected (nd_connections node) n peer\<rparr>"
  have inv: "pool_inv (nd_connections node)" and "cp_node_ref (nd_connections ?node)"
    using assms(1) by (simp_all add: node_inv_def connected_def)
  from refusal_disconnects [OF _ this(2) _ assms(5), of dbg shuffle send n] assms(3,4)
  obtain node' effs where "reader_round (ne_codec (nd_env node)) (write_frame bs) = Handle already_connected_packet []"
    and "on_packet dbg shuffle send ?node n already_connected_packet = Returns (node', effs)"
    and "nd_connections node' = (connected (nd_connections node) n peer)
      \<lparr>cp_connections := bt_remove n (cp_connections (connected (nd_connections node) n peer))\<rparr>"
    by auto
  with connected_removed [OF inv assms(2)] show ?thesis by simp
qed

section \<open>Properties\<close>

text \<open>
  C32: nodes that dial each other at the same time can end up without a connection. With two
  streams between them and an honest handshake at each end there is a schedule in which each
  node registers another stream and refuses the one that the other has registered; the refusal
  is then read from the registered stream as a quit packet, and when both nodes have handled
  it, neither has any trace of the other in its pool.
\<close>

theorem crossing_dials_cancel:
  assumes "node_inv na" and "node_inv nb"
    and "meets (nd_env na) da xa (nd_connections na) (nd_env nb) db" and "meets (nd_env nb) db xb (nd_connections nb) (nd_env na) da"
    and "meets (nd_env na) da' xa' (nd_connections na) (nd_env nb) db'" and "meets (nd_env nb) db' xb' (nd_connections nb) (nd_env na) da'"
    and "raw_bytes (ne_codec (nd_env na)) already_connected_packet = Inr bs" and "length bs < 1000000"
  shows "\<exists>s t. crossing_step\<^sup>*\<^sup>*
      (handshakes (nd_env na) da xa (nd_connections na) w u (nd_env nb) db xb (nd_connections nb) v y,
       handshakes (nd_env na) da' xa' (nd_connections na) w' u' (nd_env nb) db' xb' (nd_connections nb) v' y') (s, t)
    \<and> l_task s = Done (Inr (ne_peer_id (nd_env nb))) \<and> r_task s = Done (Inl AlreadyConnected)
    \<and> l_task t = Done (Inl AlreadyConnected) \<and> r_task t = Done (Inr (ne_peer_id (nd_env na)))
    \<and> contains (l_pool s) (ne_peer_id (nd_env nb)) \<and> contains (r_pool t) (ne_peer_id (nd_env na))
    \<and> reader_round (ne_codec (nd_env na)) (l_inbox s) = Handle already_connected_packet []
    \<and> reader_round (ne_codec (nd_env nb)) (r_inbox t) = Handle already_connected_packet []
    \<and> (\<exists>na' effs. on_packet dbg shuffle send (na\<lparr>nd_connections := l_pool s\<rparr>) (ne_peer_id (nd_env nb))
          already_connected_packet = Returns (na', effs) \<and> nd_connections na' = nd_connections na)
    \<and> (\<exists>nb' effs. on_packet dbg shuffle send (nb\<lparr>nd_connections := r_pool t\<rparr>) (ne_peer_id (nd_env na))
          already_connected_packet = Returns (nb', effs) \<and> nd_connections nb' = nd_connections nb)"
proof -
  let ?ea = "nd_env na" and ?eb = "nd_env nb" and ?pa = "nd_connections na" and ?pb = "nd_connections nb"
  have inv: "pool_inv ?pa" "pool_inv ?pb" "cp_node_ref ?pa" "cp_node_ref ?pb"
    using assms(1,2) by (simp_all add: node_inv_def)
  let ?s = "half_way ?ea ?pa w u ?eb ?pb v y" and ?t = "half_way ?ea ?pa w' u' ?eb ?pb v' y'"
  have ref: "raw_bytes (ne_codec ?eb) already_connected_packet = Inr bs" "codec_law (ne_codec ?ea)" "codec_law (ne_codec ?eb)"
    using assms(3,4,7) by (simp_all add: meets_def)
  have absent: "\<not> contains ?pa (ne_peer_id ?eb)" "\<not> contains ?pb (ne_peer_id ?ea)"
    using assms(3,4) unfolding meets_def by blast+
  let ?h = "handshakes ?ea da xa ?pa w u ?eb db xb ?pb v y" and ?h' = "handshakes ?ea da' xa' ?pa w' u' ?eb db' xb' ?pb v' y'"
  let ?s = "half_way ?ea ?pa w u ?eb ?pb v y" and ?t = "half_way ?ea ?pa w' u' ?eb ?pb v' y'"
  obtain s t where st: "crossed ?ea ?pa w u ?eb ?pb v' y' (write_frame bs) = (s, t)" by (meson surj_pair)
  have s1: "crossing_step\<^sup>*\<^sup>* (?h, ?h') (?s, ?h')"
    using crossing_one [OF handshakes_half_way [OF assms(3,4)], where t = ?h']
    by (simp add: with_pools_def half_way_def handshakes_def)
  have s2: "crossing_step\<^sup>*\<^sup>* (?s, ?h') (?s, ?t)"
    using crossing_two [OF handshakes_half_way [OF assms(5,6)], where s = ?s]
    by (simp add: with_pools_def half_way_def handshakes_def)
  have s3: "crossing_step\<^sup>*\<^sup>* (?s, ?t) (s, t)"
    unfolding st [symmetric] by (rule crossed_from_half_way [OF assms(3,4,7) inv(1,2)])
  have run: "crossing_step\<^sup>*\<^sup>* (?h, ?h') (s, t)" by (rule rtranclp_trans [OF rtranclp_trans [OF s1 s2] s3])
  let ?qa = "connected ?pa (ne_peer_id ?eb) (new_connection w u (ne_addr ?eb))"
  let ?qb = "connected ?pb (ne_peer_id ?ea) (new_connection v' y' (ne_addr ?ea))"
  have s: "s = dialog_at (Done (Inr (ne_peer_id ?eb))) ?qa (write_frame bs) (Done (Inl AlreadyConnected)) ?qb []"
    and t: "t = dialog_at (Done (Inl AlreadyConnected)) ?qa [] (Done (Inr (ne_peer_id ?ea))) ?qb (write_frame bs)"
    using st by (simp_all add: crossed_def Let_def)
  note a = refusal_undone [OF assms(1) absent(1) ref(2) assms(7,8)]
    and b = refusal_undone [OF assms(2) absent(2) ref(3) ref(1) assms(8)]
  from run a b show ?thesis
    using contains_connected [OF inv(1)] contains_connected [OF inv(2)]
    by (intro exI [of _ s] exI [of _ t]) (simp add: s t)
qed

theorem crossing_dials_cancel_witness:
  "let a = node_new (sample_env 1) ([] :: node_event list); b = node_new (sample_env 2) ([] :: node_event list);
       s0 = handshakes (sample_env 1) (sample_draw 1) None (nd_connections a) 1 2
         (sample_env 2) (sample_draw 2) None (nd_connections b) 3 4
   in \<exists>s t. crossing_step\<^sup>*\<^sup>* (s0, s0) (s, t) \<and> r_task s = Done (Inl AlreadyConnected)
      \<and> l_task t = Done (Inl AlreadyConnected)"
proof -
  let ?a = "node_new (sample_env 1) [] :: (u8, u8, unit, node_event list) Node"
  let ?b = "node_new (sample_env 2) [] :: (u8, u8, unit, node_event list) Node"
  have env: "nd_env ?a = sample_env 1" "nd_env ?b = sample_env 2" by (simp_all add: node_new_def Let_def)
  have inv: "node_inv ?a" "node_inv ?b" by (rule node_new_inv; simp add: wf_peer_def)+
  have empty: "\<not> contains (nd_connections ?a) i" "\<not> contains (nd_connections ?b) i" for i
    by (simp_all add: node_new_def Let_def set_node_ref_def pool_new_def contains_def bt_contains_def bt_get_def)
  have meets: "meets (nd_env ?a) (sample_draw 1) None (nd_connections ?a) (nd_env ?b) (sample_draw 2)"
    "meets (nd_env ?b) (sample_draw 2) None (nd_connections ?b) (nd_env ?a) (sample_draw 1)"
    unfolding env by (rule meets_pool [OF sample_meets(1) empty(1)], rule meets_pool [OF sample_meets(2) empty(2)])
  have "short (raw_bytes (ne_codec (nd_env ?a)) already_connected_packet)"
    using sample_packets_short [OF sample_packets_mem(8)] by (simp add: env)
  then obtain bs where bs: "raw_bytes (ne_codec (nd_env ?a)) already_connected_packet = Inr bs" "length bs < 1000000"
    by (rule shortE)
  from crossing_dials_cancel [OF inv meets meets bs, of 1 2 3 4 1 2 3 4 True "\<lambda>ps. ps" "\<lambda>c e. Some (c @ [e])"]
  have "\<exists>s t. crossing_step\<^sup>*\<^sup>*
      (handshakes (nd_env ?a) (sample_draw 1) None (nd_connections ?a) 1 2 (nd_env ?b) (sample_draw 2) None (nd_connections ?b) 3 4,
       handshakes (nd_env ?a) (sample_draw 1) None (nd_connections ?a) 1 2 (nd_env ?b) (sample_draw 2) None (nd_connections ?b) 3 4)
      (s, t) \<and> r_task s = Done (Inl AlreadyConnected) \<and> l_task t = Done (Inl AlreadyConnected)"
    by blast
  then show ?thesis unfolding Let_def env .
qed

end
