(* ===== verification/Running_Node.thy ===== *)
theory Running_Node
  imports Network_Tasks
begin

text \<open>
  A node with all its tasks: the reading tasks of its connections, the handshakes in flight, the
  periodic pings, the refreshes of its buckets and the questions of its discoveries and lookups
  (\<open>Node::new\<close> in \<open>src/node/node.rs\<close> starts the endless ones). The tasks interleave between
  their points of waiting; an action is one stretch of one task.
\<close>

section \<open>Channels\<close>

text \<open>
  A channel is its number and the messages sent so far; a send fails when the receiver of the
  channel has been dropped.
\<close>

type_synonym channel = "nat \<times> node_event list"

definition deliver :: "nat set \<Rightarrow> (channel, node_event) channel_send" where
  "deliver opened = (\<lambda>(k, msgs) e. if k \<in> opened then Some (k, msgs @ [e]) else None)"

definition messages :: "nat \<Rightarrow> channel EventListeners \<Rightarrow> node_event list" where
  "messages k l = (case find (\<lambda>c. fst c = k) (listeners l) of None \<Rightarrow> [] | Some c \<Rightarrow> snd c)"

section \<open>State\<close>

text \<open>A periodic ping: its peer, and how far it is. \<open>Waiting id k\<close> listens on channel \<open>k\<close>.\<close>

datatype ping_phase = Starting | Sent u32 | Waiting u32 nat | Over

text \<open>
  Besides the node: the number of channels made, those whose receiver exists, the peers whose
  reading task has died, the handshakes in flight with the bytes that have arrived for them,
  the pings, the discoveries that were spawned and have not started, how many messages the task
  that refreshes the buckets has read from its channel 0, and how many ping identifiers were
  drawn.
\<close>

record ('pk, 'sk, 'rng) running =
  rn_node :: "('pk, 'sk, 'rng, channel) Node"
  rn_channels :: nat
  rn_open :: "nat set"
  rn_dead :: "PeerID set"
  rn_tasks :: "(unit proc \<times> bytes) list"
  rn_pings :: "(PeerID \<times> ping_phase) list"
  rn_discoveries :: "(usize \<times> usize) list"
  rn_refreshed :: nat
  rn_drawn :: nat

text \<open>\<open>Node::new\<close>, up to the first stretch of any of the tasks that it spawns.\<close>

definition running_new :: "('pk, 'sk, 'rng) node_env \<Rightarrow> ('pk, 'sk, 'rng) running" where
  "running_new env =
     \<lparr>rn_node = node_new env (0, []), rn_channels = 1, rn_open = {0}, rn_dead = {}, rn_tasks = [],
      rn_pings = [], rn_discoveries = [], rn_refreshed = 0, rn_drawn = 0\<rparr>"

section \<open>Actions\<close>

datatype 'rng action =
    Arrives "(PeerID \<times> string) list \<Rightarrow> (PeerID \<times> string) list" PeerID bytes
  | ReadFails PeerID
  | PingRound
  | PingStep nat usize
  | RefreshRound
  | RefreshOnDisconnect
  | StartDiscovery nat
  | AskDiscovery PeerID bytes PeerID
  | AskValue KeyID PeerID
  | LeaveProvider PeerID
  | Incoming "'rng draw" nat nat nat
  | Dial "unit list option list" "'rng draw" PeerID string nat nat
  | Receive nat bytes
  | TaskStep nat
  | TaskError nat lib_error
  | UserCommand Command
  | DropReceiver nat

definition spawned :: "effect list \<Rightarrow> (usize \<times> usize) list" where
  "spawned effs = concat (map (\<lambda>e. case e of SpawnDiscovery l b \<Rightarrow> [(l, b)] | _ \<Rightarrow> []) effs)"

text \<open>A new channel for the next \<open>listen\<close>.\<close>

definition new_channel :: "('pk, 'sk, 'rng) running \<Rightarrow> ('pk, 'sk, 'rng) running" where
  "new_channel s = s\<lparr>rn_channels := rn_channels s + 1, rn_open := insert (rn_channels s) (rn_open s)\<rparr>"

text \<open>
  One round of the reading task of the peer \<open>n\<close> of a node, on the bytes that have arrived for it,
  and the same among the other tasks.
\<close>

definition hears ::
  "bool \<Rightarrow> ((PeerID \<times> string) list \<Rightarrow> (PeerID \<times> string) list) \<Rightarrow> ('c, node_event) channel_send \<Rightarrow>
    ('pk, 'sk, 'rng, 'c) Node \<Rightarrow> PeerID \<Rightarrow> bytes \<Rightarrow> ('pk, 'sk, 'rng, 'c) handled" where
  "hears dbg shuffle send node n bs =
     (case reader_round (ne_codec (nd_env node)) bs of
        Wait \<Rightarrow> handled node []
      | Skip rest \<Rightarrow> handled node []
      | Die \<Rightarrow> Panics
      | Handle p rest \<Rightarrow> on_packet dbg shuffle send node n p)"

definition arrives ::
  "bool \<Rightarrow> ((PeerID \<times> string) list \<Rightarrow> (PeerID \<times> string) list) \<Rightarrow> PeerID \<Rightarrow> bytes \<Rightarrow>
    ('pk, 'sk, 'rng) running \<Rightarrow> ('pk, 'sk, 'rng) running outcome" where
  "arrives dbg shuffle n bs s =
     (if contains (nd_connections (rn_node s)) n \<and> n \<notin> rn_dead s
      then bind_outcome (hears dbg shuffle (deliver (rn_open s)) (rn_node s) n bs)
             (\<lambda>(node, effs). Returns (s\<lparr>rn_node := node\<rparr>))
      else Returns s)"

lemma arrives_eq:
  "arrives dbg shuffle n bs s =
     (if contains (nd_connections (rn_node s)) n \<and> n \<notin> rn_dead s then
        (case reader_round (ne_codec (nd_env (rn_node s))) bs of
           Wait \<Rightarrow> Returns s
         | Skip rest \<Rightarrow> Returns s
         | Die \<Rightarrow> Panics
         | Handle p rest \<Rightarrow>
             bind_outcome (on_packet dbg shuffle (deliver (rn_open s)) (rn_node s) n p)
               (\<lambda>(node, effs). Returns (s\<lparr>rn_node := node\<rparr>)))
      else Returns s)"
  by (simp add: arrives_def hears_def handled_def split: reader_action.split)

text \<open>A failure of the stream that the reading task of a peer reads: \<open>unwrap\<close> panics.\<close>

definition read_fails :: "PeerID \<Rightarrow> ('pk, 'sk, 'rng) running \<Rightarrow> ('pk, 'sk, 'rng) running outcome" where
  "read_fails n s =
     (if contains (nd_connections (rn_node s)) n \<and> n \<notin> rn_dead s then Panics else Returns s)"

text \<open>A round of the task that pings every peer: one new task per connected peer.\<close>

definition ping_round :: "('pk, 'sk, 'rng) running \<Rightarrow> ('pk, 'sk, 'rng) running" where
  "ping_round s = s\<lparr>rn_pings := rn_pings s @ map (\<lambda>n. (n, Starting)) (peers (nd_connections (rn_node s)))\<rparr>"

text \<open>
  A stretch of a ping: send, listen, and then the verdict. A pong that has come in time took
  \<open>nanos\<close>; without one the stretch is the timeout. The receiver is dropped with the inner
  future, before the verdict.
\<close>

definition ping_step :: "nat \<Rightarrow> usize \<Rightarrow> ('pk, 'sk, 'rng) running \<Rightarrow> ('pk, 'sk, 'rng) running outcome" where
  "ping_step i nanos s =
     (if i < length (rn_pings s) then
        (case rn_pings s ! i of
           (n, Starting) \<Rightarrow>
             bind_outcome (ping_send (rn_node s) n)
               (\<lambda>(node, effs, ping_id).
                  Returns (s\<lparr>rn_node := node, rn_pings := (rn_pings s)[i := (n, Sent ping_id)],
                             rn_drawn := rn_drawn s + 1\<rparr>))
         | (n, Sent ping_id) \<Rightarrow>
             Returns ((new_channel s)\<lparr>rn_node := ping_listen (rn_channels s, []) (rn_node s),
                        rn_pings := (rn_pings s)[i := (n, Waiting ping_id (rn_channels s))]\<rparr>)
         | (n, Waiting ping_id k) \<Rightarrow>
             (let result =
                    (case await_pong n ping_id (messages k (nd_on_pong_packet (rn_node s))) of
                       Some _ \<Rightarrow> Some nanos | None \<Rightarrow> None);
                  opened = rn_open s - {k}
              in bind_outcome (ping_finish (deliver opened) (rn_node s) n result)
                   (\<lambda>(node, effs).
                      Returns (s\<lparr>rn_node := node, rn_open := opened, rn_pings := (rn_pings s)[i := (n, Over)]\<rparr>)))
         | (n, Over) \<Rightarrow> Returns s)
      else Returns s)"

text \<open>The refreshes: periodic, and one for each message about a disconnection.\<close>

definition refresh_round :: "('pk, 'sk, 'rng) running \<Rightarrow> ('pk, 'sk, 'rng) running outcome" where
  "refresh_round s =
     bind_outcome (refresh_buckets (nd_connections (rn_node s)))
       (\<lambda>effs. Returns (s\<lparr>rn_discoveries := rn_discoveries s @ spawned effs\<rparr>))"

definition refresh_on_disconnect :: "('pk, 'sk, 'rng) running \<Rightarrow> ('pk, 'sk, 'rng) running outcome" where
  "refresh_on_disconnect s =
     (if rn_refreshed s < length (messages 0 (nd_on_disconnect (rn_node s)))
      then refresh_round (s\<lparr>rn_refreshed := rn_refreshed s + 1\<rparr>)
      else Returns s)"

text \<open>The start of a spawned discovery: it counts the peers that its bucket misses.\<close>

definition start_discovery :: "bool \<Rightarrow> nat \<Rightarrow> ('pk, 'sk, 'rng) running \<Rightarrow> ('pk, 'sk, 'rng) running outcome" where
  "start_discovery dbg i s =
     (if i < length (rn_discoveries s) then
        (case rn_discoveries s ! i of (l, b) \<Rightarrow>
           bind_outcome (missing_peers dbg (length (peers_on_bucket (nd_connections (rn_node s)) l b)))
             (\<lambda>m. Returns (s\<lparr>rn_discoveries := take i (rn_discoveries s) @ drop (Suc i) (rn_discoveries s)\<rparr>)))
      else Returns s)"

text \<open>The questions of discoveries and lookups; both listen before they send.\<close>

definition ask_on_new_channel ::
  "(channel \<Rightarrow> ('pk, 'sk, 'rng, channel) Node \<Rightarrow> (('pk, 'sk, 'rng, channel) Node \<times> effect list \<times> u32) outcome) \<Rightarrow>
    ('pk, 'sk, 'rng) running \<Rightarrow> ('pk, 'sk, 'rng) running outcome" where
  "ask_on_new_channel ask s =
     bind_outcome (ask (rn_channels s, []) (rn_node s))
       (\<lambda>(node, effs, request_id). Returns ((new_channel s)\<lparr>rn_node := node\<rparr>))"

definition leave_provider :: "PeerID \<Rightarrow> ('pk, 'sk, 'rng) running \<Rightarrow> ('pk, 'sk, 'rng) running outcome" where
  "leave_provider n s =
     bind_outcome (disconnecting (deliver (rn_open s)) (rn_node s) n mission_accomplished)
       (\<lambda>(node, effs). Returns (s\<lparr>rn_node := node\<rparr>))"

text \<open>Handshakes: accepted under a time limit, or dialed for an expected peer.\<close>

definition incoming ::
  "'rng draw \<Rightarrow> nat \<Rightarrow> nat \<Rightarrow> nat \<Rightarrow> ('pk, 'sk, 'rng) running \<Rightarrow> ('pk, 'sk, 'rng) running" where
  "incoming d w task limit s =
     s\<lparr>rn_tasks := rn_tasks s @ [(on_connection (nd_env (rn_node s)) d w task limit, [])]\<rparr>"

definition dialing ::
  "unit list option list \<Rightarrow> 'rng draw \<Rightarrow> PeerID \<Rightarrow> string \<Rightarrow> nat \<Rightarrow> nat \<Rightarrow>
    ('pk, 'sk, 'rng) running \<Rightarrow> ('pk, 'sk, 'rng) running outcome" where
  "dialing ls d n addr w task s =
     bind_outcome (connect () () ls addr)
       (\<lambda>(ls, stream). Returns
          (case stream of
             None \<Rightarrow> s
           | Some _ \<Rightarrow>
               s\<lparr>rn_tasks := rn_tasks s
                   @ [(bind_proc (handshake (nd_env (rn_node s)) d (Some n) w task) (\<lambda>_. Done ()), [])]\<rparr>))"

text \<open>A step of a handshake, and a failure of its stream.\<close>

definition task_becomes ::
  "nat \<Rightarrow> unit proc \<Rightarrow> bytes \<Rightarrow> ('pk, 'sk, 'rng) running \<Rightarrow> ('pk, 'sk, 'rng) running outcome" where
  "task_becomes i p inbox s =
     (case p of Crash \<Rightarrow> Panics | _ \<Rightarrow> Returns (s\<lparr>rn_tasks := (rn_tasks s)[i := (p, inbox)]\<rparr>))"

definition task_step :: "nat \<Rightarrow> ('pk, 'sk, 'rng) running \<Rightarrow> ('pk, 'sk, 'rng) running outcome" where
  "task_step i s =
     (if i < length (rn_tasks s) then
        (case rn_tasks s ! i of (p, inbox) \<Rightarrow>
           (case pstep p (nd_connections (rn_node s)) inbox of
              None \<Rightarrow> Returns s
            | Some (p, pool, rest, out) \<Rightarrow>
                task_becomes i p rest (s\<lparr>rn_node := (rn_node s)\<lparr>nd_connections := pool\<rparr>\<rparr>)))
      else Returns s)"

definition task_error :: "nat \<Rightarrow> lib_error \<Rightarrow> ('pk, 'sk, 'rng) running \<Rightarrow> ('pk, 'sk, 'rng) running outcome" where
  "task_error i e s =
     (if i < length (rn_tasks s) then
        (case rn_tasks s ! i of
           (Recv n k, inbox) \<Rightarrow> task_becomes i (k (Inl e)) inbox s
         | (Send bs k, inbox) \<Rightarrow> task_becomes i (k (Inl e)) inbox s
         | _ \<Rightarrow> Returns s)
      else Returns s)"

definition receive :: "nat \<Rightarrow> bytes \<Rightarrow> ('pk, 'sk, 'rng) running \<Rightarrow> ('pk, 'sk, 'rng) running" where
  "receive i bs s =
     (if i < length (rn_tasks s) then
        (case rn_tasks s ! i of (p, inbox) \<Rightarrow> s\<lparr>rn_tasks := (rn_tasks s)[i := (p, inbox @ bs)]\<rparr>)
      else s)"

text \<open>A command of the user; a ping draws an identifier.\<close>

fun ids_drawn :: "Command \<Rightarrow> nat" where
  "ids_drawn (PingCommand n) = 1"
| "ids_drawn _ = 0"

definition user_command ::
  "(Command \<Rightarrow> string) \<Rightarrow> Command \<Rightarrow> ('pk, 'sk, 'rng) running \<Rightarrow> ('pk, 'sk, 'rng) running outcome" where
  "user_command debug c s =
     bind_outcome (on_command debug (rn_channels s, []) (rn_node s) c)
       (\<lambda>(node, acts). Returns ((new_channel s)
          \<lparr>rn_node := node,
           rn_discoveries := rn_discoveries s
             @ spawned (concat (map (\<lambda>a. case a of Effect e \<Rightarrow> [e] | _ \<Rightarrow> []) acts)),
           rn_drawn := rn_drawn s + ids_drawn c\<rparr>))"

text \<open>
  A task other than the pings and the refresher is done with a channel. (The pings drop their
  receivers themselves, and the refresher never does.)
\<close>

fun awaits :: "nat \<Rightarrow> ping_phase \<Rightarrow> bool" where
  "awaits k (Waiting ping_id k') \<longleftrightarrow> k' = k"
| "awaits k _ \<longleftrightarrow> False"

definition drop_receiver :: "nat \<Rightarrow> ('pk, 'sk, 'rng) running \<Rightarrow> ('pk, 'sk, 'rng) running" where
  "drop_receiver k s =
     (if k = 0 \<or> list_ex (\<lambda>(n, phase). awaits k phase) (rn_pings s) then s
      else s\<lparr>rn_open := rn_open s - {k}\<rparr>)"

fun perform ::
  "bool \<Rightarrow> (Command \<Rightarrow> string) \<Rightarrow> 'rng action \<Rightarrow> ('pk, 'sk, 'rng) running \<Rightarrow> ('pk, 'sk, 'rng) running outcome" where
  "perform dbg debug (Arrives shuffle n bs) s = arrives dbg shuffle n bs s"
| "perform dbg debug (ReadFails n) s = read_fails n s"
| "perform dbg debug PingRound s = Returns (ping_round s)"
| "perform dbg debug (PingStep i nanos) s = ping_step i nanos s"
| "perform dbg debug RefreshRound s = refresh_round s"
| "perform dbg debug RefreshOnDisconnect s = refresh_on_disconnect s"
| "perform dbg debug (StartDiscovery i) s = start_discovery dbg i s"
| "perform dbg debug (AskDiscovery target msk n) s =
     ask_on_new_channel (\<lambda>fresh node. ask_discovery fresh node target msk n) s"
| "perform dbg debug (AskValue key n) s = ask_on_new_channel (\<lambda>fresh node. ask_provider fresh node key n) s"
| "perform dbg debug (LeaveProvider n) s = leave_provider n s"
| "perform dbg debug (Incoming d w task limit) s = Returns (incoming d w task limit s)"
| "perform dbg debug (Dial ls d n addr w task) s = dialing ls d n addr w task s"
| "perform dbg debug (Receive i bs) s = Returns (receive i bs s)"
| "perform dbg debug (TaskStep i) s = task_step i s"
| "perform dbg debug (TaskError i e) s = task_error i e s"
| "perform dbg debug (UserCommand c) s = user_command debug c s"
| "perform dbg debug (DropReceiver k) s = Returns (drop_receiver k s)"

text \<open>
  A panic kills the task that it happens in: a reading task, or a discovery that starts. A
  reading task ends with its connection.
\<close>

definition perish :: "'rng action \<Rightarrow> ('pk, 'sk, 'rng) running \<Rightarrow> ('pk, 'sk, 'rng) running" where
  "perish a s =
     (case a of
        Arrives shuffle n bs \<Rightarrow> s\<lparr>rn_dead := insert n (rn_dead s)\<rparr>
      | ReadFails n \<Rightarrow> s\<lparr>rn_dead := insert n (rn_dead s)\<rparr>
      | StartDiscovery i \<Rightarrow> s\<lparr>rn_discoveries := take i (rn_discoveries s) @ drop (Suc i) (rn_discoveries s)\<rparr>
      | _ \<Rightarrow> s)"

definition settle :: "('pk, 'sk, 'rng) running \<Rightarrow> ('pk, 'sk, 'rng) running" where
  "settle s = s\<lparr>rn_dead := Set.filter (contains (nd_connections (rn_node s))) (rn_dead s)\<rparr>"

definition act ::
  "bool \<Rightarrow> (Command \<Rightarrow> string) \<Rightarrow> 'rng action \<Rightarrow> ('pk, 'sk, 'rng) running \<Rightarrow> ('pk, 'sk, 'rng) running" where
  "act dbg debug a s =
     settle (case perform dbg debug a s of Returns s' \<Rightarrow> s' | Panics \<Rightarrow> perish a s)"

fun run_node ::
  "bool \<Rightarrow> (Command \<Rightarrow> string) \<Rightarrow> 'rng action list \<Rightarrow> ('pk, 'sk, 'rng) running \<Rightarrow> ('pk, 'sk, 'rng) running" where
  "run_node dbg debug [] s = s"
| "run_node dbg debug (a # as) s = run_node dbg debug as (act dbg debug a s)"

section \<open>What the operations of the node keep\<close>

text \<open>The peers that were connected and are not any more.\<close>

definition departed :: "ConnectionPool \<Rightarrow> ConnectionPool \<Rightarrow> PeerID list" where
  "departed pool pool' = filter (\<lambda>n. \<not> contains pool' n) (peers pool)"

lemma departed_self [simp]: "departed pool pool = []"
  by (simp add: departed_def contains_iff)

lemma departed_grows: "(\<forall>n. contains pool n \<longrightarrow> contains pool' n) \<Longrightarrow> departed pool pool' = []"
  by (simp add: departed_def contains_iff)

lemma departed_keys: "peers pool' = peers pool \<Longrightarrow> departed pool pool' = []"
  by (simp add: departed_def contains_iff)

lemma filter_eq_distinct: "distinct xs \<Longrightarrow> filter (\<lambda>x. x = n) xs = (if n \<in> set xs then [n] else [])"
  by (induction xs) (auto simp: filter_empty_conv)

lemma departed_remove:
  assumes "pool_inv pool"
  shows "departed pool (pool\<lparr>cp_connections := bt_remove n (cp_connections pool)\<rparr>) =
    (if contains pool n then [n] else [])"
proof -
  let ?pool = "pool\<lparr>cp_connections := bt_remove n (cp_connections pool)\<rparr>"
  have "contains ?pool x \<longleftrightarrow> x \<noteq> n \<and> contains pool x" for x
    by (auto simp: contains_def bt_contains_def bt_get_remove)
  then have "departed pool ?pool = filter (\<lambda>x. x = n) (peers pool)"
    unfolding departed_def by (intro filter_cong) (auto simp: contains_iff)
  also have "\<dots> = (if n \<in> set (peers pool) then [n] else [])"
    by (rule filter_eq_distinct [OF peers_distinct [OF assms]])
  finally show ?thesis by (simp add: contains_iff)
qed

text \<open>
  An operation keeps the invariant of the node and its identity, draws \<open>j\<close> ping identifiers,
  and tells the refresher of the buckets about every peer that leaves.
\<close>

definition evolves ::
  "nat set \<Rightarrow> nat \<Rightarrow> ('pk, 'sk, 'rng, channel) Node \<Rightarrow> ('pk, 'sk, 'rng, channel) Node \<Rightarrow> bool" where
  "evolves opened j node node' \<longleftrightarrow>
     node_inv node' \<and> nd_env node' = nd_env node
   \<and> counter_value (nd_ping_id_counter node') = counter_value (nd_ping_id_counter node) + word_of_nat j
   \<and> (\<forall>log. listeners (nd_on_disconnect node) = [(0, log)] \<and> 0 \<in> opened \<longrightarrow>
        listeners (nd_on_disconnect node') =
          [(0, log @ map EvDisconnect (departed (nd_connections node) (nd_connections node')))])"

lemma evolvesI:
  assumes "node_inv node'" and "nd_env node' = nd_env node"
    and "counter_value (nd_ping_id_counter node') = counter_value (nd_ping_id_counter node) + word_of_nat j"
    and "nd_on_disconnect node' = nd_on_disconnect node"
    and "departed (nd_connections node) (nd_connections node') = []"
  shows "evolves opened j node node'"
  using assms by (simp add: evolves_def)

text \<open>An operation that leaves the table, the store and these fields alone.\<close>

lemma evolves_same:
  assumes "node_inv node" and "nd_env node' = nd_env node" and "nd_connections node' = nd_connections node"
    and "nd_dht node' = nd_dht node" and "nd_ll node' = nd_ll node"
    and "counter_value (nd_ping_id_counter node') = counter_value (nd_ping_id_counter node) + word_of_nat j"
    and "nd_on_disconnect node' = nd_on_disconnect node"
  shows "evolves opened j node node'"
  using assms by (intro evolvesI) (simp_all add: node_inv_def)

lemma disconnect_raises:
  assumes "disconnect c pool n q = Returns (pool', effs)"
  shows "RaiseDisconnect n \<in> set effs \<longleftrightarrow> contains pool n"
  using assms
  by (auto simp: disconnect_def send_packet_unchecked_def with_node_def bind_outcome_Returns_iff
      contains_def bt_contains_def split: if_splits option.splits sum.splits)

lemma disconnecting_frame:
  assumes "disconnecting send node n q = Returns (node', effs)"
  shows "nd_env node' = nd_env node \<and> nd_ping_id_counter node' = nd_ping_id_counter node
    \<and> listeners (nd_on_disconnect node') =
        (if contains (nd_connections node) n then broadcast send (EvDisconnect n) (listeners (nd_on_disconnect node))
         else listeners (nd_on_disconnect node))"
proof -
  from assms obtain pool ls where d: "disconnect (ne_codec (nd_env node)) (nd_connections node) n q = Returns (pool, effs)"
    and e: "(if RaiseDisconnect n \<in> set effs then event send (EvDisconnect n) (nd_on_disconnect node)
      else Returns (nd_on_disconnect node)) = Returns ls"
    and node': "node' = node\<lparr>nd_connections := pool, nd_on_disconnect := ls\<rparr>"
    by (auto simp: disconnecting_def bind_outcome_Returns_iff handled_def split del: if_split)
  from e show ?thesis
    unfolding disconnect_raises [OF d] event_eq node' by (cases "contains (nd_connections node) n") auto
qed

lemma disconnecting_evolves:
  assumes "node_inv node" and "disconnecting (deliver opened) node n q = Returns (node', effs)"
  shows "evolves opened 0 node node'"
proof -
  have "pool_inv (nd_connections node)" using assms(1) by (simp add: node_inv_def)
  from departed_remove [OF this] disconnecting_inv [OF assms] disconnecting_frame [OF assms(2)]
  show ?thesis
    unfolding evolves_def disconnecting_connections [OF assms(2)] by (simp add: deliver_def)
qed

lemma on_packet_evolves:
  assumes "node_inv node" and "on_packet dbg shuffle (deliver opened) node n p = Returns (node', effs)"
  shows "evolves opened 0 node node'"
proof (cases p)
  case (Quit q)
  with assms(2) obtain node1 ls where d: "disconnecting (deliver opened) node n quit_received = Returns (node1, effs)"
    and node': "node' = node1\<lparr>nd_on_quit_packet := ls\<rparr>"
    by (auto simp: bind_outcome_Returns_iff handled_def)
  from disconnecting_evolves [OF assms(1) d] show ?thesis
    by (simp add: evolves_def node' node_inv_def)
next
  case (FindDhtValue q)
  with assms(2) have "nd_env node' = nd_env node" "nd_ping_id_counter node' = nd_ping_id_counter node"
    "nd_on_disconnect node' = nd_on_disconnect node"
    by (auto simp: bind_outcome_Returns_iff handled_def sending_def case_prod_unfold Let_def)
  with on_packet_inv [OF assms] on_packet_connections [OF assms(2)] FindDhtValue show ?thesis
    by (intro evolvesI) simp_all
qed (use assms in \<open>auto intro!: evolves_same simp: bind_outcome_Returns_iff handled_def sending_def
      split: if_splits\<close>)

lemma ping_send_evolves:
  assumes "node_inv node" and "ping_send node n = Returns (node', effs, ping_id)"
  shows "evolves opened 1 node node' \<and> ping_id = counter_value (nd_ping_id_counter node)"
  using assms
  by (auto intro!: evolves_same simp: ping_send_def sending_def handled_def Let_def case_prod_unfold
      bind_outcome_Returns_iff counter_next_def)

lemma ping_listen_evolves: "node_inv node \<Longrightarrow> evolves opened 0 node (ping_listen fresh node)"
  by (auto intro!: evolves_same simp: ping_listen_def)

lemma ask_discovery_evolves:
  "node_inv node \<Longrightarrow> ask_discovery fresh node target msk n = Returns (node', effs, i) \<Longrightarrow> evolves opened 0 node node'"
  by (auto intro!: evolves_same simp: ask_discovery_def sending_def handled_def Let_def case_prod_unfold
      bind_outcome_Returns_iff)

lemma ask_provider_evolves:
  "node_inv node \<Longrightarrow> ask_provider fresh node key n = Returns (node', effs, i) \<Longrightarrow> evolves opened 0 node node'"
  by (auto intro!: evolves_same simp: ask_provider_def sending_def handled_def Let_def case_prod_unfold
      bind_outcome_Returns_iff)

lemma ping_finish_evolves:
  assumes "node_inv node" and "ping_finish (deliver opened) node n result = Returns (node', effs)"
  shows "evolves opened 0 node node'"
proof (cases result)
  case None
  with assms(2) disconnecting_evolves [OF assms(1)] show ?thesis by (simp add: ping_finish_def)
next
  case (Some nanos)
  then obtain pool where p: "set_ping (nd_connections node) n nanos = Returns pool"
    and node': "node' = node\<lparr>nd_connections := pool\<rparr>"
    using assms(2) by (auto simp: ping_finish_def bind_outcome_Returns_iff handled_def)
  have pool: "pool = (nd_connections node)\<lparr>cp_connections :=
      bt_modify n (\<lambda>p. p\<lparr>pi_ping_nanos := Some nanos\<rparr>) (cp_connections (nd_connections node))\<rparr>"
    using p by (simp add: set_ping_def with_node_def split: if_splits)
  have "pool_inv pool" using set_ping_inv [OF _ p] assms(1) by (simp add: node_inv_def)
  moreover have "peers pool = peers (nd_connections node)" by (simp add: pool peers_def)
  ultimately show ?thesis
    using assms(1) departed_keys by (intro evolvesI) (simp_all add: node' node_inv_def pool)
qed

lemma pool_level_inv [simp]: "pool_inv (pool\<lparr>cp_ll := ll\<rparr>) \<longleftrightarrow> pool_inv pool"
  by (simp add: pool_inv_def peers_def)

lemma set_level_inv:
  "node_inv node \<Longrightarrow> node_inv (node\<lparr>nd_ll := ll, nd_connections := (nd_connections node)\<lparr>cp_ll := ll\<rparr>\<rparr>)"
  by (simp add: node_inv_def)

lemma on_command_evolves:
  assumes "node_inv node" and "on_command debug fresh node c = Returns (node', acts)"
  shows "evolves opened (ids_drawn c) node node'"
proof (cases c)
  case (PingCommand n)
  with assms(2) obtain node1 effs ping_id where p: "ping_send node n = Returns (node1, effs, ping_id)"
    and node': "node' = ping_listen fresh node1"
    by (auto simp: bind_outcome_Returns_iff)
  from ping_send_evolves [OF assms(1) p] show ?thesis
    by (auto simp: PingCommand node' ping_listen_def evolves_def node_inv_def)
next
  case (SetLogLevel level)
  with assms have "cp_ll (nd_connections node) = nd_ll node" by (simp add: node_inv_def)
  with assms SetLogLevel set_level_inv [OF assms(1), of "log_set (nd_ll node) level"] show ?thesis
    by (auto intro!: evolvesI departed_keys simp: peers_def)
qed (use assms in \<open>auto intro!: evolves_same simp: bind_outcome_Returns_iff\<close>)

section \<open>What a handshake does to the pool\<close>

text \<open>A task whose accesses all change the pool as \<open>R\<close> says, whatever the pool is by then.\<close>

primrec accesses :: "(ConnectionPool \<Rightarrow> ConnectionPool \<Rightarrow> bool) \<Rightarrow> 'a proc \<Rightarrow> bool" where
  "accesses R (Done a) \<longleftrightarrow> True"
| "accesses R Crash \<longleftrightarrow> True"
| "accesses R (Recv n k) \<longleftrightarrow> (\<forall>x. accesses R (k x))"
| "accesses R (Send bs k) \<longleftrightarrow> (\<forall>x. accesses R (k x))"
| "accesses R (Access upd k) \<longleftrightarrow> (\<forall>x. R x (upd x) \<and> accesses R (k x))"

text \<open>A task whose results all satisfy \<open>Q\<close>, whatever its environment does.\<close>

primrec yields :: "('a \<Rightarrow> bool) \<Rightarrow> 'a proc \<Rightarrow> bool" where
  "yields Q (Done a) \<longleftrightarrow> Q a"
| "yields Q Crash \<longleftrightarrow> True"
| "yields Q (Recv n k) \<longleftrightarrow> (\<forall>x. yields Q (k x))"
| "yields Q (Send bs k) \<longleftrightarrow> (\<forall>x. yields Q (k x))"
| "yields Q (Access upd k) \<longleftrightarrow> (\<forall>x. yields Q (k x))"

lemma yields_bind: "yields P m \<Longrightarrow> (\<And>a. P a \<Longrightarrow> yields Q (f a)) \<Longrightarrow> yields Q (bind_proc m f)"
  by (induction m) auto

lemma yields_any [simp]: "yields (\<lambda>a. True) m"
  by (induction m) auto

lemma accesses_bind:
  "accesses R m \<Longrightarrow> yields P m \<Longrightarrow> (\<And>a. P a \<Longrightarrow> accesses R (f a)) \<Longrightarrow> accesses R (bind_proc m f)"
  by (induction m) auto

lemma accesses_keeps: "keeps_pool m \<Longrightarrow> (\<And>x. R x x) \<Longrightarrow> accesses R m"
  by (induction m) auto

lemma accesses_timed: "accesses R m \<Longrightarrow> accesses R (timed m n)"
  by (induction m arbitrary: n) (auto split: nat.split)

lemma crash_free_timed: "crash_free m \<Longrightarrow> crash_free (timed m n)"
  by (induction m arbitrary: n) (auto split: nat.split)

text \<open>Results of a handshake that are an error, or satisfy \<open>Q\<close>.\<close>

definition unless_error :: "('a \<Rightarrow> bool) \<Rightarrow> HandshakeError + 'a \<Rightarrow> bool" where
  "unless_error Q r = (case r of Inl e \<Rightarrow> True | Inr a \<Rightarrow> Q a)"

lemma unless_error_simps [simp]:
  "unless_error Q (Inl e)" "unless_error Q (Inr a) = Q a"
  by (simp_all add: unless_error_def)

lemma yields_and_then:
  "yields (unless_error P) m \<Longrightarrow> (\<And>a. P a \<Longrightarrow> yields (unless_error Q) (f a)) \<Longrightarrow>
    yields (unless_error Q) (and_then m f)"
  by (auto simp: and_then_def intro!: yields_bind split: sum.split)

lemma yields_after:
  "(\<And>a. yields (unless_error Q) (f a)) \<Longrightarrow> yields (unless_error Q) (and_then m f)"
  by (rule yields_and_then [where P = "\<lambda>a. True"]) (auto simp: unless_error_def [abs_def] sum.case_eq_if)

text \<open>The peers that a handshake of the node \<open>env\<close> can end with.\<close>

definition other_peer :: "('pk, 'sk, 'rng) node_env \<Rightarrow> PeerID \<Rightarrow> bool" where
  "other_peer env n \<longleftrightarrow> (\<exists>pk. n = peer_id_of_key (ne_lib env) pk) \<and> n \<noteq> ne_peer_id env"

lemma yields_check_identity:
  "yields (unless_error (\<lambda>_. ne_peer_id env \<noteq> n)) (check_identity env ex n)"
  by (auto simp: check_identity_def ok_def fail_def split: option.split)

lemma handshake_raw_yields:
  "yields (unless_error (\<lambda>(n, addr). other_peer env n)) (handshake_raw env d ex)"
proof -
  let ?Q = "unless_error (\<lambda>(n, addr). other_peer env n)"
  have "yields ?Q (await_ehlo env n)" if "other_peer env n" for n
    unfolding await_ehlo_def using that by (intro yields_after) (simp add: ok_def)
  then have aes: "yields ?Q (await_aes env d n)" if "other_peer env n" for n
    unfolding await_aes_def using that by (intro yields_after)
  have "yields ?Q (await_rsa env d ex)"
  proof -
    have "yields ?Q (and_then (check_identity env ex (peer_id_of_key (ne_lib env) pk)) (\<lambda>_.
        and_then (check_new (peer_id_of_key (ne_lib env) pk)) (\<lambda>_.
        and_then (send_aes env d pk nonce) (\<lambda>_. await_aes env d (peer_id_of_key (ne_lib env) pk)))))" for pk nonce
      by (rule yields_and_then [OF yields_check_identity]) (intro yields_after aes, auto simp: other_peer_def)
    then show ?thesis
      unfolding await_rsa_def Let_def by (intro yields_after) (auto split: prod.split)
  qed
  then show ?thesis
    unfolding handshake_raw_def await_version_def by (intro yields_after)
qed

text \<open>
  A handshake only adds peers to the pool, and only others than the node itself; it leaves the
  identity of the pool, its log level and its node alone.
\<close>

definition adds_peers :: "PeerID \<Rightarrow> ConnectionPool \<Rightarrow> ConnectionPool \<Rightarrow> bool" where
  "adds_peers i pool pool' \<longleftrightarrow>
     cp_our_peer_id pool' = cp_our_peer_id pool \<and> cp_ll pool' = cp_ll pool
   \<and> cp_node_ref pool' = cp_node_ref pool
   \<and> (pool_inv pool \<and> cp_our_peer_id pool = i \<longrightarrow>
        pool_inv pool' \<and> (\<forall>n. contains pool n \<longrightarrow> contains pool' n))"

lemma adds_peers_refl [simp]: "adds_peers i pool pool"
  by (simp add: adds_peers_def)

lemma insert_adds_peers:
  assumes "wf_peer n" and "n \<noteq> i"
  shows "adds_peers i pool (case insert_peer c pool n w task addr of Panics \<Rightarrow> pool | Returns (pool', effs, r) \<Rightarrow> pool')"
proof -
  have "contains (connected pool n peer) m" if "pool_inv pool" "contains pool m" for peer m
    using that pool_invD(1) [OF that(1)] by (simp add: contains_def bt_contains_def connected_def bt.get_ins)
  moreover have "insert_peer c pool n w task addr =
      Returns (connected pool n (new_connection w task addr), [SpawnReader task n], Inr ())"
    if "\<not> bt_contains (cp_connections pool) n"
    using that by (simp add: insert_peer_def connected_def new_connection_def)
  ultimately show ?thesis
    using assms connected_inv [of pool n]
    by (cases "bt_contains (cp_connections pool) n")
      (auto simp: adds_peers_def insert_peer_def connected_def split: sum.split)
qed

lemma finish_accesses:
  assumes "unless_error (\<lambda>(n, addr). wf_peer n \<and> n \<noteq> i) r"
  shows "accesses (adds_peers i) (finish env w task r)"
proof (cases r)
  case (Inl e)
  have "keeps_pool (and_then (send_plain env (Quit (handshake_quit e))) (\<lambda>_. fail e :: PeerID hs))"
    by (simp add: keeps_pool_and_then)
  with Inl show ?thesis by (simp add: finish_def accesses_keeps)
next
  case (Inr p)
  have k: "accesses (adds_peers i) (emit effs (q :: PeerID hs))" if "keeps_pool q" for effs q
    using that by (intro accesses_keeps) simp_all
  obtain n addr where "p = (n, addr)" by (cases p)
  with assms Inr have "wf_peer n" "n \<noteq> i" by simp_all
  from insert_adds_peers [OF this] show ?thesis
    by (auto simp: finish_def Inr \<open>p = (n, addr)\<close> insert_connection_def bind_emit intro!: k
        split: outcome.split sum.split)
qed

lemma handshake_accesses:
  assumes "sha_law (ne_lib env)"
  shows "accesses (adds_peers (ne_peer_id env)) (handshake env d ex w task)"
  unfolding handshake_def
proof (rule accesses_bind [OF accesses_keeps [OF keeps_pool_handshake_raw] handshake_raw_yields finish_accesses])
  fix r :: "HandshakeError + PeerID \<times> string"
  assume "unless_error (\<lambda>(n, addr). other_peer env n) r"
  then show "unless_error (\<lambda>(n, addr). wf_peer n \<and> n \<noteq> ne_peer_id env) r"
    using wf_peer_id_of_key [OF assms] by (cases r) (auto simp: other_peer_def)
qed simp

end
