(* ===== verification/Running_Node_Theorems.thy ===== *)
theory Running_Node_Theorems
  imports Running_Node Crossing
begin

text \<open>
  The invariant of a running node over every sequence of actions, which stretches panic, and what
  follows for the pings and for the refreshes of the buckets.
\<close>

section \<open>The invariant of a running node\<close>

text \<open>
  What the environment guarantees: identities are hashes of 32 bytes, the refusal of a second
  connection serialises, and a parsed packet holds identities of 32 bytes.
\<close>

definition sound_env :: "('pk, 'sk, 'rng) node_env \<Rightarrow> bool" where
  "sound_env env \<longleftrightarrow>
     wf_peer (ne_peer_id env) \<and> sha_law (ne_lib env)
   \<and> (\<exists>bs. raw_bytes (ne_codec env) already_connected_packet = Inr bs)
   \<and> (\<forall>bs p. from_raw_bytes (ne_codec env) bs = Inr p \<longrightarrow> wf_packet p)"

text \<open>The half of the AES key that a handshake draws is an array of 16 bytes.\<close>

fun fair_action :: "'rng action \<Rightarrow> bool" where
  "fair_action (Incoming d w task limit) \<longleftrightarrow> length (dr_aes_key_part d) = 16"
| "fair_action (Dial ls d n addr w task) \<longleftrightarrow> length (dr_aes_key_part d) = 16"
| "fair_action _ \<longleftrightarrow> True"

fun phase_id :: "ping_phase \<Rightarrow> u32 option" where
  "phase_id (Sent ping_id) = Some ping_id"
| "phase_id (Waiting ping_id k) = Some ping_id"
| "phase_id _ = None"

definition ids_ok :: "(PeerID \<times> ping_phase) list \<Rightarrow> nat \<Rightarrow> bool" where
  "ids_ok ps drawn \<longleftrightarrow>
     (\<forall>i<length ps. \<forall>a. phase_id (snd (ps ! i)) = Some a \<longrightarrow>
        unat a < drawn \<and> (\<forall>j<length ps. j \<noteq> i \<longrightarrow> phase_id (snd (ps ! j)) \<noteq> Some a))"

definition task_ok :: "PeerID \<Rightarrow> unit proc \<Rightarrow> bool" where
  "task_ok i p \<longleftrightarrow> crash_free p \<and> accesses (adds_peers i) p"

definition pings_inv :: "('pk, 'sk, 'rng) running \<Rightarrow> bool" where
  "pings_inv s \<longleftrightarrow>
     (\<forall>p\<in>set (rn_pings s). \<not> awaits 0 (snd p)) \<and> 0 < rn_channels s \<and> 0 \<in> rn_open s
   \<and> counter_value (nd_ping_id_counter (rn_node s)) = word_of_nat (rn_drawn s)
   \<and> (rn_drawn s \<le> 2 ^ 32 \<longrightarrow> ids_ok (rn_pings s) (rn_drawn s))"

definition running_inv :: "('pk, 'sk, 'rng) node_env \<Rightarrow> ('pk, 'sk, 'rng) running \<Rightarrow> bool" where
  "running_inv env s \<longleftrightarrow>
     nd_env (rn_node s) = env \<and> node_inv (rn_node s)
   \<and> (\<forall>t\<in>set (rn_tasks s). task_ok (ne_peer_id env) (fst t))
   \<and> pings_inv s
   \<and> (\<exists>log. listeners (nd_on_disconnect (rn_node s)) = [(0, log)])"

lemma running_new_inv: "sound_env env \<Longrightarrow> running_inv env (running_new env)"
proof -
  assume "sound_env env"
  then have "node_inv (node_new env (0, []))" by (simp add: sound_env_def node_new_inv)
  then show ?thesis
    by (simp add: running_inv_def running_new_def pings_inv_def ids_ok_def)
      (simp add: node_new_def Let_def listen_def listeners_default_def counter_default_def)
qed

text \<open>
  A step from \<open>s\<close> to \<open>t\<close> that keeps the invariant, and queues one message for the refresher for
  each peer that leaves.
\<close>

definition good_step :: "('pk, 'sk, 'rng) node_env \<Rightarrow> ('pk, 'sk, 'rng) running \<Rightarrow> ('pk, 'sk, 'rng) running \<Rightarrow> bool" where
  "good_step env s t \<longleftrightarrow>
     running_inv env t
   \<and> messages 0 (nd_on_disconnect (rn_node t)) =
       messages 0 (nd_on_disconnect (rn_node s))
       @ map EvDisconnect (departed (nd_connections (rn_node s)) (nd_connections (rn_node t)))"

lemma evolves_good_step:
  assumes "running_inv env s" and "evolves (rn_open s) j (rn_node s) (rn_node t)"
    and "\<forall>u\<in>set (rn_tasks t). task_ok (ne_peer_id env) (fst u)" and "pings_inv t"
  shows "good_step env s t"
proof -
  from assms(1) obtain log where "listeners (nd_on_disconnect (rn_node s)) = [(0, log)]" "0 \<in> rn_open s"
    by (auto simp: running_inv_def pings_inv_def)
  with assms show ?thesis
    by (simp add: good_step_def running_inv_def evolves_def messages_def)
qed

text \<open>The steps that only change what surrounds the node.\<close>

lemma same_node_good_step:
  assumes "running_inv env s" and "rn_node t = rn_node s"
    and "\<forall>u\<in>set (rn_tasks t). task_ok (ne_peer_id env) (fst u)" and "pings_inv t"
  shows "good_step env s t"
  using assms by (simp add: good_step_def running_inv_def)

lemma bystander_good_step:
  assumes "running_inv env s" and "rn_node t = rn_node s" and "rn_tasks t = rn_tasks s"
    and "rn_pings t = rn_pings s" and "rn_channels t = rn_channels s" and "rn_open t = rn_open s"
    and "rn_drawn t = rn_drawn s"
  shows "good_step env s t"
  using assms by (simp add: good_step_def running_inv_def pings_inv_def)

lemma good_step_refl: "running_inv env s \<Longrightarrow> good_step env s s"
  by (rule bystander_good_step) simp_all

lemma pings_inv_node:
  "pings_inv s \<Longrightarrow> evolves opened 0 (rn_node s) node \<Longrightarrow> pings_inv (s\<lparr>rn_node := node\<rparr>)"
  by (simp add: pings_inv_def evolves_def)

lemma pings_inv_new_channel [simp]: "pings_inv s \<Longrightarrow> pings_inv (new_channel s)"
  by (auto simp: pings_inv_def new_channel_def)

lemma new_channel_sel [simp]:
  "rn_node (new_channel s) = rn_node s" "rn_tasks (new_channel s) = rn_tasks s"
  "rn_pings (new_channel s) = rn_pings s" "rn_drawn (new_channel s) = rn_drawn s"
  "rn_dead (new_channel s) = rn_dead s" "rn_discoveries (new_channel s) = rn_discoveries s"
  by (simp_all add: new_channel_def)

lemma running_invD:
  assumes "running_inv env s"
  shows "node_inv (rn_node s)" "nd_env (rn_node s) = env" "pings_inv s"
    "\<forall>u\<in>set (rn_tasks s). task_ok (ne_peer_id env) (fst u)"
    "pool_inv (nd_connections (rn_node s))" "cp_node_ref (nd_connections (rn_node s))"
  using assms by (simp_all add: running_inv_def node_inv_def)

text \<open>A node operation that draws no ping identifier.\<close>

lemma node_good_step:
  assumes "running_inv env s" and "evolves (rn_open s) 0 (rn_node s) node"
  shows "good_step env s (s\<lparr>rn_node := node\<rparr>)" and "good_step env s ((new_channel s)\<lparr>rn_node := node\<rparr>)"
proof -
  note inv = running_invD [OF assms(1)]
  have p: "pings_inv (s\<lparr>rn_node := node\<rparr>)" by (rule pings_inv_node [OF inv(3) assms(2)])
  show "good_step env s (s\<lparr>rn_node := node\<rparr>)"
    by (rule evolves_good_step [OF assms(1), where j = 0]) (use assms(2) inv(4) p in simp_all)
  have "pings_inv ((new_channel s)\<lparr>rn_node := node\<rparr>)"
    by (rule pings_inv_node [OF pings_inv_new_channel [OF inv(3)]]) (use assms(2) in simp)
  then show "good_step env s ((new_channel s)\<lparr>rn_node := node\<rparr>)"
    by (intro evolves_good_step [OF assms(1), where j = 0]) (use assms(2) inv(4) in simp_all)
qed

section \<open>Every action is a good step\<close>

lemma arrives_good:
  assumes "running_inv env s" and "arrives dbg shuffle n bs s = Returns t"
  shows "good_step env s t"
proof -
  have h: "good_step env s t" if "bind_outcome (on_packet dbg shuffle (deliver (rn_open s)) (rn_node s) n p)
      (\<lambda>(node, effs). Returns (s\<lparr>rn_node := node\<rparr>)) = Returns t" for p
  proof -
    from that obtain node effs where p: "on_packet dbg shuffle (deliver (rn_open s)) (rn_node s) n p = Returns (node, effs)"
      and t: "t = s\<lparr>rn_node := node\<rparr>"
      by (auto simp only: bind_outcome_Returns_iff prod.case outcome.inject split_paired_Ex)
    show ?thesis
      unfolding t by (rule node_good_step(1) [OF assms(1) on_packet_evolves [OF running_invD(1) [OF assms(1)] p]])
  qed
  show ?thesis
  proof (cases "contains (nd_connections (rn_node s)) n \<and> n \<notin> rn_dead s")
    case True
    note r = assms(2) [unfolded arrives_eq if_P [OF True]]
    show ?thesis
    proof (cases "reader_round (ne_codec (nd_env (rn_node s))) bs")
      case (Handle p rest)
      from r [unfolded Handle reader_action.case] show ?thesis by (rule h)
    qed (use r assms(1) good_step_refl in auto)
  next
    case False
    with assms good_step_refl show ?thesis by (auto simp: arrives_eq)
  qed
qed

lemma ids_ok_append:
  assumes "ids_ok ps m" and "\<forall>q\<in>set qs. phase_id (snd q) = None"
  shows "ids_ok (ps @ qs) m"
proof -
  have old: "i < length ps \<and> (ps @ qs) ! i = ps ! i"
    if "i < length (ps @ qs)" "phase_id (snd ((ps @ qs) ! i)) = Some a" for i a
    using that assms(2) nth_mem [of "i - length ps" qs] by (auto simp: nth_append split: if_splits)
  show ?thesis
    unfolding ids_ok_def
  proof (intro allI impI conjI)
    fix i a
    assume i: "i < length (ps @ qs)" "phase_id (snd ((ps @ qs) ! i)) = Some a"
    from old [OF i] i(2) assms(1) show "unat a < m" by (auto simp: ids_ok_def)
    fix j
    assume j: "j < length (ps @ qs)" "j \<noteq> i"
    show "phase_id (snd ((ps @ qs) ! j)) \<noteq> Some a"
    proof
      assume "phase_id (snd ((ps @ qs) ! j)) = Some a"
      with old [OF j(1) this] old [OF i] i(2) j(2) assms(1) show False by (auto simp: ids_ok_def)
    qed
  qed
qed

lemma ping_round_good: "running_inv env s \<Longrightarrow> good_step env s (ping_round s)"
proof (rule same_node_good_step)
  assume "running_inv env s"
  then have "pings_inv s" by (rule running_invD)
  then show "pings_inv (ping_round s)"
    by (auto simp: pings_inv_def ping_round_def intro!: ids_ok_append)
qed (simp_all add: ping_round_def running_invD)

lemma refresh_round_good:
  assumes "running_inv env s" and "refresh_round (s\<lparr>rn_refreshed := k\<rparr>) = Returns t"
  shows "good_step env s t"
proof -
  from assms(2) obtain effs where "t = s\<lparr>rn_refreshed := k, rn_discoveries := rn_discoveries s @ spawned effs\<rparr>"
    by (auto simp: refresh_round_def bind_outcome_Returns_iff)
  then show ?thesis by (intro bystander_good_step [OF assms(1)]) simp_all
qed

lemma refresh_on_disconnect_good:
  "running_inv env s \<Longrightarrow> refresh_on_disconnect s = Returns t \<Longrightarrow> good_step env s t"
  using refresh_round_good good_step_refl by (auto simp: refresh_on_disconnect_def split: if_splits)

lemma start_discovery_good:
  assumes "running_inv env s" and "start_discovery dbg i s = Returns t"
  shows "good_step env s t"
proof -
  from assms(2) obtain ds where "t = s\<lparr>rn_discoveries := ds\<rparr> \<or> t = s"
    by (auto simp: start_discovery_def bind_outcome_Returns_iff split: if_splits prod.splits)
  then show ?thesis by (intro bystander_good_step [OF assms(1)]) auto
qed

lemma ask_good:
  assumes "running_inv env s" and "ask_on_new_channel ask s = Returns t"
    and "\<And>fresh node effs i. ask fresh (rn_node s) = Returns (node, effs, i) \<Longrightarrow> evolves (rn_open s) 0 (rn_node s) node"
  shows "good_step env s t"
  using assms(1,2)
  by (auto simp: ask_on_new_channel_def bind_outcome_Returns_iff intro!: node_good_step(2) assms(3))

lemma leave_provider_good:
  "running_inv env s \<Longrightarrow> leave_provider n s = Returns t \<Longrightarrow> good_step env s t"
  by (auto simp: leave_provider_def bind_outcome_Returns_iff running_invD
      intro!: node_good_step(1) disconnecting_evolves)

text \<open>The pings: a phase that keeps its identifier, a new identifier, and the end.\<close>

lemma ids_ok_update:
  assumes "ids_ok ps m" and "i < length ps" and "phase_id ph = None \<or> phase_id ph = phase_id (snd (ps ! i))"
  shows "ids_ok (ps[i := (n, ph)]) m"
proof -
  have same: "phase_id (snd (ps ! j)) = Some a" if "phase_id (snd (ps[i := (n, ph)] ! j)) = Some a" for j a
    using that assms(2,3) by (cases "j = i") auto
  from assms(1) same show ?thesis
    unfolding ids_ok_def length_list_update by blast
qed

lemma ids_ok_draw:
  assumes "ids_ok ps m" and "i < length ps" and "m < 2 ^ 32" and "phase_id ph = Some (word_of_nat m)"
  shows "ids_ok (ps[i := (n, ph)]) (Suc m)"
proof -
  have m: "unat (word_of_nat m :: u32) = m"
    using assms(3) by (simp add: unat_of_nat)
  have old: "unat a < m" if "phase_id (snd (ps ! j)) = Some a" "j < length ps" for j a
    using that assms(1) by (auto simp: ids_ok_def)
  show ?thesis
    unfolding ids_ok_def length_list_update
  proof (intro allI impI conjI)
    fix j a
    assume j: "j < length ps" "phase_id (snd (ps[i := (n, ph)] ! j)) = Some a"
    then show "unat a < Suc m"
      using old [of j a] m assms(2,4) by (cases "j = i") auto
    fix k
    assume k: "k < length ps" "k \<noteq> j"
    show "phase_id (snd (ps[i := (n, ph)] ! k)) \<noteq> Some a"
    proof
      assume ka: "phase_id (snd (ps[i := (n, ph)] ! k)) = Some a"
      consider "j = i" | "k = i" | "j \<noteq> i" "k \<noteq> i" by blast
      then show False
      proof cases
        case 1
        with j ka k assms(2,4) have "a = word_of_nat m" "phase_id (snd (ps ! k)) = Some a" by auto
        with old [OF this(2) k(1)] m show False by simp
      next
        case 2
        with j ka k assms(2,4) have "a = word_of_nat m" "phase_id (snd (ps ! j)) = Some a" by auto
        with old [OF this(2) j(1)] m show False by simp
      next
        case 3
        with j ka have "phase_id (snd (ps ! j)) = Some a" "phase_id (snd (ps ! k)) = Some a" by simp_all
        with j(1) k assms(1) [unfolded ids_ok_def] show False by blast
      qed
    qed
  qed
qed

lemma all_list_update: "\<forall>p\<in>set ps. P p \<Longrightarrow> P x \<Longrightarrow> \<forall>p\<in>set (ps[i := x]). P p"
  using set_update_subset_insert [of ps i x] by blast

lemma pings_inv_update:
  assumes "pings_inv s" and "i < length (rn_pings s)" and "\<not> awaits 0 ph"
    and "phase_id ph = None \<or> phase_id ph = phase_id (snd (rn_pings s ! i))"
  shows "pings_inv (s\<lparr>rn_pings := (rn_pings s)[i := (n, ph)]\<rparr>)"
  using assms ids_ok_update [of "rn_pings s" "rn_drawn s" i ph n]
    all_list_update [of "rn_pings s" "\<lambda>p. \<not> awaits 0 (snd p)" "(n, ph)" i]
  by (simp add: pings_inv_def)

lemma ping_starts_good:
  assumes "running_inv env s" and "i < length (rn_pings s)" and "ping_send (rn_node s) n = Returns (node, effs, ping_id)"
  shows "good_step env s (s\<lparr>rn_node := node, rn_pings := (rn_pings s)[i := (n, Sent ping_id)], rn_drawn := rn_drawn s + 1\<rparr>)"
proof -
  note inv = running_invD [OF assms(1)]
  from ping_send_evolves [OF inv(1) assms(3), of "rn_open s"]
  have e: "evolves (rn_open s) 1 (rn_node s) node" and id: "ping_id = counter_value (nd_ping_id_counter (rn_node s))"
    by simp_all
  have "counter_value (nd_ping_id_counter (rn_node s)) = word_of_nat (rn_drawn s)"
    using inv(3) by (simp add: pings_inv_def)
  with e id have id: "ping_id = word_of_nat (rn_drawn s)"
    and c: "counter_value (nd_ping_id_counter node) = word_of_nat (Suc (rn_drawn s))"
    by (simp_all add: evolves_def add.commute)
  have "\<forall>p\<in>set ((rn_pings s)[i := (n, Sent ping_id)]). \<not> awaits 0 (snd p)"
    using inv(3) by (intro all_list_update) (simp_all add: pings_inv_def)
  moreover have "ids_ok ((rn_pings s)[i := (n, Sent ping_id)]) (Suc (rn_drawn s))" if "Suc (rn_drawn s) \<le> 2 ^ 32"
    using that inv(3) assms(2) by (intro ids_ok_draw) (simp_all add: pings_inv_def id)
  ultimately show ?thesis
    using inv(3,4) e c by (intro evolves_good_step [OF assms(1), where j = 1]) (simp_all add: pings_inv_def)
qed

lemma ping_listens_good:
  assumes "running_inv env s" and "i < length (rn_pings s)" and "rn_pings s ! i = (n, Sent ping_id)"
  shows "good_step env s ((new_channel s)\<lparr>rn_node := ping_listen (rn_channels s, []) (rn_node s),
    rn_pings := (rn_pings s)[i := (n, Waiting ping_id (rn_channels s))]\<rparr>)"
proof -
  note inv = running_invD [OF assms(1)]
  let ?node = "ping_listen (rn_channels s, []) (rn_node s)"
  have e: "evolves opened 0 (rn_node s) ?node" for opened by (rule ping_listen_evolves [OF inv(1)])
  have "0 < rn_channels s" using inv(3) by (simp add: pings_inv_def)
  then have "pings_inv ((new_channel s)\<lparr>rn_pings := (rn_pings s)[i := (n, Waiting ping_id (rn_channels s))]\<rparr>)"
    using pings_inv_update [OF pings_inv_new_channel [OF inv(3)], of i "Waiting ping_id (rn_channels s)" n] assms(2,3)
    by simp
  from pings_inv_node [OF this, of "{}" ?node] e have "pings_inv ((new_channel s)\<lparr>rn_node := ?node,
      rn_pings := (rn_pings s)[i := (n, Waiting ping_id (rn_channels s))]\<rparr>)"
    by (simp add: pings_inv_def)
  then show ?thesis
    using e inv(4) by (intro evolves_good_step [OF assms(1), where j = 0]) simp_all
qed

lemma ping_ends_good:
  assumes "running_inv env s" and "i < length (rn_pings s)" and "rn_pings s ! i = (n, Waiting ping_id k)"
    and "ping_finish (deliver (rn_open s - {k})) (rn_node s) n result = Returns (node, effs)"
  shows "good_step env s (s\<lparr>rn_node := node, rn_open := rn_open s - {k}, rn_pings := (rn_pings s)[i := (n, Over)]\<rparr>)"
proof -
  note inv = running_invD [OF assms(1)]
  from nth_mem [OF assms(2)] inv(3) have k: "k \<noteq> 0" by (force simp: pings_inv_def assms(3))
  let ?s = "s\<lparr>rn_open := rn_open s - {k}\<rparr>"
  have s: "running_inv env ?s"
    using assms(1) k by (simp add: running_inv_def pings_inv_def)
  have e: "evolves (rn_open ?s) 0 (rn_node ?s) node"
    using ping_finish_evolves [OF inv(1) assms(4)] by simp
  let ?t = "s\<lparr>rn_node := node, rn_open := rn_open s - {k}, rn_pings := (rn_pings s)[i := (n, Over)]\<rparr>"
  have "pings_inv (?s\<lparr>rn_pings := (rn_pings s)[i := (n, Over)]\<rparr>)"
    using pings_inv_update [OF running_invD(3) [OF s], of i Over n] assms(2) by simp
  then have "pings_inv ?t"
    using e by (simp add: pings_inv_def evolves_def)
  then have "good_step env ?s ?t"
    using e inv(4) by (intro evolves_good_step [OF s, where j = 0]) simp_all
  then show ?thesis by (simp add: good_step_def)
qed

lemma ping_step_good:
  assumes "running_inv env s" and "ping_step i nanos s = Returns t"
  shows "good_step env s t"
proof (cases "i < length (rn_pings s)")
  case i: True
  obtain n ph where p: "rn_pings s ! i = (n, ph)" by (cases "rn_pings s ! i")
  show ?thesis
  proof (cases ph)
    case Starting
    with assms p i ping_starts_good [OF assms(1) i] show ?thesis
      by (auto simp: ping_step_def bind_outcome_Returns_iff)
  next
    case (Sent ping_id)
    with assms p i ping_listens_good [OF assms(1) i] show ?thesis by (auto simp: ping_step_def)
  next
    case (Waiting ping_id k)
    with assms p i ping_ends_good [OF assms(1) i] show ?thesis
      by (auto simp: ping_step_def Let_def bind_outcome_Returns_iff)
  next
    case Over
    with assms p i good_step_refl show ?thesis by (auto simp: ping_step_def)
  qed
qed (use assms good_step_refl in \<open>auto simp: ping_step_def\<close>)

text \<open>The handshakes.\<close>

lemma task_ok_new:
  assumes "sound_env env" and "length (dr_aes_key_part d) = 16"
  shows "task_ok (ne_peer_id env) (on_connection env d w task n)"
    and "task_ok (ne_peer_id env) (bind_proc (handshake env d ex w task) (\<lambda>_. Done ()))"
proof -
  obtain bs where "raw_bytes (ne_codec env) already_connected_packet = Inr bs"
    using assms(1) unfolding sound_env_def by blast
  note free = crash_free_handshake [OF assms(2) this]
  have "sha_law (ne_lib env)" using assms(1) by (simp add: sound_env_def)
  note acc = handshake_accesses [OF this]
  show "task_ok (ne_peer_id env) (on_connection env d w task n)"
    unfolding task_ok_def on_connection_def
    by (intro conjI crash_free_bind [OF crash_free_timed [OF free]]
        accesses_bind [OF accesses_timed [OF acc] yields_any])
      (auto split: option.split sum.split)
  show "task_ok (ne_peer_id env) (bind_proc (handshake env d ex w task) (\<lambda>_. Done ()))"
    unfolding task_ok_def by (intro conjI crash_free_bind [OF free] accesses_bind [OF acc yields_any]) simp_all
qed

lemma new_task_good:
  assumes "running_inv env s" and "task_ok (ne_peer_id env) p"
  shows "good_step env s (s\<lparr>rn_tasks := rn_tasks s @ [(p, inbox)]\<rparr>)"
  using assms running_invD(3,4) [OF assms(1)]
  by (intro same_node_good_step [OF assms(1)]) (auto simp: pings_inv_def)

lemma dialing_good:
  assumes "running_inv env s" and "sound_env env" and "length (dr_aes_key_part d) = 16"
    and "dialing ls d n addr w task s = Returns t"
  shows "good_step env s t"
proof -
  have env: "nd_env (rn_node s) = env" by (rule running_invD [OF assms(1)])
  from assms(4) consider "t = s" | "t = s\<lparr>rn_tasks := rn_tasks s
      @ [(bind_proc (handshake env d (Some n) w task) (\<lambda>_. Done ()), [])]\<rparr>"
    by (auto simp: dialing_def env bind_outcome_Returns_iff split: option.splits)
  then show ?thesis
    using good_step_refl [OF assms(1)] new_task_good [OF assms(1) task_ok_new(2) [OF assms(2,3)]] by cases auto
qed

lemma task_becomes_good:
  assumes "running_inv env s" and "task_ok (ne_peer_id env) p" and "task_becomes i p inbox (s\<lparr>rn_node := node\<rparr>) = Returns t"
    and "evolves (rn_open s) 0 (rn_node s) node"
  shows "good_step env s t"
proof -
  note inv = running_invD [OF assms(1)]
  have t: "t = s\<lparr>rn_node := node, rn_tasks := (rn_tasks s)[i := (p, inbox)]\<rparr>"
    using assms(3) by (auto simp: task_becomes_def split: proc.splits)
  have "pings_inv t" using pings_inv_node [OF inv(3) assms(4)] by (simp add: t pings_inv_def)
  moreover have "\<forall>u\<in>set (rn_tasks t). task_ok (ne_peer_id env) (fst u)"
    using all_list_update [OF inv(4), of "(p, inbox)" i] assms(2) by (simp add: t)
  ultimately show ?thesis
    using assms(4) by (intro evolves_good_step [OF assms(1), where j = 0]) (simp_all add: t)
qed

lemma pstep_task_ok:
  assumes "pstep p pool inbox = Some (p', pool', rest, out)" and "task_ok i p"
  shows "task_ok i p' \<and> adds_peers i pool pool'"
  using assms by (cases p) (auto simp: task_ok_def split: if_splits)

lemma adds_peers_evolves:
  assumes "running_inv env s" and "adds_peers (ne_peer_id env) (nd_connections (rn_node s)) pool"
  shows "evolves opened 0 (rn_node s) ((rn_node s)\<lparr>nd_connections := pool\<rparr>)"
proof (rule evolvesI)
  have inv: "node_inv (rn_node s)" "nd_env (rn_node s) = env" using running_invD [OF assms(1)] by simp_all
  with assms(2) have "pool_inv pool" "\<forall>n. contains (nd_connections (rn_node s)) n \<longrightarrow> contains pool n"
    by (auto simp: adds_peers_def node_inv_def)
  then show "node_inv ((rn_node s)\<lparr>nd_connections := pool\<rparr>)"
    and "departed (nd_connections (rn_node s)) (nd_connections ((rn_node s)\<lparr>nd_connections := pool\<rparr>)) = []"
    using inv assms(2) by (simp_all add: node_inv_def adds_peers_def departed_grows)
qed simp_all

lemma task_step_good:
  assumes "running_inv env s" and "task_step i s = Returns t"
  shows "good_step env s t"
proof (cases "i < length (rn_tasks s)")
  case i: True
  obtain p inbox where p: "rn_tasks s ! i = (p, inbox)" by (cases "rn_tasks s ! i")
  have ok: "task_ok (ne_peer_id env) p"
    using running_invD(4) [OF assms(1)] nth_mem [OF i] by (auto simp: p)
  show ?thesis
  proof (cases "pstep p (nd_connections (rn_node s)) inbox")
    case None
    with assms i p good_step_refl show ?thesis by (auto simp: task_step_def)
  next
    case (Some r)
    obtain p' pool rest out where r: "r = (p', pool, rest, out)" by (cases r)
    from pstep_task_ok [OF Some [unfolded r] ok] have "task_ok (ne_peer_id env) p'"
      and a: "adds_peers (ne_peer_id env) (nd_connections (rn_node s)) pool" by simp_all
    from task_becomes_good [OF assms(1) this(1) _ adds_peers_evolves [OF assms(1) a]] assms(2) i p Some r
    show ?thesis by (simp add: task_step_def)
  qed
qed (use assms good_step_refl in \<open>auto simp: task_step_def\<close>)

lemma task_error_good:
  assumes "running_inv env s" and "task_error i e s = Returns t"
  shows "good_step env s t"
proof (cases "i < length (rn_tasks s)")
  case i: True
  obtain p inbox where p: "rn_tasks s ! i = (p, inbox)" by (cases "rn_tasks s ! i")
  have ok: "task_ok (ne_peer_id env) p"
    using running_invD(4) [OF assms(1)] nth_mem [OF i] by (auto simp: p)
  have e: "evolves (rn_open s) 0 (rn_node s) (rn_node s)"
    using running_invD(1) [OF assms(1)] by (intro evolves_same) simp_all
  have b: "good_step env s t" if "task_becomes i q inbox s = Returns t" "task_ok (ne_peer_id env) q" for q
    using task_becomes_good [OF assms(1) that(2) _ e] that(1) by simp
  show ?thesis
    using assms(2) i p ok b good_step_refl [OF assms(1)]
    by (cases p) (auto simp: task_error_def task_ok_def)
qed (use assms good_step_refl in \<open>auto simp: task_error_def\<close>)

lemma receive_good:
  assumes "running_inv env s"
  shows "good_step env s (receive i bs s)"
proof (cases "i < length (rn_tasks s)")
  case i: True
  obtain p inbox where p: "rn_tasks s ! i = (p, inbox)" by (cases "rn_tasks s ! i")
  note inv = running_invD [OF assms]
  have "task_ok (ne_peer_id env) p" using inv(4) nth_mem [OF i] by (auto simp: p)
  then have "\<forall>u\<in>set ((rn_tasks s)[i := (p, inbox @ bs)]). task_ok (ne_peer_id env) (fst u)"
    using inv(4) by (intro all_list_update) simp_all
  then show ?thesis
    using i p inv(3) by (intro same_node_good_step [OF assms]) (simp_all add: receive_def pings_inv_def)
qed (use assms good_step_refl in \<open>auto simp: receive_def\<close>)

lemma ids_ok_mono: "ids_ok ps m \<Longrightarrow> m \<le> m' \<Longrightarrow> ids_ok ps m'"
  by (meson ids_ok_def less_le_trans)

lemma user_command_good:
  assumes "running_inv env s" and "user_command debug c s = Returns t"
  shows "good_step env s t"
proof -
  note inv = running_invD [OF assms(1)]
  let ?j = "ids_drawn c"
  from assms(2) have "on_command debug (rn_channels s, []) (rn_node s) c \<noteq> Panics"
    by (auto simp: user_command_def)
  then obtain node acts where c: "on_command debug (rn_channels s, []) (rn_node s) c = Returns (node, acts)"
    by (metis outcome.exhaust surj_pair)
  note t = assms(2) [unfolded user_command_def c bind_outcome.simps prod.case outcome.inject, symmetric]
  from on_command_evolves [OF inv(1) c, of "rn_open s"] have e: "evolves (rn_open s) ?j (rn_node s) node" .
  have "ids_ok (rn_pings s) (rn_drawn s + ?j)" if "rn_drawn s + ?j \<le> 2 ^ 32"
  proof -
    from that have "rn_drawn s \<le> 2 ^ 32" by (rule add_leD1)
    with inv(3) have "ids_ok (rn_pings s) (rn_drawn s)" unfolding pings_inv_def by blast
    then show ?thesis by (rule ids_ok_mono) (rule le_add1)
  qed
  then have "pings_inv t"
    using pings_inv_new_channel [OF inv(3)] e by (simp add: t pings_inv_def evolves_def)
  then show ?thesis
    using e inv(4) by (intro evolves_good_step [OF assms(1)]) (simp_all add: t)
qed

lemma drop_receiver_good: "running_inv env s \<Longrightarrow> good_step env s (drop_receiver k s)"
proof (cases "k = 0 \<or> list_ex (\<lambda>(n, phase). awaits k phase) (rn_pings s)")
  case False
  assume inv: "running_inv env s"
  with False show ?thesis
    using running_invD(3,4) [OF inv]
    by (intro same_node_good_step [OF inv]) (simp_all add: drop_receiver_def pings_inv_def)
qed (auto simp: drop_receiver_def intro: good_step_refl)

lemma perform_good:
  assumes "running_inv env s" and "sound_env env" and "fair_action a" and "perform dbg debug a s = Returns t"
  shows "good_step env s t"
proof (cases a)
  case (AskDiscovery target msk n)
  from assms(4) show ?thesis
    unfolding AskDiscovery perform.simps
    by (rule ask_good [OF assms(1)]) (rule ask_discovery_evolves [OF running_invD(1) [OF assms(1)]])
next
  case (AskValue key n)
  from assms(4) show ?thesis
    unfolding AskValue perform.simps
    by (rule ask_good [OF assms(1)]) (rule ask_provider_evolves [OF running_invD(1) [OF assms(1)]])
next
  case (ReadFails n)
  then have "t = s" using assms(4) by (simp add: read_fails_def split: if_splits)
  with good_step_refl [OF assms(1)] show ?thesis by simp
next
  case (RefreshRound)
  then show ?thesis using refresh_round_good [OF assms(1), of "rn_refreshed s" t] assms(4) by simp
next
  case (Incoming d w task limit)
  have "nd_env (rn_node s) = env" by (rule running_invD [OF assms(1)])
  with Incoming show ?thesis
    using new_task_good [OF assms(1) task_ok_new(1) [OF assms(2)]] assms(3,4) by (auto simp: incoming_def)
next
  case (Dial ls d n addr w task)
  then show ?thesis using dialing_good [OF assms(1,2)] assms(3,4) by simp
qed (use assms in \<open>auto intro: arrives_good ping_round_good ping_step_good refresh_on_disconnect_good
      start_discovery_good leave_provider_good receive_good task_step_good task_error_good
      user_command_good drop_receiver_good\<close>)

lemma settle_sel [simp]:
  "rn_node (settle s) = rn_node s" "rn_pings (settle s) = rn_pings s" "rn_drawn (settle s) = rn_drawn s"
  by (simp_all add: settle_def)

lemma settle_good: "good_step env s t \<Longrightarrow> good_step env s (settle t)"
  by (simp add: good_step_def running_inv_def pings_inv_def settle_def)

lemma perish_good: "running_inv env s \<Longrightarrow> good_step env s (perish a s)"
  by (rule bystander_good_step) (auto simp: perish_def split: action.split)

lemma act_good:
  assumes "running_inv env s" and "sound_env env" and "fair_action a"
  shows "good_step env s (act dbg debug a s)"
  using perform_good [OF assms] perish_good [OF assms(1)]
  by (auto simp: act_def intro!: settle_good split: outcome.split)

lemma run_node_inv:
  "running_inv env s \<Longrightarrow> sound_env env \<Longrightarrow> \<forall>a\<in>set as. fair_action a \<Longrightarrow> running_inv env (run_node dbg debug as s)"
proof (induction as arbitrary: s)
  case (Cons a as)
  then have "running_inv env (act dbg debug a s)"
    using act_good [OF Cons.prems(1,2)] by (simp add: good_step_def)
  with Cons show ?case by simp
qed simp

section \<open>Panics\<close>

text \<open>
  The four ways to die: a peer sends a frame that is too large or a packet of the handshake, the
  stream of a peer fails, a spawned discovery finds its bucket too full (in a debug build), or an address cannot be
  dialed.
\<close>

fun dies :: "bool \<Rightarrow> 'rng action \<Rightarrow> ('pk, 'sk, 'rng) running \<Rightarrow> bool" where
  "dies dbg (Arrives shuffle n bs) s \<longleftrightarrow>
     contains (nd_connections (rn_node s)) n \<and> n \<notin> rn_dead s
   \<and> (read_frame bs = TooLarge
      \<or> (\<exists>p rest q. read_frame bs = Frame p rest
           \<and> from_raw_bytes (ne_codec (nd_env (rn_node s))) p = Inr q \<and> handshake_packet q))"
| "dies dbg (ReadFails n) s \<longleftrightarrow> contains (nd_connections (rn_node s)) n \<and> n \<notin> rn_dead s"
| "dies dbg (StartDiscovery i) s \<longleftrightarrow>
     dbg \<and> i < length (rn_discoveries s)
   \<and> length (peers_on_bucket (nd_connections (rn_node s)) (fst (rn_discoveries s ! i)) (snd (rn_discoveries s ! i))) > 8"
| "dies dbg (Dial ls d n addr w task) s \<longleftrightarrow> connect () () ls addr = Panics"
| "dies dbg _ s \<longleftrightarrow> False"

lemma arrives_panics:
  assumes "running_inv env s" and "sound_env env"
  shows "arrives dbg shuffle n bs s = Panics \<longleftrightarrow> dies dbg (Arrives shuffle n bs) s"
proof -
  note inv = running_invD [OF assms(1)]
  have "on_packet dbg shuffle (deliver (rn_open s)) (rn_node s) n q = Panics \<longleftrightarrow> handshake_packet q"
    if "from_raw_bytes (ne_codec env) p = Inr q" for p q
    using on_packet_panics [OF inv(1)] that assms(2) by (simp add: sound_env_def)
  then show ?thesis
    by (auto simp: arrives_eq reader_round_def inv(2) bind_outcome_Panics_iff
        split: frame_result.split sum.split)
qed

lemma ping_send_total: "cp_node_ref (nd_connections node) \<Longrightarrow> ping_send node n \<noteq> Panics"
  by (auto simp: ping_send_def sending_def send_packet_Returns handled_def Let_def case_prod_unfold)

lemma ping_finish_total:
  "cp_node_ref (nd_connections node) \<Longrightarrow> ping_finish send node n result \<noteq> Panics"
  using disconnecting_total [of node send n timeout_quit]
  by (auto simp: ping_finish_def set_ping_def with_node_def handled_def split: option.split)

lemma ping_step_panics: "running_inv env s \<Longrightarrow> ping_step i nanos s \<noteq> Panics"
  using running_invD(6) [of env s]
  by (auto simp: ping_step_def Let_def bind_outcome_Panics_iff ping_send_total ping_finish_total
      split: prod.split ping_phase.split)

lemma refresh_round_panics: "running_inv env s \<Longrightarrow> refresh_round (s\<lparr>rn_refreshed := k\<rparr>) \<noteq> Panics"
  using running_invD(6) [of env s] by (simp add: refresh_round_def refresh_buckets_eq)

lemma ask_panics:
  "running_inv env s \<Longrightarrow> ask_on_new_channel (\<lambda>fresh node. ask_discovery fresh node target msk n) s \<noteq> Panics"
  "running_inv env s \<Longrightarrow> ask_on_new_channel (\<lambda>fresh node. ask_provider fresh node key n) s \<noteq> Panics"
  using running_invD(6) [of env s]
  by (auto simp: ask_on_new_channel_def ask_discovery_def ask_provider_def sending_def
      send_packet_Returns handled_def Let_def case_prod_unfold)

lemma leave_provider_panics: "running_inv env s \<Longrightarrow> leave_provider n s \<noteq> Panics"
  using running_invD(6) [of env s] disconnecting_total [of "rn_node s" "deliver (rn_open s)" n mission_accomplished]
  by (auto simp: leave_provider_def)

lemma user_command_panics: "running_inv env s \<Longrightarrow> user_command debug c s \<noteq> Panics"
  using running_invD(6) [of env s] ping_send_total [of "rn_node s"]
  by (cases c) (auto simp: user_command_def refresh_buckets_eq bind_outcome_Panics_iff)

lemma task_step_panics: "running_inv env s \<Longrightarrow> task_step i s \<noteq> Panics"
proof (cases "i < length (rn_tasks s)")
  case i: True
  assume inv: "running_inv env s"
  obtain p inbox where p: "rn_tasks s ! i = (p, inbox)" by (cases "rn_tasks s ! i")
  have "task_ok (ne_peer_id env) p"
    using running_invD(4) [OF inv] nth_mem [OF i] by (auto simp: p)
  then have "pstep p pool inbox \<noteq> Some (Crash, pool', rest, out)" for pool pool' rest out
    using pstep_task_ok [of p pool inbox Crash pool' rest out] by (auto simp: task_ok_def)
  then show ?thesis
    by (auto simp: task_step_def p task_becomes_def split: option.split proc.split)
qed (simp add: task_step_def)

lemma task_error_panics: "running_inv env s \<Longrightarrow> task_error i e s \<noteq> Panics"
proof (cases "i < length (rn_tasks s)")
  case i: True
  assume inv: "running_inv env s"
  obtain p inbox where p: "rn_tasks s ! i = (p, inbox)" by (cases "rn_tasks s ! i")
  have "crash_free p"
    using running_invD(4) [OF inv] nth_mem [OF i] by (auto simp: p task_ok_def)
  then show ?thesis
    by (cases p) (auto simp: task_error_def p task_becomes_def split: proc.split dest: spec [of _ "Inl e"])
qed (simp add: task_error_def)

lemma perform_panics:
  assumes "running_inv env s" and "sound_env env"
  shows "perform dbg debug a s = Panics \<longleftrightarrow> dies dbg a s"
proof (cases a)
  case (ReadFails n)
  then show ?thesis by (simp add: read_fails_def)
next
  case (Arrives shuffle n bs)
  then show ?thesis using arrives_panics [OF assms] by (simp only: perform.simps)
next
  case (StartDiscovery i)
  then show ?thesis
    by (cases "i < length (rn_discoveries s)")
      (auto simp: start_discovery_def missing_peers_def KADEMLIA_BUCKET_SIZE_def case_prod_unfold)
next
  case (Dial ls d n addr w task)
  then show ?thesis by (auto simp: dialing_def bind_outcome_Panics_iff)
next
  case RefreshRound
  then show ?thesis using refresh_round_panics [OF assms(1), of "rn_refreshed s"] by simp
next
  case RefreshOnDisconnect
  then show ?thesis using refresh_round_panics [OF assms(1)] by (simp add: refresh_on_disconnect_def)
qed (use assms(1) in \<open>simp_all add: ping_step_panics ask_panics leave_provider_panics task_step_panics
      task_error_panics user_command_panics\<close>)

section \<open>A running node with a connection\<close>

text \<open>Letting a task run is a series of its steps.\<close>

lemma run_node_append: "run_node dbg debug (as @ bs) s = run_node dbg debug bs (run_node dbg debug as s)"
  by (induction as arbitrary: s) simp_all

lemma settle_nobody_dead: "rn_dead s = {} \<Longrightarrow> settle s = s"
  by (simp add: settle_def)

lemma task_step_once:
  assumes "pstep p pool inbox = Some (p', pool', rest, out)" and "p' \<noteq> Crash" and "rn_dead s = {}"
    and "i < length (rn_tasks s)" and "rn_tasks s ! i = (p, inbox)" and "nd_connections (rn_node s) = pool"
  shows "act dbg debug (TaskStep i) s =
    s\<lparr>rn_node := (rn_node s)\<lparr>nd_connections := pool'\<rparr>, rn_tasks := (rn_tasks s)[i := (p', rest)]\<rparr>"
proof -
  have "task_becomes i p' rest (s\<lparr>rn_node := (rn_node s)\<lparr>nd_connections := pool'\<rparr>\<rparr>) =
      Returns (s\<lparr>rn_node := (rn_node s)\<lparr>nd_connections := pool'\<rparr>, rn_tasks := (rn_tasks s)[i := (p', rest)]\<rparr>)"
    using assms(2) by (cases p') (simp_all add: task_becomes_def)
  with assms show ?thesis by (simp add: act_def task_step_def settle_nobody_dead)
qed

definition with_task ::
  "nat \<Rightarrow> unit proc \<Rightarrow> ConnectionPool \<Rightarrow> bytes \<Rightarrow> ('pk, 'sk, 'rng) running \<Rightarrow> ('pk, 'sk, 'rng) running" where
  "with_task i p pool inbox s =
     s\<lparr>rn_node := (rn_node s)\<lparr>nd_connections := pool\<rparr>, rn_tasks := (rn_tasks s)[i := (p, inbox)]\<rparr>"

lemma with_task_twice [simp]: "with_task i p pool inbox (with_task i q pool' inbox' s) = with_task i p pool inbox s"
  by (simp add: with_task_def)

lemma task_step_with:
  assumes "pstep p pool inbox = Some (p', pool', rest, out)" and "crash_free p'"
    and "rn_dead s = {}" and "i < length (rn_tasks s)"
  shows "act dbg debug (TaskStep i) (with_task i p pool inbox s) = with_task i p' pool' rest s"
proof -
  have "p' \<noteq> Crash" using assms(2) by auto
  from task_step_once [OF assms(1) this, of "with_task i p pool inbox s" i dbg debug] assms(3,4)
  show ?thesis by (simp add: with_task_def)
qed

lemma run_task:
  assumes "exec p pool inbox = (p', pool', rest, out)" and "crash_free p"
    and "rn_dead s = {}" and "i < length (rn_tasks s)"
  shows "\<exists>k. run_node dbg debug (replicate k (TaskStep i)) (with_task i p pool inbox s) = with_task i p' pool' rest s"
  using assms(1,2)
proof (induction p arbitrary: pool inbox out)
  case (Recv n k)
  show ?case
  proof (cases "length inbox < n")
    case False
    with Recv.prems have e: "exec (k (Inr (take n inbox))) pool (drop n inbox) = (p', pool', rest, out)"
      and c: "crash_free (k (Inr (take n inbox)))" by simp_all
    from Recv.IH [OF rangeI e c] obtain m where m: "run_node dbg debug (replicate m (TaskStep i))
        (with_task i (k (Inr (take n inbox))) pool (drop n inbox) s) = with_task i p' pool' rest s" ..
    have "pstep (Recv n k) pool inbox = Some (k (Inr (take n inbox)), pool, drop n inbox, [])" using False by simp
    from task_step_with [OF this c assms(3,4)] m show ?thesis
      by (intro exI [of _ "Suc m"]) auto
  next
    case True
    with Recv.prems show ?thesis by (intro exI [of _ 0]) simp
  qed
next
  case (Send bs k)
  then obtain out' where e: "exec (k (Inr ())) pool inbox = (p', pool', rest, out')" and c: "crash_free (k (Inr ()))"
    by (auto split: prod.splits)
  from Send.IH [OF rangeI e c] obtain m where m: "run_node dbg debug (replicate m (TaskStep i))
      (with_task i (k (Inr ())) pool inbox s) = with_task i p' pool' rest s" ..
  have "pstep (Send bs k) pool inbox = Some (k (Inr ()), pool, inbox, bs)" by simp
  from task_step_with [OF this c assms(3,4)] m show ?case by (intro exI [of _ "Suc m"]) auto
next
  case (Access upd k)
  then have e: "exec (k pool) (upd pool) inbox = (p', pool', rest, out)" and c: "crash_free (k pool)" by simp_all
  from Access.IH [OF rangeI e c] obtain m where m: "run_node dbg debug (replicate m (TaskStep i))
      (with_task i (k pool) (upd pool) inbox s) = with_task i p' pool' rest s" ..
  have "pstep (Access upd k) pool inbox = Some (k pool, upd pool, inbox, [])" by simp
  from task_step_with [OF this c assms(3,4)] m show ?case by (intro exI [of _ "Suc m"]) auto
qed (auto intro: exI [of _ 0])

lemma sample_env_sound: "sound_env (sample_env 1)"
proof -
  have "\<forall>p\<in>set sample_packets. wf_packet p"
    by (simp add: sample_packets_def Let_def version_packet_def rsa_packet_def aes_packet_def ehlo_packet_def
        already_connected_packet_def sample_question_def sample_answer_def)
  moreover have "p \<in> set xs" if "from_raw_bytes (table_codec xs) bs = Inr p" for xs bs and p :: Packet
    using that by (auto simp: table_codec_def split: list.splits if_splits)
  ultimately show ?thesis
    using sample_packets_mem(8) by (auto simp: sound_env_def wf_peer_def raw_bytes_table)
qed

text \<open>The node 1 dials the node 2, which answers honestly.\<close>

lemma sample_connected:
  "\<exists>as s. (\<forall>a\<in>set as. fair_action a) \<and> run_node True debug as (running_new (sample_env 1)) = s
    \<and> rn_pings s = [] \<and> rn_dead s = {} \<and> rn_channels s = 1 \<and> rn_open s = {0} \<and> rn_drawn s = 0
    \<and> rn_discoveries s = [] \<and> rn_refreshed s = 0
    \<and> rn_node s = (node_new (sample_env 1) (0, []))\<lparr>nd_connections :=
        connected (nd_connections (node_new (sample_env 1) (0 :: nat, [] :: node_event list)))
          (PeerID (2 # 3 # replicate 30 0)) (new_connection 7 8 (ne_addr (sample_env 2)))\<rparr>"
proof -
  let ?n = "PeerID (2 # 3 # replicate 30 0)" and ?env = "sample_env 1" and ?d = "sample_draw 1"
  let ?node = "node_new ?env (0, []) :: (u8, u8, unit, channel) Node"
  let ?pool = "nd_connections ?node" and ?new = "new_connection 7 8 (ne_addr (sample_env 2))"
  let ?p = "bind_proc (handshake ?env ?d (Some ?n) 7 8) (\<lambda>_. Done ())"
  let ?in = "honest_frames ?env ?d (sample_env 2) (sample_draw 2)"
  let ?pre = "[Dial [Some []] ?d ?n (local_addr 0) 7 8, Receive 0 ?in]"
  let ?s = "(running_new ?env)\<lparr>rn_tasks := [(?p, ?in)]\<rparr>"
  have "connect () () [Some []] (local_addr 0) = Returns ([Some [()]], Some ())"
    by (subst connect_local) simp_all
  moreover have env: "nd_env ?node = ?env" by (simp add: node_new_def Let_def)
  ultimately have pre: "run_node True debug ?pre (running_new ?env) = ?s"
    by (simp add: act_def dialing_def receive_def settle_nobody_dead running_new_def)
  have "\<not> contains ?pool i" for i
    by (simp add: node_new_def Let_def set_node_ref_def pool_new_def contains_def bt_contains_def bt_get_def)
  from meets_pool [OF sample_meets(3) this] have m: "meets ?env ?d (Some ?n) ?pool (sample_env 2) (sample_draw 2)" .
  from honest_exec [OF m sample_meets(2), where rest = "[]" and w = 7 and task = 8] obtain out where
    "exec (handshake ?env ?d (Some ?n) 7 8) ?pool ?in = (Done (Inr ?n), connected ?pool ?n ?new, [], out)"
    by auto
  then have "exec ?p ?pool ?in = (Done (), connected ?pool ?n ?new, [], out)"
    by (simp add: exec_bind [of "handshake ?env ?d (Some ?n) 7 8"])
  moreover have "task_ok (ne_peer_id ?env) ?p" by (rule task_ok_new [OF sample_env_sound]) simp
  ultimately obtain k where k: "run_node True debug (replicate k (TaskStep 0)) (with_task 0 ?p ?pool ?in ?s)
      = with_task 0 (Done ()) (connected ?pool ?n ?new) [] ?s"
    using run_task [of ?p ?pool ?in "Done ()" "connected ?pool ?n ?new" "[]" out ?s 0 True debug]
    by (auto simp: task_ok_def running_new_def)
  have "with_task 0 ?p ?pool ?in ?s = ?s" by (simp add: with_task_def running_new_def)
  with pre k have "run_node True debug (?pre @ replicate k (TaskStep 0)) (running_new ?env)
      = with_task 0 (Done ()) (connected ?pool ?n ?new) [] ?s"
    by (simp only: run_node_append)
  then show ?thesis
    by (intro exI [of _ "?pre @ replicate k (TaskStep 0)"] exI [of _ "with_task 0 (Done ()) (connected ?pool ?n ?new) [] ?s"])
      (simp add: with_task_def running_new_def)
qed

section \<open>Properties\<close>

text \<open>
  C8: a node is safe whatever happens around it. From its start, through any sequence of actions of
  its tasks (packets, handshakes and their failures, pings, refreshes, discoveries, lookups,
  commands) in any order, its invariant holds, and the only stretches that panic are the
  reading of an oversized frame, of a handshake packet or from a failed stream of a connected
  peer, the start of a discovery for a bucket of more than eight peers in a debug build, and the dialing of an
  address that \<open>connect\<close> refuses. No other task ever panics.
\<close>

theorem running_node_is_safe:
  assumes "sound_env env" and "\<forall>a\<in>set as. fair_action a"
  shows "node_inv (rn_node (run_node dbg debug as (running_new env)))
    \<and> (perform dbg debug a (run_node dbg debug as (running_new env)) = Panics
        \<longleftrightarrow> dies dbg a (run_node dbg debug as (running_new env)))"
  using run_node_inv [OF running_new_inv [OF assms(1)] assms, of dbg debug] running_invD(1)
    perform_panics [OF _ assms(1)] by blast

theorem running_node_is_safe_witness:
  "\<exists>as s bs. (\<forall>a\<in>set as. fair_action a) \<and> s = run_node True (\<lambda>c. []) as (running_new (sample_env 1))
    \<and> contains (nd_connections (rn_node s)) (PeerID (2 # 3 # replicate 30 0))
    \<and> perform True (\<lambda>c. []) (Arrives (\<lambda>ps. ps) (PeerID (2 # 3 # replicate 30 0)) bs) s = Panics
    \<and> perform True (\<lambda>c. []) (PingStep 0 0) s \<noteq> Panics"
proof -
  let ?n = "PeerID (2 # 3 # replicate 30 0)"
  obtain as s where fair: "\<forall>a\<in>set as. fair_action a" and s: "run_node True (\<lambda>c. []) as (running_new (sample_env 1)) = s"
    and alive: "rn_dead s = {}" and node: "rn_node s = (node_new (sample_env 1) (0, []))\<lparr>nd_connections :=
        connected (nd_connections (node_new (sample_env 1) (0 :: nat, [] :: node_event list))) ?n (new_connection 7 8 (ne_addr (sample_env 2)))\<rparr>"
    using sample_connected by blast
  have env: "nd_env (rn_node s) = sample_env 1" by (simp add: node node_new_def Let_def)
  have c: "contains (nd_connections (rn_node s)) ?n"
    unfolding node using contains_connected [of "nd_connections (node_new (sample_env 1) (0, []))"]
    by (simp add: node_new_def Let_def set_node_ref_inv pool_new_inv wf_peer_def)
  have "short (raw_bytes (table_codec sample_packets) (ehlo_packet (sample_env 1)))"
    by (rule sample_packets_short [OF sample_packets_mem(6)])
  then obtain b where b: "raw_bytes (table_codec sample_packets) (ehlo_packet (sample_env 1)) = Inr b" "length b < 1000000"
    by (rule shortE)
  have "from_raw_bytes (table_codec sample_packets) b = Inr (ehlo_packet (sample_env 1))"
    using sample_packets_law b(1) by (simp add: codec_law_def)
  then have "dies True (Arrives (\<lambda>ps. ps) ?n (write_frame b)) s"
    using read_frame_write [of b "[]"] b(2) c alive env by (simp add: ehlo_packet_def)
  note safe = conjunct2 [OF running_node_is_safe [OF sample_env_sound fair, of True "\<lambda>c. []"], unfolded s]
  have "perform True (\<lambda>c. []) (Arrives (\<lambda>ps. ps) ?n (write_frame b)) s = Panics"
    by (rule safe [THEN iffD2]) fact
  moreover have "perform True (\<lambda>c. []) (PingStep 0 0) s \<noteq> Panics"
    unfolding safe by simp
  ultimately show ?thesis using fair s c by blast
qed





end
