(* ===== verification/Lookup_Completeness.thy ===== *)
theory Lookup_Completeness
  imports Dht_Lookup
begin

text \<open>
  The lookup of \<open>src/node/dht.rs\<close> in a network that stands still: every provider gives one answer,
  whenever it is asked. Whatever the order in which the answers arrive, the lookup explores
  everything that the answers lead to, like a search of a graph, until it finds the value.
\<close>

section \<open>Answers and their order\<close>

type_synonym answers = "provider \<Rightarrow> SingleProviderLookupError + DhtLookupResult"

text \<open>The lookup in flight that finishes next, and what it returns.\<close>

abbreviation finishing :: "lookup \<Rightarrow> nat \<Rightarrow> provider" where
  "finishing s i \<equiv> lk_concurrent s ! (i mod length (lk_concurrent s))"

abbreviation reply :: "answers \<Rightarrow> lookup \<Rightarrow> nat \<Rightarrow> lookup_event" where
  "reply ans s i \<equiv> (i, Returns (ans (finishing s i)))"

text \<open>
  The events of a lookup when the providers answer with \<open>ans\<close> and the list says which of the
  lookups in flight finishes next.
\<close>

fun replies :: "answers \<Rightarrow> KeyID \<Rightarrow> lookup_flow \<Rightarrow> nat list \<Rightarrow> lookup_event list" where
  "replies ans key (Searching s) (i # is) =
     (let ev = reply ans s i
      in ev # replies ans key (on_result key s ev) is)"
| "replies ans key r is = []"

text \<open>What the answers lead to from the providers known at the start.\<close>

inductive reach :: "answers \<Rightarrow> provider list \<Rightarrow> provider \<Rightarrow> bool" for ans start where
  known: "p \<in> set start \<Longrightarrow> reach ans start p"
| suggested: "reach ans start p \<Longrightarrow> ans p = Inr (NotFound ps) \<Longrightarrow> q \<in> set ps \<Longrightarrow> reach ans start q"

section \<open>The invariant of the search\<close>

text \<open>
  Every provider that was asked is still in flight, has failed, or has suggested only known
  providers: ones that were asked or are waiting to be asked. The lookup stops asking only when a
  provider that has the value is in flight.
\<close>

definition settled :: "answers \<Rightarrow> provider set \<Rightarrow> provider set \<Rightarrow> provider \<Rightarrow> bool" where
  "settled ans known in_flight p \<longleftrightarrow>
     p \<in> in_flight \<or> (\<exists>e. ans p = Inl e) \<or> (\<exists>ps. ans p = Inr (NotFound ps) \<and> set ps \<subseteq> known)"

lemma settled_mono:
  "settled ans known in_flight p \<Longrightarrow> known \<subseteq> known' \<Longrightarrow> in_flight \<subseteq> in_flight' \<Longrightarrow>
    settled ans known' in_flight' p"
  unfolding settled_def by blast

definition known_providers :: "lookup \<Rightarrow> provider set" where
  "known_providers s = lk_already_queried s \<union> set (lk_providers s)"

definition explored :: "answers \<Rightarrow> provider list \<Rightarrow> lookup \<Rightarrow> bool" where
  "explored ans start s \<longleftrightarrow>
     set start \<subseteq> known_providers s
   \<and> known_providers s \<subseteq> Collect (reach ans start)
   \<and> set (lk_concurrent s) \<subseteq> lk_already_queried s
   \<and> (lk_should_complete s \<longrightarrow> (\<exists>p\<in>set (lk_concurrent s). \<exists>vs. ans p = Inr (Found vs)))
   \<and> (\<forall>p\<in>lk_already_queried s. settled ans (known_providers s) (set (lk_concurrent s)) p)"

lemma explored_new: "explored ans ps (lookup_new key ps)"
  by (auto simp: explored_def known_providers_def lookup_new_def by_distance_def intro: reach.known)

lemma explored_reach:
  assumes "explored ans start s"
  shows "p \<in> set (lk_concurrent s) \<Longrightarrow> reach ans start p"
    and "p \<in> set (lk_providers s) \<Longrightarrow> reach ans start p"
  using assms unfolding explored_def known_providers_def by blast+

lemma finishing_reach:
  assumes "explored ans start s" and "lk_concurrent s \<noteq> []"
  shows "reach ans start (finishing s i)"
  using assms by (intro explored_reach(1)) auto

lemma fill_lookups_None: "fill_lookups key s = None \<Longrightarrow> lk_providers s = [] \<and> lk_concurrent s = []"
proof (induction key s rule: fill_lookups.induct)
  case (1 key s)
  show ?case
  proof (cases "lk_providers s = []")
    case False
    with 1 have "lk_concurrent (start_lookup key (last (lk_providers s)) s) = []"
      by (auto simp: fill_lookups.simps [of key s] split: if_splits)
    then show ?thesis by (simp add: start_lookup_def)
  qed (use 1(2) in \<open>auto simp: fill_lookups.simps [of key s] split: if_splits\<close>)
qed

lemma fill_lookups_stops:
  "fill_lookups key s = Some s' \<Longrightarrow> lk_should_complete s' \<Longrightarrow>
    lk_should_complete s \<or> (\<exists>p\<in>set (lk_concurrent s'). p \<in> set (lk_providers s) \<and> fst p = key)"
proof (induction key s arbitrary: s' rule: fill_lookups.induct)
  case (1 key s)
  show ?case
  proof (cases "length (lk_concurrent s) < KADEMLIA_ALPHA \<and> \<not> lk_should_complete s \<and> lk_providers s \<noteq> []")
    case True
    let ?p = "last (lk_providers s)"
    let ?t = "start_lookup key ?p s"
    from True 1(2) have f: "fill_lookups key ?t = Some s'"
      by (simp add: fill_lookups.simps [of key s])
    from fill_lookups_Some [OF f] have "?p \<in> set (lk_concurrent s')" by (auto simp: start_lookup_def)
    moreover have "lk_should_complete ?t \<or> (\<exists>p\<in>set (lk_concurrent s'). p \<in> set (lk_providers ?t) \<and> fst p = key)"
      using 1(1) [OF _ _ f 1(3)] True by simp
    moreover have "?p \<in> set (lk_providers s)" using True by simp
    ultimately show ?thesis
      by (cases "fst ?p = key") (auto simp: start_lookup_def dest: in_set_butlastD)
  next
    case False
    with 1(2,3) show ?thesis by (auto simp: fill_lookups.simps [of key s] split: if_splits)
  qed
qed

text \<open>The node whose identity is the key itself, if it is in reach, has the value.\<close>

definition key_holds :: "answers \<Rightarrow> provider list \<Rightarrow> KeyID \<Rightarrow> bool" where
  "key_holds ans start key \<longleftrightarrow> (\<forall>p. reach ans start p \<and> fst p = key \<longrightarrow> (\<exists>vs. ans p = Inr (Found vs)))"

lemma await_any_explored:
  assumes "explored ans start s" and "key_holds ans start key"
  shows "case await_any key s of
      Searching s' \<Rightarrow> explored ans start s' \<and> lk_concurrent s' \<noteq> []
    | Finished r \<Rightarrow> r = None \<and> lk_providers s = [] \<and> lk_concurrent s = []
    | _ \<Rightarrow> False"
proof (cases "fill_lookups key s")
  case None
  with fill_lookups_None [OF None] show ?thesis by (simp add: await_any_def)
next
  case (Some s')
  from fill_lookups_Some [OF Some] obtain popped where p: "lk_providers s = lk_providers s' @ rev popped"
    and c: "lk_concurrent s' = lk_concurrent s @ popped"
    and q: "lk_already_queried s' = lk_already_queried s \<union> set popped"
    by blast
  have go: "\<exists>r\<in>set (lk_concurrent s'). \<exists>vs. ans r = Inr (Found vs)" if "lk_should_complete s'"
    using fill_lookups_stops [OF Some that] assms explored_reach(2) [OF assms(1)]
    unfolding key_holds_def explored_def c by (metis Un_iff set_append)
  have known: "known_providers s' = known_providers s"
    unfolding known_providers_def p q by auto
  have "settled ans (known_providers s') (set (lk_concurrent s')) r" if "r \<in> lk_already_queried s'" for r
  proof (cases "r \<in> set popped")
    case True
    then show ?thesis by (simp add: settled_def c)
  next
    case False
    with assms(1) that have "settled ans (known_providers s) (set (lk_concurrent s)) r"
      unfolding explored_def q by blast
    then show ?thesis by (rule settled_mono) (simp_all add: known c)
  qed
  moreover have "set (lk_concurrent s') \<subseteq> lk_already_queried s'"
    using assms(1) by (auto simp: explored_def c q)
  ultimately have "explored ans start s'"
    using assms(1) go unfolding explored_def known by blast
  moreover have "lk_concurrent s' \<noteq> []"
    using fill_lookups_busy [OF Some] go by (cases "lk_should_complete s'") auto
  ultimately show ?thesis
    using Some by (simp add: await_any_def)
qed

lemma finish_lookup_set:
  assumes "lk_concurrent s \<noteq> []"
  shows "set (lk_concurrent s) =
    insert (finishing s i) (set (lk_concurrent (finish_lookup i s)))"
proof -
  have "i mod length (lk_concurrent s) < length (lk_concurrent s)" using assms by simp
  then show ?thesis
    by (subst id_take_nth_drop) (auto simp: finish_lookup_def Let_def)
qed

text \<open>What is left to know about a state between the end of a lookup and the next questions.\<close>

lemma explored_answered:
  assumes "explored ans start s" and "lk_concurrent s \<noteq> []"
    and "p = finishing s i"
  shows "ans p = Inl e \<Longrightarrow> explored ans start (finish_lookup i s)"
    and "ans p = Inr (NotFound ps) \<Longrightarrow> explored ans start (learn key ps (finish_lookup i s))"
proof -
  let ?t = "finish_lookup i s"
  note set = finish_lookup_set [OF assms(2), of i, folded assms(3)]
  have sc: "lk_should_complete ?t = lk_should_complete s" by (simp add: finish_lookup_def Let_def)
  have step: "explored ans start t"
    if "known_providers s \<subseteq> known_providers t" and "known_providers t \<subseteq> Collect (reach ans start)"
      and "lk_already_queried t = lk_already_queried s" and "lk_concurrent t = lk_concurrent ?t"
      and "lk_should_complete t = lk_should_complete s" and "settled ans (known_providers t) {} p" for t
  proof -
    have "settled ans (known_providers t) (set (lk_concurrent t)) r" if "r \<in> lk_already_queried t" for r
    proof (cases "r = p")
      case True
      with \<open>settled ans (known_providers t) {} p\<close> show ?thesis by (auto intro: settled_mono)
    next
      case False
      with assms(1) that have "settled ans (known_providers s) (set (lk_concurrent s)) r"
        unfolding explored_def \<open>lk_already_queried t = _\<close> by blast
      with False have "settled ans (known_providers s) (set (lk_concurrent ?t)) r"
        unfolding set settled_def by blast
      then show ?thesis
        by (rule settled_mono) (use that \<open>known_providers s \<subseteq> _\<close> \<open>lk_concurrent t = _\<close> in auto)
    qed
    moreover have "\<exists>r\<in>set (lk_concurrent t). \<exists>vs. ans r = Inr (Found vs)" if "lk_should_complete t"
    proof -
      from assms(1) that obtain r vs where "r \<in> set (lk_concurrent s)" "ans r = Inr (Found vs)"
        unfolding explored_def \<open>lk_should_complete t = _\<close> by blast
      moreover from this(2) have "r \<noteq> p"
        using \<open>settled ans (known_providers t) {} p\<close> by (auto simp: settled_def)
      ultimately show ?thesis unfolding set \<open>lk_concurrent t = _\<close> by blast
    qed
    moreover have "set (lk_concurrent t) \<subseteq> lk_already_queried t"
      using assms(1) set unfolding explored_def \<open>lk_already_queried t = _\<close> \<open>lk_concurrent t = _\<close> by blast
    ultimately show ?thesis
      using assms(1) that unfolding explored_def by blast
  qed
  have in_reach: "known_providers s \<subseteq> Collect (reach ans start)" using assms(1) by (simp add: explored_def)
  show "explored ans start ?t" if "ans p = Inl e"
    using in_reach that by (intro step) (simp_all add: known_providers_def sc settled_def)
  show "explored ans start (learn key ps ?t)" if "ans p = Inr (NotFound ps)"
  proof -
    have known: "known_providers (learn key ps ?t) = known_providers s \<union> set ps"
      unfolding known_providers_def set_learn finish_lookup_frame by (auto simp: learn_def)
    have "reach ans start p" using finishing_reach [OF assms(1,2)] assms(3) by simp
    with that have "set ps \<subseteq> Collect (reach ans start)" by (auto intro: reach.suggested)
    with in_reach that show ?thesis
      by (intro step) (auto simp: known sc settled_def, simp_all add: learn_def sc)
  qed
qed

text \<open>When nothing is left to ask or to wait for, everything in reach has been asked.\<close>

lemma explored_all:
  assumes "explored ans start s" and "lk_providers s = []" and "lk_concurrent s = []" and "reach ans start p"
  shows "p \<in> lk_already_queried s \<and> (\<forall>vs. ans p \<noteq> Inr (Found vs))"
proof -
  have asked: "lk_already_queried s = known_providers s" by (simp add: known_providers_def assms(2))
  have all: "settled ans (known_providers s) {} q" if "q \<in> known_providers s" for q
    using assms(1) that by (simp add: explored_def asked assms(3))
  from assms(4) have "p \<in> known_providers s"
  proof induction
    case (known p)
    with assms(1) show ?case by (auto simp: explored_def)
  next
    case (suggested p ps q)
    with all [of p] show ?case by (auto simp: settled_def)
  qed
  with all [of p] show ?thesis by (auto simp: asked settled_def)
qed

section \<open>Runs\<close>

text \<open>What holds between two waits, and of the result.\<close>

definition search_ok :: "answers \<Rightarrow> provider list \<Rightarrow> lookup_flow \<Rightarrow> bool" where
  "search_ok ans start r \<longleftrightarrow>
     (case r of
        Searching s \<Rightarrow> explored ans start s \<and> lk_concurrent s \<noteq> []
      | Finished None \<Rightarrow> \<forall>p. reach ans start p \<longrightarrow> (\<forall>vs. ans p \<noteq> Inr (Found vs))
      | Finished (Some vs) \<Rightarrow> \<exists>p. reach ans start p \<and> ans p = Inr (Found vs)
      | _ \<Rightarrow> False)"

lemma await_any_ok:
  assumes "explored ans start s" and "key_holds ans start key"
  shows "search_ok ans start (await_any key s)"
  using await_any_explored [OF assms] explored_all [OF assms(1)]
  by (auto simp: search_ok_def split: lookup_flow.splits)

lemma on_result_ok:
  assumes "explored ans start s" and "lk_concurrent s \<noteq> []" and "key_holds ans start key"
  shows "search_ok ans start (on_result key s (reply ans s i))"
proof -
  let ?p = "finishing s i"
  note reach = finishing_reach [OF assms(1,2), of i]
  show ?thesis
  proof (cases "ans ?p")
    case (Inl e)
    with await_any_ok [OF explored_answered(1) [OF assms(1,2) refl Inl] assms(3)] show ?thesis
      by (simp add: on_result_def)
  next
    case (Inr r)
    show ?thesis
    proof (cases r)
      case (Found vs)
      with Inr have "ans ?p = Inr (Found vs)" by simp
      then have "on_result key s (reply ans s i) = Finished (Some vs)"
        by (simp add: on_result_value)
      with reach \<open>ans ?p = Inr (Found vs)\<close> show ?thesis
        unfolding search_ok_def by (simp only: lookup_flow.case option.case) blast
    next
      case (NotFound ps)
      with Inr have "ans ?p = Inr (NotFound ps)" by simp
      from await_any_ok [OF explored_answered(2) [OF assms(1,2) refl this] assms(3)] Inr NotFound show ?thesis
        by (simp add: on_result_def)
    qed
  qed
qed

lemma replies_ok:
  "search_ok ans start r \<Longrightarrow> key_holds ans start key \<Longrightarrow>
    search_ok ans start (lookup_run key r (replies ans key r is))"
proof (induction ans key r "is" rule: replies.induct)
  case (1 ans key s i "is")
  then show ?case
    using on_result_ok [of ans start s key i] by (simp add: search_ok_def Let_def)
qed auto

lemma replies_snoc:
  "lookup_run key r (replies ans key r is) = Searching s \<Longrightarrow>
    lookup_run key r (replies ans key r (is @ [i])) = on_result key s (reply ans s i)"
  by (induction ans key r "is" rule: replies.induct) (auto simp: Let_def split: lookup_flow.splits)

lemma explored_within:
  "explored ans start s \<Longrightarrow> lk_concurrent s \<noteq> [] \<Longrightarrow> within (Collect (reach ans start)) s"
  by (simp add: explored_def known_providers_def within_def)

text \<open>Every schedule ends.\<close>

lemma replies_end:
  assumes "search_ok ans start r" and "key_holds ans start key"
    and "finite (Collect (reach ans start))"
  shows "\<exists>n v. lookup_run key r (replies ans key r (map sched [0..<n])) = Finished v"
proof (rule ccontr)
  let ?run = "\<lambda>n. lookup_run key r (replies ans key r (map sched [0..<n]))"
  assume no: "\<not> (\<exists>n v. ?run n = Finished v)"
  have "\<exists>s. ?run n = Searching s" for n
    using no replies_ok [OF assms(1,2), of "map sched [0..<n]"]
    by (cases "?run n") (auto simp: search_ok_def)
  then obtain f where f: "\<And>n. ?run n = Searching (f n)" by metis
  have ok: "explored ans start (f n) \<and> lk_concurrent (f n) \<noteq> []" for n
    using replies_ok [OF assms(1,2), of "map sched [0..<n]"] f [of n] by (simp add: search_ok_def)
  have "lookup_step key (Collect (reach ans start)) (f n) (f (Suc n))" for n
  proof (rule lookup_step.intros)
    show "on_result key (f n) (reply ans (f n) (sched n)) = Searching (f (Suc n))"
      using replies_snoc [OF f, of n "sched n"] f [of "Suc n"] by simp
    have "reach ans start (finishing (f n) (sched n))"
      using ok [of n] finishing_reach by blast
    then show "\<forall>ps. snd (reply ans (f n) (sched n)) = Returns (Inr (NotFound ps)) \<longrightarrow>
        set ps \<subseteq> Collect (reach ans start)"
      by (auto intro: reach.suggested)
  qed
  with no_infinite_lookup [OF assms(3)] explored_within ok show False by blast
qed

text \<open>The lookup of a node among providers that answer.\<close>

lemma lookup_explores:
  assumes "finite (Collect (reach ans (peers_with_addrs (nd_connections node))))"
    and "key_holds ans (peers_with_addrs (nd_connections node)) key"
  shows "\<exists>n v. dht_lookup node key (replies ans key (dht_lookup node key []) (map sched [0..<n])) = Finished v
    \<and> search_ok ans (peers_with_addrs (nd_connections node)) (Finished v)"
proof -
  let ?start = "peers_with_addrs (nd_connections node)"
  let ?r = "await_any key (lookup_new key ?start)"
  have r: "dht_lookup node key [] = ?r"
    by (cases ?r) (simp_all add: dht_lookup_def)
  have ok: "search_ok ans ?start ?r" by (rule await_any_ok [OF explored_new assms(2)])
  from replies_end [OF ok assms(2,1)] obtain n v
    where "lookup_run key ?r (replies ans key ?r (map sched [0..<n])) = Finished v" by blast
  with replies_ok [OF ok assms(2), of "map sched [0..<n]"] show ?thesis
    unfolding r unfolding dht_lookup_def by metis
qed

section \<open>A network of nodes\<close>

text \<open>
  The answer of a node of the network, by its identity and address, to the question of the
  lookup; nobody answers for the others. The identifier of the request does not matter.
\<close>

definition network_answers :: "(provider \<Rightarrow> ('pk, 'sk, 'rng, 'c) Node option) \<Rightarrow> KeyID \<Rightarrow> answers" where
  "network_answers net key p =
     (case net p of
        None \<Rightarrow> Inl FailedToConnect
      | Some node \<Rightarrow> Inr (fvr_result (snd (answer_find_value node (value_request 0 key)))))"

text \<open>The peers that a node suggests: those among its connections that are closest to the key.\<close>

definition suggestions :: "('pk, 'sk, 'rng, 'c) Node \<Rightarrow> KeyID \<Rightarrow> provider list" where
  "suggestions node key = closest_peers 32 key (peers_with_addrs (nd_connections node))"

inductive linked :: "(provider \<Rightarrow> ('pk, 'sk, 'rng, 'c) Node option) \<Rightarrow> KeyID \<Rightarrow> provider list \<Rightarrow> provider \<Rightarrow> bool"
  for net key start where
  linked_start: "p \<in> set start \<Longrightarrow> linked net key start p"
| linked_step: "linked net key start p \<Longrightarrow> net p = Some node \<Longrightarrow> q \<in> set (suggestions node key) \<Longrightarrow>
    linked net key start q"

lemma network_answer_Some:
  assumes "net p = Some node"
  shows "network_answers net key p =
    Inr (if stored (nd_dht node) key = [] then NotFound (suggestions node key)
         else Found (take 64 (stored (nd_dht node) key)))"
  using assms
  by (simp add: network_answers_def find_value_result value_request_def suggestions_def
      MAX_DHT_PEERS_RETURNED_def MAX_DHT_VALUES_RETURNED_def)

lemma network_answer_Found:
  "network_answers net key p = Inr (Found vs) \<longleftrightarrow>
    (\<exists>node. net p = Some node \<and> stored (nd_dht node) key \<noteq> [] \<and> vs = take 64 (stored (nd_dht node) key))"
  by (cases "net p") (auto simp: network_answer_Some, simp add: network_answers_def)

lemma network_answer_NotFound:
  "network_answers net key p = Inr (NotFound ps) \<longleftrightarrow>
    (\<exists>node. net p = Some node \<and> stored (nd_dht node) key = [] \<and> ps = suggestions node key)"
  by (cases "net p") (auto simp: network_answer_Some, simp add: network_answers_def)

lemma reach_linked: "reach (network_answers net key) start p \<Longrightarrow> linked net key start p"
  by (induction rule: reach.induct) (auto simp: network_answer_NotFound intro: linked.intros)

text \<open>A holder that suggestions lead to is reached, or another one before it.\<close>

lemma linked_reach:
  "linked net key start p \<Longrightarrow> reach (network_answers net key) start p
    \<or> (\<exists>h vs. reach (network_answers net key) start h \<and> network_answers net key h = Inr (Found vs))"
proof (induction rule: linked.induct)
  case (linked_step p node q)
  show ?case
  proof (cases "stored (nd_dht node) key = []")
    case True
    then have "network_answers net key p = Inr (NotFound (suggestions node key))"
      using linked_step(2) by (simp add: network_answer_Some)
    with linked_step.IH linked_step(3) show ?thesis by (blast intro: reach.suggested)
  next
    case False
    then have "network_answers net key p = Inr (Found (take 64 (stored (nd_dht node) key)))"
      using linked_step(2) by (simp add: network_answer_Some)
    with linked_step.IH show ?thesis by blast
  qed
qed (auto intro: reach.known)

lemma finite_linked:
  assumes "finite (dom net)"
  shows "finite (Collect (linked net key start))"
proof (rule finite_subset)
  show "Collect (linked net key start) \<subseteq> set start \<union> (\<Union>p\<in>dom net. set (suggestions (the (net p)) key))"
  proof
    fix p
    assume "p \<in> Collect (linked net key start)"
    then have "linked net key start p" by simp
    then show "p \<in> set start \<union> (\<Union>p\<in>dom net. set (suggestions (the (net p)) key))"
      by cases force+
  qed
qed (use assms in simp)

section \<open>Properties\<close>

text \<open>
  C17: in a finite network that stands still the lookup is complete: in whatever order the answers
  arrive, it ends, and it returns values exactly if some node that the suggestions lead to, from the
  connections of the node that asks, stores values under the key. What it returns are the first 64
  values of one such node. Nodes that cannot be reached do no harm. (A node whose identity is the
  key itself ends the search, so if one is in reach it must store values of the key, as the node
  that publishes its own entry in \<open>tests/dht.rs\<close> does.)
\<close>

theorem lookup_is_complete:
  assumes "finite (dom net)"
    and "\<forall>p. linked net key (peers_with_addrs (nd_connections node)) p \<and> fst p = key \<longrightarrow>
      (\<exists>holder. net p = Some holder \<and> stored (nd_dht holder) key \<noteq> [])"
  shows "\<exists>n r. dht_lookup node key
      (replies (network_answers net key) key (dht_lookup node key []) (map sched [0..<n])) = Finished r
    \<and> (r \<noteq> None \<longleftrightarrow> (\<exists>p holder. linked net key (peers_with_addrs (nd_connections node)) p
          \<and> net p = Some holder \<and> stored (nd_dht holder) key \<noteq> []))
    \<and> (\<forall>vs. r = Some vs \<longrightarrow> (\<exists>p holder. linked net key (peers_with_addrs (nd_connections node)) p
          \<and> net p = Some holder \<and> vs = take 64 (stored (nd_dht holder) key)))"
proof -
  let ?start = "peers_with_addrs (nd_connections node)" and ?ans = "network_answers net key"
  have "finite (Collect (reach ?ans ?start))"
    by (rule finite_subset [OF _ finite_linked [OF assms(1), of key ?start]]) (auto intro: reach_linked)
  moreover have "key_holds ?ans ?start key"
    using assms(2) reach_linked unfolding key_holds_def network_answer_Found by blast
  ultimately obtain n r where run: "dht_lookup node key (replies ?ans key (dht_lookup node key []) (map sched [0..<n])) = Finished r"
    and ok: "search_ok ?ans ?start (Finished r)"
    using lookup_explores by blast
  have some: "\<exists>p holder. linked net key ?start p \<and> net p = Some holder
      \<and> stored (nd_dht holder) key \<noteq> [] \<and> vs = take 64 (stored (nd_dht holder) key)" if "r = Some vs" for vs
  proof -
    from ok that obtain p where "reach ?ans ?start p" "?ans p = Inr (Found vs)"
      by (auto simp only: search_ok_def lookup_flow.case option.case)
    then show ?thesis unfolding network_answer_Found using reach_linked by blast
  qed
  have none: "\<not> (linked net key ?start p \<and> net p = Some holder \<and> stored (nd_dht holder) key \<noteq> [])"
    if "r = None" for p holder
  proof -
    have no: "\<forall>q. reach ?ans ?start q \<longrightarrow> (\<forall>vs. ?ans q \<noteq> Inr (Found vs))"
      using ok that by (simp only: search_ok_def lookup_flow.case option.case)
    then show ?thesis using linked_reach [of net key ?start p] unfolding network_answer_Found by blast
  qed
  from run some none show ?thesis by (metis not_None_eq)
qed

text \<open>A node that stores a value, for the witness.\<close>

definition sample_value :: DhtValue where
  "sample_value =
     \<lparr>dv_cached_addr = None,
      dv_account_snapshot_desc =
        \<lparr>sd_data = \<lparr>asd_timestamp = 5, asd_hash = []\<rparr>, sd_rsa_public_key_exponent = [3],
         sd_rsa_public_key_modulus = [1], sd_signature = []\<rparr>\<rparr>"

definition sample_holder :: "(u8, u8, unit, node_event list) Node" where
  "sample_holder = sample_node\<lparr>nd_dht := dht_set dht_default (sample_peer 9) sample_value\<rparr>"

lemma sample_holder_stored: "stored (nd_dht sample_holder) (sample_peer 9) = [sample_value]"
proof -
  have "dht_inv dht_default" by (simp add: dht_inv_def dht_default_def bt_inv_def)
  from stored_set [OF this] show ?thesis by (simp add: sample_holder_def)
qed

theorem lookup_is_complete_witness:
  "\<exists>n vs. dht_lookup sample_node (sample_peer 9)
      (replies (network_answers [(sample_peer 2, ''local-2'') \<mapsto> sample_holder] (sample_peer 9)) (sample_peer 9)
        (dht_lookup sample_node (sample_peer 9) []) (map (\<lambda>i. i) [0..<n])) = Finished (Some vs)"
proof -
  let ?net = "[(sample_peer 2, ''local-2'') \<mapsto> sample_holder]" and ?key = "sample_peer 9"
  have conns: "peers_with_addrs (nd_connections sample_holder) = [(sample_peer 2, ''local-2'')]"
    by (simp add: sample_holder_def sample_peers)
  have only: "p = (sample_peer 2, ''local-2'')" if "linked ?net ?key [(sample_peer 2, ''local-2'')] p" for p
    using that
    by induction (auto simp: suggestions_def conns closest_peers_def split: if_splits)
  have fin: "finite (dom ?net)" by simp
  have keys: "\<forall>p. linked ?net ?key (peers_with_addrs (nd_connections sample_node)) p \<and> fst p = ?key \<longrightarrow>
      (\<exists>holder. ?net p = Some holder \<and> stored (nd_dht holder) ?key \<noteq> [])"
    unfolding sample_peers using only by fastforce
  have "linked ?net ?key (peers_with_addrs (nd_connections sample_node)) (sample_peer 2, ''local-2'')"
    by (rule linked_start) (simp add: sample_peers)
  moreover have "?net (sample_peer 2, ''local-2'') = Some sample_holder" by simp
  moreover have "stored (nd_dht sample_holder) ?key \<noteq> []" by (simp add: sample_holder_stored)
  ultimately show ?thesis
    using lookup_is_complete [OF fin keys, of "\<lambda>i. i"] by blast
qed

end
