(* ===== verification/Discovery_Completeness.thy ===== *)
theory Discovery_Completeness
  imports Discovery Dialing
begin

text \<open>
  Filling a bucket (\<open>src/node/discovery.rs\<close>) in a network of honest nodes that stands still: a
  connection that is opened stays, a node at an address that listens can be connected to, and the
  providers answer as \<open>prepare_discover_peers_response\<close> makes them.
\<close>

section \<open>The network\<close>

text \<open>
  The network, for the candidates \<open>cands\<close> that may be suggested: connections stay, and connecting to
  a candidate that is not connected succeeds unless nobody listens at its address.
\<close>

definition steady :: "'s world \<Rightarrow> string set \<Rightarrow> provider set \<Rightarrow> bool" where
  "steady w alive cands \<longleftrightarrow>
     (\<forall>s n. w_connected w s n \<longrightarrow>
        (\<forall>q. w_connected w (fst (w_attempt w s q)) n) \<and> (\<forall>p. w_connected w (fst (w_ask w s p)) n))
   \<and> (\<forall>s. \<forall>q\<in>cands. \<not> w_connected w s (fst q) \<longrightarrow>
        snd (w_attempt w s q) = Discovered \<and> w_connected w (fst (w_attempt w s q)) (fst q)
      \<or> snd (w_attempt w s q) = NoListener \<and> snd q \<notin> alive)"

text \<open>Each provider \<open>p\<close> of \<open>ps\<close> answers with candidates, and its answer contains \<open>known p\<close>.\<close>

definition answering :: "'s world \<Rightarrow> (PeerID \<Rightarrow> provider set) \<Rightarrow> PeerID set \<Rightarrow> provider set \<Rightarrow> bool" where
  "answering w known ps cands \<longleftrightarrow>
     (\<forall>s. \<forall>p\<in>ps. \<exists>qs. snd (w_ask w s p) = Some qs \<and> known p \<subseteq> set qs \<and> set qs \<subseteq> cands)"

section \<open>Candidates that are dealt with\<close>

definition reached :: "'s world \<Rightarrow> string set \<Rightarrow> 's \<Rightarrow> provider \<Rightarrow> bool" where
  "reached w alive s q \<longleftrightarrow> w_connected w s (fst q) \<or> snd q \<notin> alive"

text \<open>What a provider knows is still to be asked for, still a candidate, or reached.\<close>

definition progress ::
  "'s world \<Rightarrow> string set \<Rightarrow> provider set \<Rightarrow> (PeerID \<Rightarrow> provider set) \<Rightarrow> PeerID set \<Rightarrow> 's discovery \<Rightarrow> bool" where
  "progress w alive cands known ps d \<longleftrightarrow>
     set (ds_providers d) \<subseteq> ps \<and> set (ds_candidates d) \<subseteq> cands
   \<and> (\<forall>q\<in>ds_old_candidates d. reached w alive (ds_world d) q)
   \<and> (\<forall>p\<in>ps. p \<in> set (ds_providers d) \<or> (\<forall>q\<in>known p. q \<in> set (ds_candidates d) \<or> reached w alive (ds_world d) q))"

lemma progressI:
  assumes "set (ds_providers d) \<subseteq> ps" and "set (ds_candidates d) \<subseteq> cands"
    and "\<And>q. q \<in> ds_old_candidates d \<Longrightarrow> reached w alive (ds_world d) q"
    and "\<And>p q. p \<in> ps \<Longrightarrow> p \<notin> set (ds_providers d) \<Longrightarrow> q \<in> known p \<Longrightarrow> q \<notin> set (ds_candidates d) \<Longrightarrow>
      reached w alive (ds_world d) q"
  shows "progress w alive cands known ps d"
  using assms unfolding progress_def by blast

lemma set_butlast_last: "xs \<noteq> [] \<Longrightarrow> x \<in> set xs \<longleftrightarrow> x = last xs \<or> x \<in> set (butlast xs)"
  by (induction xs rule: rev_induct) auto

text \<open>A candidate is popped: it was tried before, it is connected, or it is tried now.\<close>

lemma progress_candidate:
  assumes "progress w alive cands known ps d" and "ds_candidates d \<noteq> []"
    and "ds_candidates d' = butlast (ds_candidates d)" and "ds_providers d' = ds_providers d"
    and "ds_old_candidates d' = ds_old_candidates d \<or> ds_old_candidates d' = insert (last (ds_candidates d)) (ds_old_candidates d)"
    and "\<And>q. reached w alive (ds_world d) q \<Longrightarrow> reached w alive (ds_world d') q"
    and "reached w alive (ds_world d') (last (ds_candidates d))"
  shows "progress w alive cands known ps d'"
proof (rule progressI)
  show "set (ds_providers d') \<subseteq> ps" "set (ds_candidates d') \<subseteq> cands"
    using assms(1,3,4) by (auto simp: progress_def dest: in_set_butlastD)
  show "reached w alive (ds_world d') q" if "q \<in> ds_old_candidates d'" for q
  proof -
    have "q = last (ds_candidates d) \<or> q \<in> ds_old_candidates d" using that assms(5) by auto
    moreover have "reached w alive (ds_world d) q" if "q \<in> ds_old_candidates d"
      using that assms(1) unfolding progress_def by blast
    ultimately show ?thesis using assms(6,7) by metis
  qed
  show "reached w alive (ds_world d') q"
    if "p \<in> ps" "p \<notin> set (ds_providers d')" "q \<in> known p" "q \<notin> set (ds_candidates d')" for p q
  proof (cases "q = last (ds_candidates d)")
    case True
    then show ?thesis using assms(7) by simp
  next
    case False
    with that(4) set_butlast_last [OF assms(2), of q] have "q \<notin> set (ds_candidates d)" by (simp add: assms(3))
    with that(1-3) assms(1) have "reached w alive (ds_world d) q" unfolding progress_def assms(4) by blast
    then show ?thesis by (rule assms(6))
  qed
qed

lemma steadyD:
  assumes "steady w alive cands" and "reached w alive s q"
  shows "reached w alive (fst (w_attempt w s c)) q" and "reached w alive (fst (w_ask w s p)) q"
  using assms unfolding steady_def reached_def by blast+

lemma steady_attempt:
  assumes "steady w alive cands" and "q \<in> cands" and "\<not> w_connected w s (fst q)" and "w_attempt w s q = (s', a)"
  shows "a = Discovered \<or> a = NoListener" and "reached w alive s' q"
  using assms unfolding steady_def reached_def by (metis fst_conv snd_conv)+

lemma discover_round_progress:
  assumes "steady w alive cands" and "answering w known ps cands"
    and "progress w alive cands known ps d" and "discover_round w d = (d', r)"
  shows "progress w alive cands known ps d' \<and> (r = None \<or> r = Some Filled \<or> r = Some NoProviders)"
proof (cases "ds_missing_peers d = 0")
  case True
  then show ?thesis using assms(3,4) by (simp add: discover_round_def)
next
  case missing: False
  show ?thesis
  proof (cases "ds_candidates d = []")
    case False
    let ?q = "last (ds_candidates d)"
    note candidate = progress_candidate [OF assms(3) False]
    obtain s a where a: "w_attempt w (ds_world d) ?q = (s, a)" by fastforce
    have "?q \<in> cands" using assms(3) False unfolding progress_def by (metis last_in_set subsetD)
    note frame = steady_attempt [OF assms(1) this _ a]
    consider (old) "?q \<in> ds_old_candidates d" | (connected) "?q \<notin> ds_old_candidates d" "w_connected w (ds_world d) (fst ?q)"
      | (new) "?q \<notin> ds_old_candidates d" "\<not> w_connected w (ds_world d) (fst ?q)" by blast
    then show ?thesis
    proof cases
      case old
      then have "reached w alive (ds_world d) ?q" using assms(3) by (simp add: progress_def)
      with old missing False assms(4) show ?thesis
        by (auto simp: discover_round_def Let_def intro: candidate)
    next
      case connected
      then have "reached w alive (ds_world d) ?q" by (simp add: reached_def)
      with connected missing False assms(4) show ?thesis
        by (auto simp: discover_round_def Let_def intro: candidate)
    next
      case new
      have mono: "reached w alive s q" if "reached w alive (ds_world d) q" for q
        using steadyD(1) [OF assms(1) that, of ?q] by (simp add: a)
      have d': "ds_candidates d' = butlast (ds_candidates d)" "ds_providers d' = ds_providers d"
        "ds_old_candidates d' = insert ?q (ds_old_candidates d)" "ds_world d' = s" "r = None"
        using new missing False assms(4) frame by (auto simp: discover_round_def try_candidate_def Let_def a)
      from candidate [OF d'(1,2) disjI2 [OF d'(3)], unfolded d'(4), OF mono frame(2) [OF new(2)]] d'(5)
      show ?thesis by simp
    qed
  next
    case none: True
    show ?thesis
    proof (cases "ds_providers d = []")
      case True
      with none missing assms(3,4) show ?thesis by (simp add: discover_round_def)
    next
      case False
      let ?p = "last (ds_providers d)"
      obtain s ans where a: "w_ask w (ds_world d) ?p = (s, ans)" by fastforce
      have "?p \<in> ps" using assms(3) False unfolding progress_def by (metis last_in_set subsetD)
      with assms(2) a obtain qs where qs: "ans = Some qs" "known ?p \<subseteq> set qs" "set qs \<subseteq> cands"
        unfolding answering_def by (metis snd_conv)
      have mono: "reached w alive s q" if "reached w alive (ds_world d) q" for q
        using steadyD(2) [OF assms(1) that, of ?p] by (simp add: a)
      let ?d = "d\<lparr>ds_world := s, ds_providers := butlast (ds_providers d), ds_candidates := qs\<rparr>"
      have "progress w alive cands known ps ?d"
      proof (rule progressI)
        show "set (ds_providers ?d) \<subseteq> ps" "set (ds_candidates ?d) \<subseteq> cands"
          using assms(3) qs(3) by (auto simp: progress_def dest: in_set_butlastD)
        show "reached w alive (ds_world ?d) q" if "q \<in> ds_old_candidates ?d" for q
          using that assms(3) mono by (simp add: progress_def)
        show "reached w alive (ds_world ?d) q"
          if "p \<in> ps" "p \<notin> set (ds_providers ?d)" "q \<in> known p" "q \<notin> set (ds_candidates ?d)" for p q
        proof -
          have "p \<noteq> ?p" using that(3,4) qs(2) by auto
          then have "p \<notin> set (ds_providers d)" using that(2) set_butlast_last [OF False] by simp
          with that(1,3) none assms(3) have "reached w alive (ds_world d) q"
            unfolding progress_def by (metis empty_iff list.set(1))
          then show ?thesis by (simp add: mono)
        qed
      qed
      with none False missing assms(4) a qs(1) show ?thesis by (auto simp: discover_round_def)
    qed
  qed
qed

lemma discover_loop_progress:
  assumes "steady w alive cands" and "answering w known ps cands" and "progress w alive cands known ps d"
    and "discover_loop w d = (d', e)"
  shows "progress w alive cands known ps d' \<and> (e = Filled \<or> e = NoProviders)"
proof -
  note round = discover_round_progress [OF assms(1,2)]
  have "\<exists>d0. progress w alive cands known ps d0 \<and> discover_round w d0 = (d', Some e)"
  proof (rule discover_loop_last_round [where P = "progress w alive cands known ps", OF _ assms(3,4)])
    show "progress w alive cands known ps d2"
      if "progress w alive cands known ps d1" "discover_round w d1 = (d2, r)" for d1 d2 r
      using round [OF that] by simp
  qed
  then obtain d0 where "progress w alive cands known ps d0" "discover_round w d0 = (d', Some e)" by blast
  from round [OF this] show ?thesis by simp
qed

section \<open>Honest providers\<close>

definition known_in_bucket :: "PeerID \<Rightarrow> usize \<Rightarrow> usize \<Rightarrow> ConnectionPool \<Rightarrow> provider list" where
  "known_in_bucket our l c pool =
     filter (\<lambda>q. bucket_checked (fst q) our = Returns (Some (l, c))) (peers_with_addrs pool)"

text \<open>The provider \<open>p\<close> has the connections \<open>net p\<close>, and answers as \<open>prepare_discover_peers_response\<close> makes it.\<close>

definition honest_providers ::
  "bool \<Rightarrow> (provider list \<Rightarrow> provider list) \<Rightarrow> (PeerID \<Rightarrow> ConnectionPool) \<Rightarrow> PeerID \<Rightarrow> bytes \<Rightarrow> PeerID set \<Rightarrow> 's world \<Rightarrow> bool" where
  "honest_providers dbg shuffle net target msk ps w \<longleftrightarrow>
     (\<forall>p\<in>ps. pool_inv (net p) \<and>
       (\<forall>s. \<exists>i ans. prepare_discover_peers_response dbg shuffle (net p) (discover_request i target msk) = Returns ans
          \<and> snd (w_ask w s p) = Some (dpr_peers ans)))"

lemma honest_answer_known:
  assumes "pool_inv pool" and "wf_peer our" and "l < 128" and "c < 3" and "\<And>xs. mset (shuffle xs) = mset xs"
    and "prepare_discover_peers_response dbg shuffle pool
      (discover_request i (generate_in_bucket our l c) (bucket_mask l)) = Returns ans"
  shows "set (dpr_peers ans) \<subseteq> set (known_in_bucket our l c pool)"
    and "length (known_in_bucket our l c pool) \<le> 64 \<Longrightarrow> set (known_in_bucket our l c pool) \<subseteq> set (dpr_peers ans)"
proof -
  let ?q = "discover_request i (generate_in_bucket our l c) (bucket_mask l)"
  have "bucket_checked (fst e) our = Returns (bucket (fst e) our)" if "e \<in> set (peers_with_addrs pool)" for e
    using peers_wf [OF assms(1)] that bucket_checked_eq [OF _ assms(2)] by simp
  then have "known_in_bucket our l c pool = filter (\<lambda>e. bucket (fst e) our = Some (l, c)) (peers_with_addrs pool)"
    unfolding known_in_bucket_def by (intro filter_cong) simp_all
  then have known: "known_in_bucket our l c pool = filter (\<lambda>e. matches (fst e) (dp_target ?q) (dp_mask ?q)) (peers_with_addrs pool)"
    using honest_answer [OF assms(1-4)] by (simp add: discover_request_def)
  have wf: "wf_peer (dp_target ?q)" "length (dp_mask ?q) \<le> 32"
    using assms(2,3) by (simp_all add: discover_request_def)
  have ans: "dpr_peers ans = trim_loop 64 (shuffle (known_in_bucket our l c pool))"
    using assms(6) unfolding prepare_response_eq [OF assms(1) wf] known by (auto simp: discover_request_def)
  note perm = mset_eq_setD [OF assms(5)] mset_eq_length [OF assms(5)]
  show "set (dpr_peers ans) \<subseteq> set (known_in_bucket our l c pool)"
    using set_trim_loop perm(1) unfolding ans by fastforce
  show "set (known_in_bucket our l c pool) \<subseteq> set (dpr_peers ans)" if "length (known_in_bucket our l c pool) \<le> 64"
    using that perm by (simp add: ans trim_loop.simps [of 64 "shuffle (known_in_bucket our l c pool)"])
qed

text \<open>For the witness: such a network, in which every node at an address in \<open>alive\<close> accepts the connection.\<close>

definition honest_world ::
  "bool \<Rightarrow> (provider list \<Rightarrow> provider list) \<Rightarrow> (PeerID \<Rightarrow> ConnectionPool) \<Rightarrow> string set \<Rightarrow> PeerID \<Rightarrow> bytes \<Rightarrow> PeerID list world" where
  "honest_world dbg shuffle net alive target msk =
     \<lparr>w_connected = (\<lambda>s n. n \<in> set s),
      w_attempt = (\<lambda>s q. if snd q \<in> alive then (fst q # s, Discovered) else (s, NoListener)),
      w_ask = (\<lambda>s p. (s,
        case prepare_discover_peers_response dbg shuffle (net p) (discover_request 0 target msk) of
          Panics \<Rightarrow> None | Returns ans \<Rightarrow> Some (dpr_peers ans)))\<rparr>"

lemma honest_world_steady: "steady (honest_world dbg shuffle net alive t m) alive cands"
  by (simp add: steady_def honest_world_def)

lemma honest_world_answers:
  assumes "\<And>p. p \<in> ps \<Longrightarrow> pool_inv (net p)" and "wf_peer t" and "length m \<le> 32"
  shows "honest_providers dbg shuffle net t m ps (honest_world dbg shuffle net alive t m)"
proof -
  have "\<exists>ans. prepare_discover_peers_response dbg shuffle (net p) (discover_request 0 t m) = Returns ans" if "p \<in> ps" for p
    using prepare_response_eq [OF assms(1) [OF that], of "discover_request 0 t m"] assms(2,3)
    by (simp add: discover_request_def)
  then show ?thesis
    using assms(1) by (fastforce simp: honest_providers_def honest_world_def)
qed

section \<open>Properties\<close>



end
