(* ===== verification/Conversation.thy ===== *)
theory Conversation
  imports Running_Node Lookup_Completeness
begin

text \<open>
  A question between two honest nodes, from the task that asks to the same task with the answer: the
  request is framed and written (\<open>src/node/connections.rs\<close>), read and answered by the other node
  (\<open>on_packet\<close> in \<open>src/node/node.rs\<close>), and the answer is framed, read and handed to the task that
  listens (\<open>src/node/dht.rs\<close>, \<open>src/node/discovery.rs\<close>). In between, both nodes may do anything else.
\<close>

section \<open>The connection\<close>

text \<open>A packet that the serialisation turns into a frame that is not refused.\<close>

definition fits :: "Packet codec \<Rightarrow> Packet \<Rightarrow> bool" where
  "fits c p \<longleftrightarrow> (\<exists>bs. raw_bytes c p = Inr bs \<and> length bs < 1000000)"

definition framed :: "Packet codec \<Rightarrow> Packet \<Rightarrow> bytes" where
  "framed c p = (case raw_bytes c p of Inl e \<Rightarrow> [] | Inr bs \<Rightarrow> write_frame bs)"

lemma reader_round_framed:
  assumes "codec_law c" and "fits c p"
  shows "reader_round c (framed c p @ rest) = Handle p rest"
  using assms by (auto simp: fits_def framed_def reader_round_def read_write_frame codec_law_def)

text \<open>
  The stream \<open>w\<close> of \<open>a\<close> leads to \<open>b\<close>, and both serialise in the same way.
\<close>

definition connects :: "('pk, 'sk, 'rng, 'c) Node \<Rightarrow> nat \<Rightarrow> ('pk, 'sk, 'rng, 'c) Node \<Rightarrow> bool" where
  "connects a w b \<longleftrightarrow>
     (\<exists>peer. bt_get (cp_connections (nd_connections a)) (ne_peer_id (nd_env b)) = Some peer \<and> pi_write_stream peer = w)
   \<and> ne_codec (nd_env b) = ne_codec (nd_env a) \<and> codec_law (ne_codec (nd_env a))"

abbreviation node_id :: "('pk, 'sk, 'rng, 'c) Node \<Rightarrow> PeerID" where
  "node_id node \<equiv> ne_peer_id (nd_env node)"

abbreviation node_codec :: "('pk, 'sk, 'rng, 'c) Node \<Rightarrow> Packet codec" where
  "node_codec node \<equiv> ne_codec (nd_env node)"

lemma wf_node_id: "node_inv node \<Longrightarrow> wf_peer (node_id node)"
  by (metis node_inv_def pool_invD(2))

lemma sending_connected:
  assumes "node_inv a" and "connects a w b" and "fits (node_codec a) p" and "\<forall>q. p \<noteq> Quit q"
  shows "sending a (node_id b) p k = k [Wrote w (framed (node_codec a) p)]"
proof -
  have "cp_node_ref (nd_connections a)" using assms(1) by (simp add: node_inv_def)
  from send_packet_Returns [OF this assms(4)] assms(2,3) show ?thesis
    by (auto simp: sending_def connects_def fits_def framed_def)
qed

lemma hears_framed:
  assumes "codec_law (node_codec b)" and "fits (node_codec b) p"
  shows "hears dbg shuffle send b n (framed (node_codec b) p @ rest) = on_packet dbg shuffle send b n p"
  by (simp add: hears_def reader_round_framed [OF assms])

section \<open>Listeners\<close>

definition listening :: "nat \<Rightarrow> channel EventListeners \<Rightarrow> bool" where
  "listening k l \<longleftrightarrow> k \<in> fst ` set (listeners l)"

lemma messages_broadcast:
  assumes "k \<in> opened" and "listening k l"
  shows "messages k \<lparr>listeners = broadcast (deliver opened) e (listeners l)\<rparr> = messages k l @ [e]"
proof -
  have "(case find (\<lambda>c. fst c = k) (broadcast (deliver opened) e ls) of None \<Rightarrow> [] | Some c \<Rightarrow> snd c) =
      (case find (\<lambda>c. fst c = k) ls of None \<Rightarrow> [] | Some c \<Rightarrow> snd c) @ [e]"
    if "k \<in> fst ` set ls" for ls :: "channel list"
    using that
  proof (induction ls)
    case (Cons c ls)
    then show ?case using assms(1) by (cases c) (auto simp: deliver_def)
  qed simp
  with assms(2) show ?thesis by (simp add: messages_def listening_def)
qed

lemma await_value_resp_append:
  "await_value_resp n i msgs = None \<Longrightarrow> fvr_request_id p = i \<Longrightarrow>
    await_value_resp n i (msgs @ [EvFindDhtValueResp n p]) = Some p"
  by (induction msgs) (auto simp: await_value_resp_def is_value_resp_def split: if_splits node_event.splits)

lemma await_discover_resp_append:
  "await_discover_resp n i msgs = None \<Longrightarrow> dpr_request_id p = i \<Longrightarrow>
    await_discover_resp n i (msgs @ [EvDiscoverPeersResp n p]) = Some (dpr_peers p)"
  by (induction msgs) (auto simp: await_discover_resp_def is_discover_resp_def split: if_splits node_event.splits)

lemma request_id_of_answer: "fvr_request_id (snd (answer_find_value b q)) = fv_request_id q"
  by (simp add: answer_find_value_def case_prod_unfold Let_def)

lemma answer_any_request:
  "fvr_result (snd (answer_find_value b (value_request i key))) = fvr_result (snd (answer_find_value b (value_request j key)))"
  by (simp add: find_value_result value_request_def)

lemma messages_listen:
  "listening k (listen (k, []) l)"
  "\<not> listening k l \<Longrightarrow> messages k (listen (k, []) l) = []"
proof -
  show "listening k (listen (k, []) l)" by (simp add: listening_def listen_def)
  have "find (\<lambda>c. fst c = k) (ls @ [(k, [])]) = Some (k, [])" if "k \<notin> fst ` set ls" for ls :: "channel list"
    using that by (induction ls) auto
  then show "\<not> listening k l \<Longrightarrow> messages k (listen (k, []) l) = []"
    by (simp add: listening_def listen_def messages_def)
qed

section \<open>Asking\<close>

text \<open>What the task that asks sends, and the channel it then listens on.\<close>

lemma ask_provider_connected:
  assumes "node_inv a" and "connects a w b" and "ask_provider (k, []) a key (node_id b) = Returns (a1, effs, i)"
    and "fits (node_codec a) (FindDhtValue (value_request i key))"
  shows "effs = [Wrote w (framed (node_codec a) (FindDhtValue (value_request i key)))]"
    and "nd_on_find_dht_value_resp_packet a1 = listen (k, []) (nd_on_find_dht_value_resp_packet a)"
proof -
  obtain j c where j: "counter_next (nd_dht_req_counter a) = (j, c)" by fastforce
  let ?a0 = "a\<lparr>nd_dht_req_counter := c,
      nd_on_find_dht_value_resp_packet := listen (k, []) (nd_on_find_dht_value_resp_packet a)\<rparr>"
  have "j = i"
    using assms(3) by (auto simp: ask_provider_def j Let_def bind_outcome_Returns_iff)
  moreover have "node_inv ?a0" "connects ?a0 w b" using assms(1,2) by (simp_all add: node_inv_def connects_def)
  ultimately show "effs = [Wrote w (framed (node_codec a) (FindDhtValue (value_request i key)))]"
    "nd_on_find_dht_value_resp_packet a1 = listen (k, []) (nd_on_find_dht_value_resp_packet a)"
    using sending_connected [of ?a0 w b "FindDhtValue (value_request i key)"] assms(3,4)
    by (auto simp: ask_provider_def j handled_def)
qed

lemma ask_discovery_connected:
  assumes "node_inv a" and "connects a w b" and "ask_discovery (k, []) a t msk (node_id b) = Returns (a1, effs, i)"
    and "fits (node_codec a) (DiscoverPeers (discover_request i t msk))"
  shows "effs = [Wrote w (framed (node_codec a) (DiscoverPeers (discover_request i t msk)))]"
    and "nd_on_discover_peers_resp_packet a1 = listen (k, []) (nd_on_discover_peers_resp_packet a)"
proof -
  obtain j c where j: "counter_next (nd_discover_peer_req_counter a) = (j, c)" by fastforce
  let ?a0 = "a\<lparr>nd_discover_peer_req_counter := c,
      nd_on_discover_peers_resp_packet := listen (k, []) (nd_on_discover_peers_resp_packet a)\<rparr>"
  have "j = i"
    using assms(3) by (auto simp: ask_discovery_def j Let_def bind_outcome_Returns_iff)
  moreover have "node_inv ?a0" "connects ?a0 w b" using assms(1,2) by (simp_all add: node_inv_def connects_def)
  ultimately show "effs = [Wrote w (framed (node_codec a) (DiscoverPeers (discover_request i t msk)))]"
    "nd_on_discover_peers_resp_packet a1 = listen (k, []) (nd_on_discover_peers_resp_packet a)"
    using sending_connected [of ?a0 w b "DiscoverPeers (discover_request i t msk)"] assms(3,4)
    by (auto simp: ask_discovery_def j handled_def)
qed

lemma ask_discovery_total:
  assumes "node_inv a"
  shows "\<exists>a1 effs i. ask_discovery fresh a t msk n = Returns (a1, effs, i)"
proof -
  have "cp_node_ref (nd_connections a)" using assms by (simp add: node_inv_def)
  from send_packet_Returns [OF this] show ?thesis
    by (auto simp: ask_discovery_def sending_def handled_def Let_def case_prod_unfold)
qed

section \<open>Answering\<close>

lemma hears_value_question:
  assumes "node_inv b" and "connects b w a" and "fits (node_codec b) (FindDhtValue q)"
    and "fits (node_codec b) (FindDhtValueResp (snd (answer_find_value b q)))"
  shows "\<exists>b1. hears dbg shuffle send b (node_id a) (framed (node_codec b) (FindDhtValue q) @ rest) =
    Returns (b1, [Wrote w (framed (node_codec b) (FindDhtValueResp (snd (answer_find_value b q))))])"
proof -
  obtain store ans where ans: "answer_find_value b q = (store, ans)" by fastforce
  let ?b0 = "b\<lparr>nd_dht := store\<rparr>"
  have "store = fst (dht_get (nd_dht b) (fv_key q))"
    using answer_store [of b q] ans by simp
  then have "node_inv ?b0" using assms(1) by (simp add: node_inv_def dht_get_inv)
  moreover have "connects ?b0 w a" using assms(2) by (simp add: connects_def)
  moreover have "codec_law (node_codec b)" using assms(2) by (simp add: connects_def)
  ultimately show ?thesis
    using hears_framed [of b "FindDhtValue q"] assms(3,4) sending_connected [of ?b0 w a "FindDhtValueResp ans"]
    by (simp add: ans event_eq handled_def)
qed

lemma hears_discovery_question:
  assumes "node_inv b" and "connects b w a" and "fits (node_codec b) (DiscoverPeers q)"
    and "length (dp_mask q) \<le> 32"
    and "prepare_discover_peers_response dbg shuffle (nd_connections b) q = Returns ans"
    and "fits (node_codec b) (DiscoverPeersResp ans)"
  shows "\<exists>b1. hears dbg shuffle send b (node_id a) (framed (node_codec b) (DiscoverPeers q) @ rest) =
    Returns (b1, [Wrote w (framed (node_codec b) (DiscoverPeersResp ans))])"
proof -
  have "codec_law (node_codec b)" using assms(2) by (simp add: connects_def)
  then show ?thesis
    using hears_framed [of b "DiscoverPeers q"] sending_connected [OF assms(1,2,6)] assms(3-5)
    by (simp add: event_eq handled_def)
qed

lemma hears_value_answer:
  assumes "codec_law (node_codec a)" and "fits (node_codec a) (FindDhtValueResp (snd (answer_find_value b q)))"
    and "k \<in> opened" and "listening k (nd_on_find_dht_value_resp_packet a)"
    and "await_value_resp n (fv_request_id q) (messages k (nd_on_find_dht_value_resp_packet a)) = None"
  shows "\<exists>a'. hears dbg shuffle (deliver opened) a n
      (framed (node_codec a) (FindDhtValueResp (snd (answer_find_value b q))) @ rest) = Returns (a', [])
    \<and> await_value_resp n (fv_request_id q) (messages k (nd_on_find_dht_value_resp_packet a')) =
        Some (snd (answer_find_value b q))"
  unfolding hears_framed [OF assms(1,2)]
  by (simp add: answers_accepted event_eq handled_def messages_broadcast [OF assms(3,4)]
      await_value_resp_append [OF assms(5)] request_id_of_answer)

lemma hears_discovery_answer:
  assumes "codec_law (node_codec a)" and "fits (node_codec a) (DiscoverPeersResp ans)" and "length (dpr_peers ans) \<le> 64"
    and "k \<in> opened" and "listening k (nd_on_discover_peers_resp_packet a)"
    and "await_discover_resp n (dpr_request_id ans) (messages k (nd_on_discover_peers_resp_packet a)) = None"
  shows "\<exists>a'. hears dbg shuffle (deliver opened) a n (framed (node_codec a) (DiscoverPeersResp ans) @ rest) = Returns (a', [])
    \<and> await_discover_resp n (dpr_request_id ans) (messages k (nd_on_discover_peers_resp_packet a')) = Some (dpr_peers ans)"
  unfolding hears_framed [OF assms(1,2)]
  using assms(3)
  by (simp add: event_eq handled_def messages_broadcast [OF assms(4,5)] await_discover_resp_append [OF assms(6)])

section \<open>Two nodes\<close>

text \<open>For the witnesses: the nodes with the keys 1 and 2, each connected to the other.\<close>

definition sample_id :: "u8 \<Rightarrow> PeerID" where
  "sample_id k = PeerID (k # 3 # replicate 30 0)"

definition talker :: "Packet codec \<Rightarrow> u8 \<Rightarrow> u8 \<Rightarrow> (u8, u8, unit, channel) Node" where
  "talker c i j =
     (let node = node_new (sample_base c i) (0, [])
      in node\<lparr>nd_connections := connected (nd_connections node) (sample_id j) (new_connection 7 8 ''local-0'')\<rparr>)"

lemma talker_sel [simp]:
  "cp_connections (nd_connections (talker c i j)) = [(sample_id j, new_connection 7 8 ''local-0'')]"
  "nd_env (talker c i j) = sample_base c i" "nd_dht (talker c i j) = dht_default"
  "nd_dht_req_counter (talker c i j) = counter_default"
  "nd_discover_peer_req_counter (talker c i j) = counter_default"
  by (simp_all add: talker_def node_new_def Let_def connected_def pool_new_def set_node_ref_def)

lemma sample_base_sel [simp]:
  "ne_codec (sample_base c i) = c" "ne_peer_id (sample_base c i) = sample_id i"
  by (simp_all add: sample_base_def sample_id_def)

lemma talker_inv: "i \<noteq> j \<Longrightarrow> node_inv (talker c i j)"
proof -
  assume "i \<noteq> j"
  have wf: "wf_peer (sample_id k)" for k by (simp add: sample_id_def)
  let ?node = "node_new (sample_base c i) (0, []) :: (u8, u8, unit, channel) Node"
  have "node_inv ?node" by (rule node_new_inv) (simp add: wf)
  moreover have "cp_our_peer_id (nd_connections ?node) = sample_id i"
    by (simp add: node_new_def Let_def set_node_ref_def pool_new_def)
  moreover have "sample_id j \<noteq> sample_id i" using \<open>i \<noteq> j\<close> by (simp add: sample_id_def)
  ultimately show ?thesis
    using connected_inv [of "nd_connections ?node" "sample_id j" "new_connection 7 8 ''local-0''"] wf
    by (simp add: node_inv_def talker_def Let_def) (simp add: connected_def)
qed

lemma talker_connects: "codec_law c \<Longrightarrow> connects (talker c i j) 7 (talker c j i)"
  by (simp add: connects_def bt_get_def new_connection_def)

lemma fits_table: "p \<in> set ps \<Longrightarrow> fits (table_codec ps) p"
  by (simp add: fits_def raw_bytes_table)

section \<open>Properties\<close>

text \<open>
  C10: a question of a lookup gets its answer. When a node asks a connected node for the values of a
  key, it writes one frame; the other node, whatever it has done before, answers that frame with one
  frame; and when the asking node reads this one, whatever it has done in between, as long as its task
  listens and has not yet had an answer, the task gets exactly what the other node knows: its first 64
  values of the key, or the 32 of its connections closest to the key if it has no values.
\<close>

theorem value_question_is_answered:
  assumes "node_inv a" and "node_inv b" and "connects a w b" and "connects b w' a"
    and "ask_provider (k, []) a key (node_id b) = Returns (a1, effs, i)"
    and "fits (node_codec a) (FindDhtValue (value_request i key))"
    and "fits (node_codec a) (FindDhtValueResp (snd (answer_find_value b (value_request i key))))"
  shows "\<exists>req resp. effs = [Wrote w req] \<and> listening k (nd_on_find_dht_value_resp_packet a1)
    \<and> (\<exists>b1. hears dbg shuffle send b (node_id a) (req @ rest) = Returns (b1, [Wrote w' resp]))
    \<and> (\<forall>a2. nd_env a2 = nd_env a \<and> listening k (nd_on_find_dht_value_resp_packet a2) \<and> k \<in> opened
        \<and> await_value_resp (node_id b) i (messages k (nd_on_find_dht_value_resp_packet a2)) = None \<longrightarrow>
        (\<exists>a3 p. hears dbg' shuffle' (deliver opened) a2 (node_id b) (resp @ rest') = Returns (a3, [])
          \<and> await_value_resp (node_id b) i (messages k (nd_on_find_dht_value_resp_packet a3)) = Some p
          \<and> fvr_result p = (if stored (nd_dht b) key = [] then NotFound (suggestions b key)
                            else Found (take 64 (stored (nd_dht b) key)))))"
proof -
  let ?q = "value_request i key"
  let ?ans = "snd (answer_find_value b ?q)"
  have codec: "node_codec b = node_codec a" "codec_law (node_codec a)"
    using assms(3) by (simp_all add: connects_def)
  have i: "fv_request_id ?q = i" by (simp add: value_request_def)
  have result: "fvr_result ?ans = (if stored (nd_dht b) key = [] then NotFound (suggestions b key)
      else Found (take 64 (stored (nd_dht b) key)))"
    by (simp add: find_value_result value_request_def suggestions_def constants_defs)
  note ask = ask_provider_connected [OF assms(1,3,5,6)]
  note b = hears_value_question [OF assms(2,4), of ?q, unfolded codec(1), OF assms(6,7)]
  have a: "\<exists>a3 p. hears dbg' shuffle' (deliver opened) a2 (node_id b)
            (framed (node_codec a) (FindDhtValueResp ?ans) @ rest') = Returns (a3, [])
          \<and> await_value_resp (node_id b) i (messages k (nd_on_find_dht_value_resp_packet a3)) = Some p
          \<and> fvr_result p = (if stored (nd_dht b) key = [] then NotFound (suggestions b key)
                            else Found (take 64 (stored (nd_dht b) key)))"
    if "nd_env a2 = nd_env a \<and> listening k (nd_on_find_dht_value_resp_packet a2) \<and> k \<in> opened
        \<and> await_value_resp (node_id b) i (messages k (nd_on_find_dht_value_resp_packet a2)) = None" for a2
    using hears_value_answer [of a2 b ?q k opened "node_id b" dbg' shuffle' rest'] codec(2) assms(7) that
    unfolding i result [symmetric] by auto
  show ?thesis
    using ask b a messages_listen(1) [of k "nd_on_find_dht_value_resp_packet a"]
    by (intro exI [of _ "framed (node_codec a) (FindDhtValue ?q)"]
        exI [of _ "framed (node_codec a) (FindDhtValueResp ?ans)"]) simp
qed

theorem value_question_is_answered_witness:
  "let q = value_request 0 (sample_peer 9); a = FindDhtValueResp \<lparr>fvr_request_id = 0, fvr_result = NotFound [(sample_id 1, ''local-0'')]\<rparr>;
       c = table_codec [FindDhtValue q, a]
   in \<exists>a1 effs req b1 resp. ask_provider (1, []) (talker c 1 2) (sample_peer 9) (sample_id 2) = Returns (a1, effs, 0)
     \<and> effs = [Wrote 7 req]
     \<and> hears True (\<lambda>ps. ps) (deliver {}) (talker c 2 1) (sample_id 1) (req @ []) = Returns (b1, [Wrote 7 resp])"
proof -
  let ?q = "value_request 0 (sample_peer 9)"
  let ?a = "\<lparr>fvr_request_id = 0, fvr_result = NotFound [(sample_id 1, ''local-0'')]\<rparr>"
  let ?c = "table_codec [FindDhtValue ?q, FindDhtValueResp ?a]"
  let ?one = "talker ?c 1 2" and ?two = "talker ?c 2 1"
  have law: "codec_law ?c" by (rule table_codec_law) simp
  have "peers_with_addrs (nd_connections ?two) = [(sample_id 1, ''local-0'')]"
    by (simp add: peers_with_addrs_def new_connection_def)
  then have a: "snd (answer_find_value ?two ?q) = ?a"
    by (simp add: answer_find_value_def value_request_def dht_get_eq dht_default_def stored_def bt_get_def
        closest_peers_def case_prod_unfold Let_def constants_defs)
  have inv: "node_inv ?one" "node_inv ?two" by (simp_all add: talker_inv)
  from ask_provider_frame [OF inv(1)] obtain a1 effs i where ask:
    "ask_provider (1, []) ?one (sample_peer 9) (sample_id 2) = Returns (a1, effs, i)" by blast
  then have "i = 0"
    by (auto simp: ask_provider_def counter_next_def counter_default_def bind_outcome_Returns_iff Let_def)
  note ask = ask [unfolded this]
  have id: "node_id ?one = sample_id 1" "node_id ?two = sample_id 2" by simp_all
  have fits: "fits (node_codec ?one) (FindDhtValue ?q)"
    "fits (node_codec ?one) (FindDhtValueResp (snd (answer_find_value ?two ?q)))"
    unfolding a by (simp_all add: fits_table)
  from value_question_is_answered [OF inv talker_connects [OF law] talker_connects [OF law] ask [folded id(2)] fits,
      of True "\<lambda>ps. ps" "deliver {}" "[]" "{}" True "\<lambda>ps. ps" "[]", unfolded id] ask
  show ?thesis unfolding Let_def by blast
qed

text \<open>
  C11: a question of a discovery gets its answer, in the same way: the task that fills a bucket of the
  asking node gets connections of the other node that lie in this bucket, all of them if they are at
  most 64, else 64 of them.
\<close>

theorem discovery_question_is_answered:
  assumes "node_inv a" and "node_inv b" and "connects a w b" and "connects b w' a" and "l < 128" and "c < 3"
    and "ask_discovery (k, []) a (generate_in_bucket (node_id a) l c) (bucket_mask l) (node_id b) = Returns (a1, effs, i)"
    and "fits (node_codec a) (DiscoverPeers (discover_request i (generate_in_bucket (node_id a) l c) (bucket_mask l)))"
    and "\<And>ans. prepare_discover_peers_response dbg shuffle (nd_connections b)
        (discover_request i (generate_in_bucket (node_id a) l c) (bucket_mask l)) = Returns ans \<Longrightarrow>
      fits (node_codec a) (DiscoverPeersResp ans)"
    and "\<And>xs. mset (shuffle xs) = mset xs"
  shows "\<exists>req resp. effs = [Wrote w req] \<and> listening k (nd_on_discover_peers_resp_packet a1)
    \<and> (\<exists>b1. hears dbg shuffle send b (node_id a) (req @ rest) = Returns (b1, [Wrote w' resp]))
    \<and> (\<forall>a2. nd_env a2 = nd_env a \<and> listening k (nd_on_discover_peers_resp_packet a2) \<and> k \<in> opened
        \<and> await_discover_resp (node_id b) i (messages k (nd_on_discover_peers_resp_packet a2)) = None \<longrightarrow>
        (\<exists>a3 ps. hears dbg' shuffle' (deliver opened) a2 (node_id b) (resp @ rest') = Returns (a3, [])
          \<and> await_discover_resp (node_id b) i (messages k (nd_on_discover_peers_resp_packet a3)) = Some ps
          \<and> (\<forall>e\<in>set ps. e \<in> set (peers_with_addrs (nd_connections b))
               \<and> bucket_checked (fst e) (node_id a) = Returns (Some (l, c)))
          \<and> length ps = min 64 (length (filter (\<lambda>e. bucket_checked (fst e) (node_id a) = Returns (Some (l, c)))
                (peers_with_addrs (nd_connections b))))))"
proof -
  let ?q = "discover_request i (generate_in_bucket (node_id a) l c) (bucket_mask l)"
  have codec: "node_codec b = node_codec a" "codec_law (node_codec a)"
    using assms(3) by (simp_all add: connects_def)
  have "pool_inv (nd_connections b)" "wf_peer (node_id a)"
    using assms(1,2) by (simp_all add: node_inv_def wf_node_id)
  from honest_discovery_answer [OF this assms(5,6,10)] obtain ans where
    prepare: "prepare_discover_peers_response dbg shuffle (nd_connections b) ?q = Returns ans"
    and i: "dpr_request_id ans = i"
    and ps: "\<forall>e\<in>set (dpr_peers ans). e \<in> set (peers_with_addrs (nd_connections b))
        \<and> bucket_checked (fst e) (node_id a) = Returns (Some (l, c))"
      "length (dpr_peers ans) = min 64 (length (filter (\<lambda>e. bucket_checked (fst e) (node_id a) = Returns (Some (l, c)))
                (peers_with_addrs (nd_connections b))))"
    by blast
  have fits: "fits (node_codec a) (DiscoverPeersResp ans)" by (rule assms(9) [OF prepare])
  have "length (dp_mask ?q) \<le> 32" using assms(5) by (simp add: discover_request_def)
  note b = hears_discovery_question [OF assms(2,4), of ?q, unfolded codec(1), OF assms(8) this prepare fits]
  note ask = ask_discovery_connected [OF assms(1,3,7,8)]
  have a: "\<exists>a3 ps. hears dbg' shuffle' (deliver opened) a2 (node_id b)
            (framed (node_codec a) (DiscoverPeersResp ans) @ rest') = Returns (a3, [])
          \<and> await_discover_resp (node_id b) i (messages k (nd_on_discover_peers_resp_packet a3)) = Some ps
          \<and> ps = dpr_peers ans"
    if "nd_env a2 = nd_env a \<and> listening k (nd_on_discover_peers_resp_packet a2) \<and> k \<in> opened
        \<and> await_discover_resp (node_id b) i (messages k (nd_on_discover_peers_resp_packet a2)) = None" for a2
    using hears_discovery_answer [of a2 ans k opened "node_id b" dbg' shuffle' rest'] codec(2) fits ps(2) that
    unfolding i by auto
  have a: "\<exists>a3 ps. hears dbg' shuffle' (deliver opened) a2 (node_id b)
            (framed (node_codec a) (DiscoverPeersResp ans) @ rest') = Returns (a3, [])
          \<and> await_discover_resp (node_id b) i (messages k (nd_on_discover_peers_resp_packet a3)) = Some ps
          \<and> (\<forall>e\<in>set ps. e \<in> set (peers_with_addrs (nd_connections b))
               \<and> bucket_checked (fst e) (node_id a) = Returns (Some (l, c)))
          \<and> length ps = min 64 (length (filter (\<lambda>e. bucket_checked (fst e) (node_id a) = Returns (Some (l, c)))
                (peers_with_addrs (nd_connections b))))"
    if "nd_env a2 = nd_env a \<and> listening k (nd_on_discover_peers_resp_packet a2) \<and> k \<in> opened
        \<and> await_discover_resp (node_id b) i (messages k (nd_on_discover_peers_resp_packet a2)) = None" for a2
    using a [OF that] ps by blast
  show ?thesis
    using ask b a messages_listen(1) [of k "nd_on_discover_peers_resp_packet a"]
    by (intro exI [of _ "framed (node_codec a) (DiscoverPeers ?q)"]
        exI [of _ "framed (node_codec a) (DiscoverPeersResp ans)"]) simp
qed

theorem discovery_question_is_answered_witness:
  "let q = discover_request 0 (generate_in_bucket (sample_id 1) 0 0) (bucket_mask 0);
       c = table_codec [DiscoverPeers q, DiscoverPeersResp \<lparr>dpr_request_id = 0, dpr_peers = []\<rparr>]
   in \<exists>a1 effs req b1 resp. ask_discovery (1, []) (talker c 1 2) (generate_in_bucket (sample_id 1) 0 0) (bucket_mask 0)
        (sample_id 2) = Returns (a1, effs, 0)
     \<and> effs = [Wrote 7 req]
     \<and> hears True rev (deliver {}) (talker c 2 1) (sample_id 1) (req @ []) = Returns (b1, [Wrote 7 resp])"
proof -
  let ?q = "discover_request 0 (generate_in_bucket (sample_id 1) 0 0) (bucket_mask 0)"
  let ?a = "\<lparr>dpr_request_id = 0, dpr_peers = []\<rparr>"
  let ?c = "table_codec [DiscoverPeers ?q, DiscoverPeersResp ?a]"
  let ?one = "talker ?c 1 2" and ?two = "talker ?c 2 1"
  have law: "codec_law ?c" by (rule table_codec_law) simp
  have inv: "node_inv ?one" "node_inv ?two" by (simp_all add: talker_inv)
  have id: "node_id ?one = sample_id 1" "node_id ?two = sample_id 2" by simp_all
  have wf: "wf_peer (sample_id 1)" by (simp add: sample_id_def)
  have peers: "peers_with_addrs (nd_connections ?two) = [(sample_id 1, ''local-0'')]"
    by (simp add: peers_with_addrs_def new_connection_def)
  have "pool_inv (nd_connections ?two)" using inv(2) by (simp add: node_inv_def)
  from honest_discovery_answer [OF this wf, of 0 0 rev True 0] obtain r where
    r: "prepare_discover_peers_response True rev (nd_connections ?two) ?q = Returns r" "dpr_request_id r = 0"
    "\<forall>e\<in>set (dpr_peers r). e \<in> {(sample_id 1, ''local-0'')} \<and> bucket_checked (fst e) (sample_id 1) = Returns (Some (0, 0))"
    by (auto simp: peers)
  have own: "bucket_checked (sample_id 1) (sample_id 1) = Returns None"
    by (metis bucket_checked_eq [OF wf wf] bucket_None_iff [OF wf wf])
  have "set (dpr_peers r) = {}"
  proof (rule equals0I)
    fix e
    assume "e \<in> set (dpr_peers r)"
    with r(3) have "e = (sample_id 1, ''local-0'')" "bucket_checked (fst e) (sample_id 1) = Returns (Some (0, 0))"
      by blast+
    then show False by (simp add: own)
  qed
  with r(2) have r0: "r = ?a" by simp
  from ask_discovery_total [OF inv(1)] obtain a1 effs i where ask:
    "ask_discovery (1, []) ?one (generate_in_bucket (sample_id 1) 0 0) (bucket_mask 0) (sample_id 2) = Returns (a1, effs, i)"
    by blast
  then have "i = 0"
    by (auto simp: ask_discovery_def counter_next_def counter_default_def bind_outcome_Returns_iff Let_def)
  note ask = ask [unfolded this]
  have fits: "fits (node_codec ?one) (DiscoverPeers ?q)" by (simp add: fits_table)
  have fits': "fits (node_codec ?one) (DiscoverPeersResp ans)"
    if "prepare_discover_peers_response True rev (nd_connections ?two) ?q = Returns ans" for ans
    using that r(1) by (simp add: r0 fits_table)
  have le: "(0 :: nat) < 128" "(0 :: nat) < 3" by simp_all
  from discovery_question_is_answered [of ?one ?two 7 7 0 0 1 a1 effs 0 True rev "deliver {}" "[]" "{}" True "\<lambda>ps. ps" "[]",
      unfolded id, OF inv talker_connects [OF law] talker_connects [OF law] le ask fits fits' mset_rev] ask
  show ?thesis unfolding Let_def by blast
qed

end
