(* ===== verification/Round_Trip.thy ===== *)
theory Round_Trip
  imports Conversation Handshake_Theorems
begin

text \<open>
  The whole question of a lookup to a provider that is not connected (\<open>dht_lookup_on_single_provider\<close>
  in \<open>src/node/dht.rs\<close>), between two honest nodes: connecting, the handshake of both, the question, its
  answer, and the disconnection.
\<close>

section \<open>The node after a handshake\<close>

definition joined ::
  "('pk, 'sk, 'rng, 'c) Node \<Rightarrow> nat \<Rightarrow> nat \<Rightarrow> ('pk, 'sk, 'rng, 'c) Node \<Rightarrow> ('pk, 'sk, 'rng, 'c) Node" where
  "joined a w task b =
     a\<lparr>nd_connections := connected (nd_connections a) (node_id b) (new_connection w task (ne_addr (nd_env b)))\<rparr>"

lemma joined_sel [simp]:
  "nd_env (joined a w task b) = nd_env a" "nd_dht (joined a w task b) = nd_dht a"
  "nd_dht_req_counter (joined a w task b) = nd_dht_req_counter a"
  by (simp_all add: joined_def)

lemma joined_inv:
  assumes "node_inv a" and "wf_peer (node_id b)" and "node_id b \<noteq> node_id a"
  shows "node_inv (joined a w task b)"
  using assms connected_inv [of "nd_connections a" "node_id b"]
  by (simp add: node_inv_def joined_def) (simp add: connected_def)

lemma joined_connects:
  assumes "node_inv a" and "node_codec b = node_codec a" and "codec_law (node_codec a)"
  shows "connects (joined a w task b) w (joined b w' task' a)"
proof -
  have "bt_inv (cp_connections (nd_connections a))"
    using assms(1) pool_invD(1) by (simp add: node_inv_def)
  with assms(2,3) show ?thesis
    by (simp add: connects_def) (simp add: joined_def connected_def bt.get_ins new_connection_def)
qed

text \<open>A node that has just been asked by \<open>a\<close>, and has few connections, suggests \<open>a\<close> itself.\<close>

lemma set_bt_insert_new: "(k, v) \<in> set (bt_insert k v m)"
  by (induction m) auto

lemma asker_is_suggested:
  assumes "node_inv b" and "\<not> contains (nd_connections b) (node_id a)" and "pool_len (nd_connections b) < 32"
  shows "(node_id a, ne_addr (nd_env a)) \<in> set (suggestions (joined b w task a) key)"
proof -
  let ?ps = "peers_with_addrs (nd_connections (joined b w task a))"
  have "bt_inv (cp_connections (nd_connections b))"
    using assms(1) pool_invD(1) by (simp add: node_inv_def)
  with assms(2,3) have "length ?ps \<le> 32"
    by (simp add: peers_with_addrs_def joined_def connected_def pool_len_def bt.length_ins contains_def bt_contains_def)
  then have "set (suggestions (joined b w task a) key) = set ?ps"
    by (simp add: suggestions_def closest_peers_def)
  moreover have "(node_id a, ne_addr (nd_env a)) \<in> set ?ps"
    using set_bt_insert_new by (force simp: peers_with_addrs_def joined_def connected_def new_connection_def)
  ultimately show ?thesis by simp
qed

lemma dial_honest:
  assumes "meets (nd_env a) (sr_draw su) (Some (node_id b)) (nd_connections a) (nd_env b) d"
    and "meets (nd_env b) d ex (nd_connections b) (nd_env a) (sr_draw su)"
    and "connect (sr_ours su) (sr_theirs su) (sr_listeners su) addr = Returns (ls, Some s)"
    and "sr_inbox su = honest_frames (nd_env a) (sr_draw su) (nd_env b) d @ rest"
  shows "dial su a (node_id b, addr) = Returns (joined a (sr_write_half su) (sr_task su) b, ls, Shook (Inr (node_id b)))"
proof -
  from honest_exec [OF assms(1,2)] obtain out where
    "exec (handshake (nd_env a) (sr_draw su) (Some (node_id b)) (sr_write_half su) (sr_task su)) (nd_connections a) (sr_inbox su)
      = (Done (Inr (node_id b)),
         connected (nd_connections a) (node_id b) (new_connection (sr_write_half su) (sr_task su) (ne_addr (nd_env b))), rest, out)"
    unfolding assms(4) by blast
  from dial_cases [OF this, of addr] assms(3) show ?thesis by (simp add: joined_def)
qed

lemma await_value_resp_first:
  "await_value_resp n i pre = None \<Longrightarrow> fvr_request_id p = i \<Longrightarrow>
    await_value_resp n i (pre @ EvFindDhtValueResp n p # post) = Some p"
  by (induction pre) (auto simp: await_value_resp_def is_value_resp_def split: if_splits node_event.splits)

lemma ask_provider_id:
  "ask_provider fresh a key n = Returns (a1, effs, i) \<Longrightarrow> i = fst (counter_next (nd_dht_req_counter a))"
  by (auto simp: ask_provider_def Let_def case_prod_unfold bind_outcome_Returns_iff)

text \<open>The question to a provider that was dialed for it, once the answer has come.\<close>

lemma ask_and_wait_honest:
  assumes "node_inv a" and "connects a w b" and "harmless later"
    and "i = fst (counter_next (nd_dht_req_counter a))" and "fvr_request_id p = i"
    and "fits (node_codec a) (FindDhtValue (value_request i key))" and "await_value_resp (node_id b) i pre = None"
  shows "\<exists>a' effs. ask_and_wait send (k, []) later (pre @ EvFindDhtValueResp (node_id b) p # post) False a key (node_id b) =
      Returns (a', Wrote w (framed (node_codec a) (FindDhtValue (value_request i key))) # effs, Some (Inr (fvr_result p)))
    \<and> node_inv a' \<and> \<not> contains (nd_connections a') (node_id b)"
proof -
  let ?msgs = "pre @ EvFindDhtValueResp (node_id b) p # post"
  from ask_provider_frame [OF assms(1)] obtain a1 effs j where ask:
    "ask_provider (k, []) a key (node_id b) = Returns (a1, effs, j)" and inv: "node_inv a1" by blast
  have j: "j = i" using ask_provider_id [OF ask] assms(4) by simp
  note ask = ask [unfolded j]
  have effs: "effs = [Wrote w (framed (node_codec a) (FindDhtValue (value_request i key)))]"
    by (rule ask_provider_connected(1) [OF assms(1,2) ask assms(6)])
  have inv2: "node_inv (later a1)" using assms(3) inv by (simp add: harmless_def)
  then have "cp_node_ref (nd_connections (later a1))" by (simp add: node_inv_def)
  from disconnecting_total [OF this] obtain a2 effs2 where
    d: "disconnecting send (later a1) (node_id b) mission_accomplished = Returns (a2, effs2)" by blast
  have "\<not> contains (nd_connections a2) (node_id b)"
    unfolding disconnecting_connections [OF d] by (simp add: contains_def bt_contains_def bt_get_remove)
  with disconnecting_inv [OF inv2 d] show ?thesis
    by (simp add: ask_and_wait_def ask effs await_value_resp_first [OF assms(7,5)] provider_answered_def d assms(5))
qed

section \<open>Two nodes that have not met\<close>

text \<open>For the witness: the nodes with the keys 1 and 2, for any table that holds their packets.\<close>

definition stranger :: "Packet codec \<Rightarrow> u8 \<Rightarrow> (u8, u8, unit, channel) Node" where
  "stranger c k = node_new (sample_base c k) (0, [])"

lemma stranger_sel [simp]:
  "nd_env (stranger c k) = sample_base c k" "nd_dht (stranger c k) = dht_default"
  "nd_dht_req_counter (stranger c k) = counter_default" "cp_connections (nd_connections (stranger c k)) = []"
  by (simp_all add: stranger_def node_new_def Let_def pool_new_def set_node_ref_def)

lemma stranger_inv: "node_inv (stranger c k)"
  unfolding stranger_def by (rule node_new_inv) (simp add: sample_base_def)

lemma strangers_meet:
  assumes "set sample_packets \<subseteq> set ps" and "length ps \<le> 256" and "\<not> contains pool (sample_id 1)" "\<not> contains pool (sample_id 2)"
  shows "meets (sample_base (table_codec ps) 1) (sample_draw 1) (Some (sample_id 2)) pool (sample_base (table_codec ps) 2) (sample_draw 2)"
    and "meets (sample_base (table_codec ps) 2) (sample_draw 2) None pool (sample_base (table_codec ps) 1) (sample_draw 1)"
proof -
  have law: "codec_law (table_codec ps)" by (rule table_codec_law) (rule assms(2))
  have mem: "p \<in> set ps" if "p \<in> set sample_packets" for p using that assms(1) by blast
  have plain: "short (raw_bytes (table_codec ps) p)" if "p \<in> set sample_packets" for p
    using mem [OF that] by (simp add: raw_bytes_table short_def)
  have sealed: "short (sealed (sample_base (table_codec ps) k) d pk n)" if "aes_packet d n \<in> set sample_packets" for k d pk n
    using mem [OF that] by (cases "dr_oaep d") (simp add: sealed_def short_def raw_bytes_table sample_base_def)
  note packets = sample_packets_mem [THEN plain] sample_packets_mem(4) [THEN sealed [where k = 1 and pk = 2]]
    sample_packets_mem(5) [THEN sealed [where k = 2 and pk = 1]]
  show "meets (sample_base (table_codec ps) 1) (sample_draw 1) (Some (sample_id 2)) pool (sample_base (table_codec ps) 2) (sample_draw 2)"
    "meets (sample_base (table_codec ps) 2) (sample_draw 2) None pool (sample_base (table_codec ps) 1) (sample_draw 1)"
    using packets assms(3,4) law
    by (simp_all add: meets_def sample_env_def sample_base_def rsa_packet_def ehlo_packet_def sample_id_def del: sample_draw_sel(1))
      simp_all
qed

section \<open>Properties\<close>

text \<open>
  C12: an honest provider that is not connected answers a lookup. The node dials it; both ends of the
  handshake succeed on each other's frames; the question is the next frame of the node, the
  provider answers it with one frame, which the reading task of the node takes for the answer; and
  when the listener of the lookup gets it, among whatever other messages, the lookup has what the
  provider knows after the handshake, and the connection is closed again. A provider with fewer than
  32 other connections that has no values then suggests the asking node itself among its peers.
\<close>

theorem unconnected_provider_answers:
  assumes "node_inv a" and "node_inv b" and "harmless later"
    and "meets (nd_env a) (sr_draw su) (Some (node_id b)) (nd_connections a) (nd_env b) d"
    and "meets (nd_env b) d None (nd_connections b) (nd_env a) (sr_draw su)"
    and "connect (sr_ours su) (sr_theirs su) (sr_listeners su) addr = Returns (ls, Some s)"
    and "sr_inbox su = honest_frames (nd_env a) (sr_draw su) (nd_env b) d @ rest"
    and "b1 = joined b w' task' a" and "i = fst (counter_next (nd_dht_req_counter a))"
    and "ans = snd (answer_find_value b1 (value_request i key))"
    and "fits (node_codec a) (FindDhtValue (value_request i key))" and "fits (node_codec a) (FindDhtValueResp ans)"
    and "await_value_resp (node_id b) i pre = None"
  shows "\<exists>req resp out b2 a' effs.
      exec (handshake (nd_env b) d None w' task') (nd_connections b) (honest_frames (nd_env b) d (nd_env a) (sr_draw su) @ req)
        = (Done (Inr (node_id a)), nd_connections b1, req, out)
    \<and> hears dbg shuffle send' b1 (node_id a) req = Returns (b2, [Wrote w' resp])
    \<and> reader_round (node_codec a) (resp @ rest') = Handle (FindDhtValueResp ans) rest'
    \<and> dht_lookup_on_single_provider send (k, []) later (pre @ EvFindDhtValueResp (node_id b) ans # post) su a key
          (node_id b, addr) = Returns (a', Wrote (sr_write_half su) req # effs, Some (Inr (fvr_result ans)))
    \<and> fvr_result ans = (if stored (nd_dht b) key = [] then NotFound (suggestions b1 key)
                        else Found (take 64 (stored (nd_dht b) key)))
    \<and> (pool_len (nd_connections b) < 32 \<longrightarrow> (node_id a, ne_addr (nd_env a)) \<in> set (suggestions b1 key))
    \<and> node_inv a' \<and> \<not> contains (nd_connections a') (node_id b)"
proof -
  let ?a1 = "joined a (sr_write_half su) (sr_task su) b" and ?q = "value_request i key"
  let ?req = "framed (node_codec a) (FindDhtValue ?q)" and ?resp = "framed (node_codec a) (FindDhtValueResp ans)"
  have codec: "node_codec b = node_codec a" "codec_law (node_codec a)" and other: "node_id a \<noteq> node_id b"
    and new: "\<not> contains (nd_connections a) (node_id b)"
    using assms(4) unfolding meets_def by blast+
  have inv: "node_inv ?a1" "node_inv b1"
    using joined_inv [OF assms(1) wf_node_id [OF assms(2)] other [symmetric]]
      joined_inv [OF assms(2) wf_node_id [OF assms(1)] other] by (simp_all add: assms(8))
  have ab: "connects ?a1 (sr_write_half su) b1" "connects b1 w' ?a1"
    unfolding assms(8) using joined_connects assms(1,2) codec by metis+
  have ids: "node_id b1 = node_id b" "node_codec b1 = node_codec a" "nd_dht b1 = nd_dht b"
    by (simp_all add: assms(8) codec(1))
  have pool: "nd_connections b1 = connected (nd_connections b) (node_id a) (new_connection w' task' (ne_addr (nd_env a)))"
    by (simp add: assms(8) joined_def)
  from honest_exec [OF assms(5,4), where w = w' and task = task' and rest = ?req] obtain out where hb:
    "exec (handshake (nd_env b) d None w' task') (nd_connections b) (honest_frames (nd_env b) d (nd_env a) (sr_draw su) @ ?req)
      = (Done (Inr (node_id a)), nd_connections b1, ?req, out)"
    unfolding pool by blast
  have "fits (node_codec b1) (FindDhtValue ?q)" "fits (node_codec b1) (FindDhtValueResp (snd (answer_find_value b1 ?q)))"
    using assms(10-12) by (simp_all add: ids)
  from hears_value_question [OF inv(2) ab(2) this, of dbg shuffle send' "[]"] obtain b2 where
    hears: "hears dbg shuffle send' b1 (node_id a) ?req = Returns (b2, [Wrote w' ?resp])"
    by (auto simp: ids assms(10))
  have rr: "reader_round (node_codec a) (?resp @ rest') = Handle (FindDhtValueResp ans) rest'"
    by (rule reader_round_framed [OF codec(2) assms(12)])
  have i: "i = fst (counter_next (nd_dht_req_counter ?a1))" "fvr_request_id ans = i"
    by (simp_all add: assms(9,10) request_id_of_answer value_request_def)
  have fit: "fits (node_codec ?a1) (FindDhtValue ?q)" "await_value_resp (node_id b1) i pre = None"
    using assms(11,13) by (simp_all add: ids)
  from ask_and_wait_honest [OF inv(1) ab(1) assms(3) i fit, of send k post] obtain a' effs where
    "ask_and_wait send (k, []) later (pre @ EvFindDhtValueResp (node_id b) ans # post) False ?a1 key (node_id b) =
      Returns (a', Wrote (sr_write_half su) ?req # effs, Some (Inr (fvr_result ans)))"
    and a': "node_inv a'" "\<not> contains (nd_connections a') (node_id b)"
    by (auto simp: ids)
  with new dial_honest [OF assms(4-7)] have
    "dht_lookup_on_single_provider send (k, []) later (pre @ EvFindDhtValueResp (node_id b) ans # post) su a key
          (node_id b, addr) = Returns (a', Wrote (sr_write_half su) ?req # effs, Some (Inr (fvr_result ans)))"
    by (simp add: dht_lookup_on_single_provider_def)
  moreover have "fvr_result ans = (if stored (nd_dht b) key = [] then NotFound (suggestions b1 key)
                        else Found (take 64 (stored (nd_dht b) key)))"
    by (simp add: assms(10) find_value_result value_request_def suggestions_def constants_defs ids)
  moreover have "pool_len (nd_connections b) < 32 \<longrightarrow> (node_id a, ne_addr (nd_env a)) \<in> set (suggestions b1 key)"
    using asker_is_suggested [OF assms(2)] assms(5) unfolding assms(8) meets_def by blast
  ultimately show ?thesis using hb hears rr a' by blast
qed

theorem unconnected_provider_answers_witness:
  "let q = value_request 0 (sample_peer 9); r = NotFound [(sample_id 1, ''local-1'')];
       c = table_codec (sample_packets @ [FindDhtValue q, FindDhtValueResp \<lparr>fvr_request_id = 0, fvr_result = r\<rparr>]);
       su = \<lparr>sr_listeners = [None, None, Some []], sr_ours = (), sr_theirs = (), sr_draw = sample_draw 1, sr_write_half = 7,
             sr_task = 8, sr_inbox = honest_frames (sample_base c 1) (sample_draw 1) (sample_base c 2) (sample_draw 2) @ []\<rparr>
   in \<exists>a' effs. dht_lookup_on_single_provider (deliver {}) (1, []) (\<lambda>node. node)
        ([] @ EvFindDhtValueResp (sample_id 2) \<lparr>fvr_request_id = 0, fvr_result = r\<rparr> # []) su (stranger c 1) (sample_peer 9)
        (sample_id 2, ''local-2'') = Returns (a', effs, Some (Inr r))
      \<and> \<not> contains (nd_connections a') (sample_id 2)"
proof -
  let ?q = "value_request 0 (sample_peer 9)" and ?r = "NotFound [(sample_id 1, ''local-1'')]"
  let ?ps = "sample_packets @ [FindDhtValue ?q, FindDhtValueResp \<lparr>fvr_request_id = 0, fvr_result = ?r\<rparr>]"
  let ?c = "table_codec ?ps"
  let ?su = "\<lparr>sr_listeners = [None, None, Some []], sr_ours = (), sr_theirs = (), sr_draw = sample_draw 1, sr_write_half = 7,
      sr_task = 8, sr_inbox = honest_frames (sample_base ?c 1) (sample_draw 1) (sample_base ?c 2) (sample_draw 2) @ []\<rparr>"
  let ?a = "stranger ?c 1" and ?b = "stranger ?c 2"
  let ?b1 = "joined ?b 5 6 ?a"
  have "set sample_packets \<subseteq> set ?ps" "length ?ps \<le> 256" by (auto simp: sample_packets_def Let_def)
  note meet = strangers_meet [OF this]
  have new: "\<not> contains (nd_connections (stranger c k)) i" for c k i by (simp add: contains_def bt_contains_def bt_get_def)
  have m: "meets (nd_env ?a) (sr_draw ?su) (Some (node_id ?b)) (nd_connections ?a) (nd_env ?b) (sample_draw 2)"
    "meets (nd_env ?b) (sample_draw 2) None (nd_connections ?b) (nd_env ?a) (sr_draw ?su)"
    using meet(1) [OF new new] meet(2) [OF new new] by simp_all
  have local: "local_addr 1 = ''local-1''" "local_addr 2 = ''local-2''"
    by code_simp+
  have "connect () () [None, None, Some []] ''local-2'' = Returns ([None, None, Some [()]], Some ())"
    unfolding local(2) [symmetric] by (simp add: connect_local usize_max_def)
  then have c: "connect (sr_ours ?su) (sr_theirs ?su) (sr_listeners ?su) ''local-2'' = Returns ([None, None, Some [()]], Some ())"
    by simp
  have h: "harmless (\<lambda>node. node)" by (simp add: harmless_def)
  have "peers_with_addrs (nd_connections ?b1) = [(sample_id 1, ''local-1'')]"
    using local(1) by (simp add: joined_def peers_with_addrs_def connected_def new_connection_def sample_base_def sample_id_def)
  then have ans: "snd (answer_find_value ?b1 ?q) = \<lparr>fvr_request_id = 0, fvr_result = ?r\<rparr>"
    by (simp add: answer_find_value_def value_request_def dht_get_eq dht_default_def stored_def bt_get_def
        closest_peers_def case_prod_unfold Let_def constants_defs)
  have i: "0 = fst (counter_next (nd_dht_req_counter ?a))" by (simp add: counter_next_def counter_default_def)
  have f: "fits (node_codec ?a) (FindDhtValue ?q)" "fits (node_codec ?a) (FindDhtValueResp \<lparr>fvr_request_id = 0, fvr_result = ?r\<rparr>)"
    by (simp_all add: fits_table)
  have p: "await_value_resp (node_id ?b) 0 [] = None" by (simp add: await_value_resp_def)
  from unconnected_provider_answers [of ?a ?b "\<lambda>node. node" ?su "sample_draw 2" "''local-2''" "[None, None, Some [()]]" "()" "[]"
      ?b1 5 6 0 "\<lparr>fvr_request_id = 0, fvr_result = ?r\<rparr>" "sample_peer 9" "[]" True "\<lambda>ps. ps" "deliver {}" "[]" "deliver {}" 1 "[]",
      OF stranger_inv stranger_inv h m c _ refl i ans [symmetric] f p]
  show ?thesis unfolding Let_def by auto
qed

end
