(* ===== verification/Answer_Delivery.thy ===== *)
theory Answer_Delivery
  imports Running_Node_Theorems Conversation
begin

text \<open>
  The answers that a running node gets (\<open>src/node/node.rs\<close>) and the tasks that wait for them
  (\<open>src/node/dht.rs\<close>, \<open>src/node/discovery.rs\<close>): a task that listens before it asks gets every answer
  that the node reads, whatever the other tasks do. (A ping listens after it has sent, and can lose its pong.)
\<close>

section \<open>Listeners for answers\<close>

datatype question = ForValue | ForPeers

fun answer_listeners :: "question \<Rightarrow> ('pk, 'sk, 'rng, channel) Node \<Rightarrow> channel EventListeners" where
  "answer_listeners ForValue node = nd_on_find_dht_value_resp_packet node"
| "answer_listeners ForPeers node = nd_on_discover_peers_resp_packet node"

text \<open>The event of an answer that is not too long.\<close>

fun answer_event :: "question \<Rightarrow> PeerID \<Rightarrow> Packet \<Rightarrow> node_event option" where
  "answer_event ForValue n (FindDhtValueResp p) =
     (if too_many_results (fvr_result p) then None else Some (EvFindDhtValueResp n p))"
| "answer_event ForPeers n (DiscoverPeersResp p) =
     (if length (dpr_peers p) > unat MAX_DISCOVERY_PEERS_RETURNED then None else Some (EvDiscoverPeersResp n p))"
| "answer_event q n p = None"

text \<open>The answer that an action reads, if it reads one, and all those of a run.\<close>

fun answer_read :: "question \<Rightarrow> 'rng action \<Rightarrow> ('pk, 'sk, 'rng) running \<Rightarrow> node_event option" where
  "answer_read q (Arrives shuffle n bs) s =
     (if contains (nd_connections (rn_node s)) n \<and> n \<notin> rn_dead s then
        (case reader_round (ne_codec (nd_env (rn_node s))) bs of
           Handle p rest \<Rightarrow> answer_event q n p
         | _ \<Rightarrow> None)
      else None)"
| "answer_read q a s = None"

fun answers_read ::
  "question \<Rightarrow> bool \<Rightarrow> (Command \<Rightarrow> string) \<Rightarrow> 'rng action list \<Rightarrow> ('pk, 'sk, 'rng) running \<Rightarrow> node_event list" where
  "answers_read q dbg debug [] s = []"
| "answers_read q dbg debug (a # as) s =
     (case answer_read q a s of None \<Rightarrow> [] | Some e \<Rightarrow> [e]) @ answers_read q dbg debug as (act dbg debug a s)"

fun asks :: "question \<Rightarrow> 'rng action \<Rightarrow> bool" where
  "asks ForValue (AskValue key n) \<longleftrightarrow> True"
| "asks ForPeers (AskDiscovery target msk n) \<longleftrightarrow> True"
| "asks q a \<longleftrightarrow> False"

definition told :: "nat set \<Rightarrow> node_event option \<Rightarrow> channel EventListeners \<Rightarrow> channel EventListeners" where
  "told opened e l = (case e of None \<Rightarrow> l | Some e \<Rightarrow> \<lparr>listeners = broadcast (deliver opened) e (listeners l)\<rparr>)"

lemma told_None [simp]: "told opened None l = l"
  by (simp add: told_def)

text \<open>The operations of the node leave these listeners alone, except reading an answer and asking.\<close>

lemma connections_listeners [simp]:
  "answer_listeners k (node\<lparr>nd_connections := pool\<rparr>) = answer_listeners k node"
  by (cases k) simp_all

lemma disconnecting_listeners:
  "disconnecting send node n q = Returns (node', effs) \<Longrightarrow> answer_listeners k node' = answer_listeners k node"
  by (cases k) (auto simp: disconnecting_def bind_outcome_Returns_iff handled_def simp del: split_paired_Ex)

lemma on_packet_listeners:
  assumes "on_packet dbg shuffle (deliver opened) node n p = Returns (node', effs)"
  shows "answer_listeners k node' = told opened (answer_event k n p) (answer_listeners k node)"
proof (cases p)
  case (Quit q)
  with assms obtain node1 ls where d: "disconnecting (deliver opened) node n quit_received = Returns (node1, effs)"
    and node': "node' = node1\<lparr>nd_on_quit_packet := ls\<rparr>"
    by (auto simp: bind_outcome_Returns_iff handled_def)
  from disconnecting_listeners [OF d, of k] show ?thesis by (cases k) (simp_all add: Quit node')
next
  case (DiscoverPeersResp q)
  with assms show ?thesis
    by (cases k) (auto simp: told_def event_eq handled_def split: if_splits)
next
  case (FindDhtValueResp q)
  with assms show ?thesis
    by (cases k) (auto simp: told_def event_eq handled_def split: if_splits)
next
  case (DiscoverPeers q)
  with assms show ?thesis
    by (cases k) (auto simp: bind_outcome_Returns_iff handled_def sending_def event_eq split: if_splits)
next
  case (FindDhtValue q)
  with assms show ?thesis
    by (cases k) (auto simp: bind_outcome_Returns_iff handled_def sending_def event_eq case_prod_unfold Let_def)
qed (use assms in \<open>cases k; auto simp: bind_outcome_Returns_iff handled_def sending_def event_eq split: if_splits\<close>)+

lemma ping_send_listeners:
  "ping_send node n = Returns (node', effs, i) \<Longrightarrow> answer_listeners k node' = answer_listeners k node"
  by (cases k) (auto simp: ping_send_def sending_def handled_def Let_def case_prod_unfold bind_outcome_Returns_iff)

lemma ping_listen_listeners [simp]: "answer_listeners k (ping_listen fresh node) = answer_listeners k node"
  by (cases k) (simp_all add: ping_listen_def)

lemma ping_finish_listeners:
  "ping_finish send node n r = Returns (node', effs) \<Longrightarrow> answer_listeners k node' = answer_listeners k node"
  using disconnecting_listeners
  by (cases r) (auto simp: ping_finish_def bind_outcome_Returns_iff handled_def)

lemma on_command_listeners:
  assumes "on_command debug fresh node c = Returns (node', acts)"
  shows "answer_listeners k node' = answer_listeners k node"
proof (cases c)
  case (PingCommand n)
  with assms ping_send_listeners show ?thesis by (auto simp: bind_outcome_Returns_iff)
next
  case (SetLogLevel level)
  with assms show ?thesis by (cases k) auto
qed (use assms in \<open>auto simp: bind_outcome_Returns_iff\<close>)

lemma ask_listeners:
  "ask_provider fresh node key n = Returns (node', effs, i) \<Longrightarrow> answer_listeners k node' =
    (if k = ForValue then listen fresh (answer_listeners k node) else answer_listeners k node)"
  "ask_discovery fresh node t msk n = Returns (node', effs, i) \<Longrightarrow> answer_listeners k node' =
    (if k = ForPeers then listen fresh (answer_listeners k node) else answer_listeners k node)"
  by (cases k; auto simp: ask_provider_def ask_discovery_def sending_def handled_def Let_def case_prod_unfold
      bind_outcome_Returns_iff)+

lemma arrives_listeners:
  assumes "arrives dbg shuffle n bs s = Returns t"
  shows "answer_listeners k (rn_node t) = told (rn_open s) (answer_read k (Arrives shuffle n bs) s) (answer_listeners k (rn_node s))"
  using assms
  by (auto simp: arrives_eq bind_outcome_Returns_iff on_packet_listeners split: if_splits reader_action.splits)

lemma ping_step_listeners:
  "ping_step i nanos s = Returns t \<Longrightarrow> answer_listeners k (rn_node t) = answer_listeners k (rn_node s)"
  using ping_send_listeners ping_finish_listeners
  by (auto simp: ping_step_def bind_outcome_Returns_iff Let_def split: if_splits prod.splits ping_phase.splits)

lemma task_becomes_node: "task_becomes i p inbox s = Returns t \<Longrightarrow> rn_node t = rn_node s"
  by (auto simp: task_becomes_def split: proc.splits)

lemma task_listeners:
  "task_step i s = Returns t \<Longrightarrow> answer_listeners k (rn_node t) = answer_listeners k (rn_node s)"
  "task_error i e s = Returns t \<Longrightarrow> answer_listeners k (rn_node t) = answer_listeners k (rn_node s)"
  by (auto simp: task_step_def task_error_def split: if_splits prod.splits option.splits proc.splits dest!: task_becomes_node)

section \<open>What an action does to the listeners\<close>

lemma perform_listeners:
  assumes "perform dbg debug a s = Returns t"
  shows "answer_listeners k (rn_node t) =
    (if asks k a then listen (rn_channels s, []) (answer_listeners k (rn_node s))
     else told (rn_open s) (answer_read k a s) (answer_listeners k (rn_node s)))"
proof (cases a)
  case (Arrives shuffle n bs)
  with assms arrives_listeners [of dbg shuffle n bs s t k] show ?thesis by (cases k) simp_all
next
  case (AskDiscovery target msk n)
  with assms obtain node effs i where "ask_discovery (rn_channels s, []) (rn_node s) target msk n = Returns (node, effs, i)" and "rn_node t = node"
    by (auto simp: ask_on_new_channel_def bind_outcome_Returns_iff)
  with ask_listeners(2) [OF this(1), of k] show ?thesis by (cases k) (simp_all add: AskDiscovery del: answer_listeners.simps)
next
  case (AskValue key n)
  with assms obtain node effs i where "ask_provider (rn_channels s, []) (rn_node s) key n = Returns (node, effs, i)" and "rn_node t = node"
    by (auto simp: ask_on_new_channel_def bind_outcome_Returns_iff)
  with ask_listeners(1) [OF this(1), of k] show ?thesis by (cases k) (simp_all add: AskValue del: answer_listeners.simps)
next
  case (UserCommand c)
  with assms on_command_listeners show ?thesis
    by (cases k) (auto simp: user_command_def bind_outcome_Returns_iff simp del: answer_listeners.simps)
next
  case (PingStep i nanos)
  with assms ping_step_listeners show ?thesis by (cases k) (simp_all del: answer_listeners.simps)
next
  case (TaskStep i)
  with assms task_listeners(1) show ?thesis by (cases k) (simp_all del: answer_listeners.simps)
next
  case (TaskError i e)
  with assms task_listeners(2) show ?thesis by (cases k) (simp_all del: answer_listeners.simps)
next
  case (LeaveProvider n)
  with assms disconnecting_listeners show ?thesis
    by (cases k) (auto simp: leave_provider_def bind_outcome_Returns_iff simp del: answer_listeners.simps)
next
  case (Dial ls d n addr w task)
  with assms show ?thesis
    by (cases k) (auto simp: dialing_def bind_outcome_Returns_iff split: option.splits)
next
  case (StartDiscovery i)
  with assms show ?thesis
    by (cases k) (auto simp: start_discovery_def bind_outcome_Returns_iff split: if_splits prod.splits)
next
  case RefreshRound
  with assms show ?thesis by (cases k) (auto simp: refresh_round_def bind_outcome_Returns_iff)
next
  case RefreshOnDisconnect
  with assms show ?thesis
    by (cases k) (auto simp: refresh_on_disconnect_def refresh_round_def bind_outcome_Returns_iff split: if_splits)
next
  case (ReadFails n)
  with assms show ?thesis by (cases k) (auto simp: read_fails_def split: if_splits)
next
  case (Receive i bs)
  with assms show ?thesis by (cases k) (auto simp: receive_def split: prod.splits)
qed (use assms in \<open>cases k; auto simp: ping_round_def incoming_def drop_receiver_def\<close>)+

text \<open>A panic happens only where no answer is read and no question is asked.\<close>

lemma handshake_no_answer: "handshake_packet p \<Longrightarrow> answer_event k n p = None"
  by (cases k; cases p) simp_all

lemma panic_reads_nothing:
  assumes "running_inv env s" and "sound_env env" and "perform dbg debug a s = Panics"
  shows "answer_read k a s = None \<and> \<not> asks k a"
proof -
  from perform_panics [OF assms(1,2), of dbg debug a] assms(3) have "dies dbg a s" by simp
  then show ?thesis
    by (cases k; cases a) (auto simp: reader_round_def running_invD [OF assms(1)] handshake_no_answer
        split: frame_result.split sum.split)
qed

lemma act_listeners:
  assumes "running_inv env s" and "sound_env env"
  shows "answer_listeners k (rn_node (act dbg debug a s)) =
    (if asks k a then listen (rn_channels s, []) (answer_listeners k (rn_node s))
     else told (rn_open s) (answer_read k a s) (answer_listeners k (rn_node s)))"
proof (cases "perform dbg debug a s")
  case Panics
  have "rn_node (perish a s) = rn_node s" by (cases a) (simp_all add: perish_def)
  with Panics panic_reads_nothing [OF assms Panics, of k] show ?thesis by (simp add: act_def)
next
  case (Returns t)
  with perform_listeners [OF Returns, of k] show ?thesis by (simp add: act_def)
qed

section \<open>Channels\<close>

text \<open>The channels that pings wait on.\<close>

definition awaited :: "('pk, 'sk, 'rng) running \<Rightarrow> nat set" where
  "awaited s = {k. \<exists>p\<in>set (rn_pings s). awaits k (snd p)}"

text \<open>
  No channel is made twice; only the channel that a task drops, or a ping waits on, is closed.
\<close>

definition channels_step :: "nat set \<Rightarrow> ('pk, 'sk, 'rng) running \<Rightarrow> ('pk, 'sk, 'rng) running \<Rightarrow> bool" where
  "channels_step dropped s t \<longleftrightarrow>
     (rn_channels t = rn_channels s \<and> awaited t \<subseteq> awaited s
      \<or> rn_channels t = Suc (rn_channels s) \<and> awaited t \<subseteq> insert (rn_channels s) (awaited s))
   \<and> rn_open s - awaited s - dropped \<subseteq> rn_open t"

fun dropped_by :: "'rng action \<Rightarrow> nat set" where
  "dropped_by (DropReceiver k) = {k}"
| "dropped_by _ = {}"

lemma channels_step_same:
  "rn_channels t = rn_channels s \<Longrightarrow> rn_pings t = rn_pings s \<Longrightarrow> rn_open t = rn_open s \<Longrightarrow> channels_step D s t"
  by (auto simp: channels_step_def awaited_def)

lemma channels_step_new:
  "rn_channels t = Suc (rn_channels s) \<Longrightarrow> rn_pings t = rn_pings s \<Longrightarrow> rn_open t = insert (rn_channels s) (rn_open s) \<Longrightarrow>
    channels_step D s t"
  by (auto simp: channels_step_def awaited_def)

lemma awaited_update:
  "(x, ph) \<in> set ps \<Longrightarrow> {k. \<exists>p\<in>set (ps[i := (n, ph')]). awaits k (snd p)} \<subseteq> {k. \<exists>p\<in>set ps. awaits k (snd p)} \<union> {k. awaits k ph'}"
  using set_update_subset_insert [of ps i "(n, ph')"] by fastforce

lemma ping_step_channels:
  assumes "ping_step i nanos s = Returns t"
  shows "channels_step D s t"
proof (cases "i < length (rn_pings s)")
  case i: True
  obtain n ph where p: "rn_pings s ! i = (n, ph)" by (cases "rn_pings s ! i")
  with i have mem: "(n, ph) \<in> set (rn_pings s)" by (metis nth_mem)
  note update = awaited_update [OF mem, of i n]
  show ?thesis
  proof (cases ph)
    case Starting
    with assms p i obtain node j where "t = s\<lparr>rn_node := node, rn_pings := (rn_pings s)[i := (n, Sent j)], rn_drawn := rn_drawn s + 1\<rparr>"
      by (auto simp: ping_step_def bind_outcome_Returns_iff)
    with update [of "Sent j"] show ?thesis by (auto simp: channels_step_def awaited_def)
  next
    case (Sent j)
    with assms p i obtain node where "t = (new_channel s)\<lparr>rn_node := node, rn_pings := (rn_pings s)[i := (n, Waiting j (rn_channels s))]\<rparr>"
      by (auto simp: ping_step_def)
    with update [of "Waiting j (rn_channels s)"] show ?thesis by (auto simp: channels_step_def awaited_def new_channel_def)
  next
    case (Waiting j k)
    with assms p i obtain node where "t = s\<lparr>rn_node := node, rn_open := rn_open s - {k}, rn_pings := (rn_pings s)[i := (n, Over)]\<rparr>"
      by (auto simp: ping_step_def Let_def bind_outcome_Returns_iff)
    moreover have "k \<in> awaited s" using mem Waiting by (force simp: awaited_def)
    ultimately show ?thesis using update [of Over] by (auto simp: channels_step_def awaited_def)
  next
    case Over
    with assms p i show ?thesis by (auto simp: ping_step_def intro: channels_step_same)
  qed
qed (use assms in \<open>auto simp: ping_step_def intro: channels_step_same\<close>)

lemma perform_channels:
  assumes "perform dbg debug a s = Returns t"
  shows "channels_step (dropped_by a) s t \<and> (asks q a \<longrightarrow> rn_channels t = Suc (rn_channels s) \<and> rn_channels s \<in> rn_open t \<and> awaited t = awaited s)"
proof (cases a)
  case (PingStep i nanos)
  with assms ping_step_channels show ?thesis by (cases q) simp_all
next
  case PingRound
  have "awaited (ping_round s) = awaited s"
    by (simp add: awaited_def ping_round_def bex_Un)
  with PingRound assms show ?thesis by (cases q) (auto simp: channels_step_def, simp_all add: ping_round_def)
next
  case (DropReceiver k)
  have "channels_step {k} s (drop_receiver k s)"
    by (cases "k = 0 \<or> list_ex (\<lambda>(n, phase). awaits k phase) (rn_pings s)")
      (auto simp: drop_receiver_def channels_step_def awaited_def)
  with DropReceiver assms show ?thesis by (cases q) simp_all
next
  case (Arrives shuffle n bs)
  with assms show ?thesis
    by (cases q) (auto simp: arrives_def bind_outcome_Returns_iff intro: channels_step_same split: if_splits)
next
  case (AskDiscovery target msk n)
  with assms show ?thesis
    by (auto simp: ask_on_new_channel_def bind_outcome_Returns_iff new_channel_def awaited_def intro: channels_step_new)
next
  case (AskValue key n)
  with assms show ?thesis
    by (auto simp: ask_on_new_channel_def bind_outcome_Returns_iff new_channel_def awaited_def intro: channels_step_new)
next
  case (UserCommand c)
  with assms show ?thesis
    by (cases q) (auto simp: user_command_def bind_outcome_Returns_iff new_channel_def intro: channels_step_new)
next
  case (TaskStep i)
  with assms show ?thesis
    by (cases q) (auto simp: task_step_def task_becomes_def intro: channels_step_same split: if_splits prod.splits option.splits proc.splits)
next
  case (TaskError i e)
  with assms show ?thesis
    by (cases q) (auto simp: task_error_def task_becomes_def intro: channels_step_same split: if_splits prod.splits proc.splits)
next
  case (LeaveProvider n)
  with assms show ?thesis
    by (cases q) (auto simp: leave_provider_def bind_outcome_Returns_iff intro: channels_step_same)
next
  case (Dial ls d n addr w task)
  with assms show ?thesis
    by (cases q) (auto simp: dialing_def bind_outcome_Returns_iff intro: channels_step_same split: option.splits)
next
  case (StartDiscovery i)
  with assms show ?thesis
    by (cases q) (auto simp: start_discovery_def bind_outcome_Returns_iff intro: channels_step_same split: if_splits prod.splits)
next
  case RefreshRound
  with assms show ?thesis by (cases q) (auto simp: refresh_round_def bind_outcome_Returns_iff intro: channels_step_same)
next
  case RefreshOnDisconnect
  with assms show ?thesis
    by (cases q) (auto simp: refresh_on_disconnect_def refresh_round_def bind_outcome_Returns_iff intro: channels_step_same split: if_splits)
next
  case (ReadFails n)
  with assms show ?thesis by (cases q) (auto simp: read_fails_def intro: channels_step_same split: if_splits)
next
  case (Receive i bs)
  have "channels_step {} s (receive i bs s)"
    by (rule channels_step_same) (simp_all add: receive_def split: prod.split)
  with Receive assms show ?thesis by (cases q) simp_all
next
  case (Incoming d w task limit)
  with assms show ?thesis by (cases q) (auto simp: incoming_def intro: channels_step_same)
qed

lemma settle_channels [simp]:
  "channels_step D s (settle t) = channels_step D s t" "rn_channels (settle t) = rn_channels t"
  "rn_open (settle t) = rn_open t" "awaited (settle t) = awaited t"
  by (simp_all add: channels_step_def awaited_def settle_def)

lemma act_channels:
  assumes "running_inv env s" and "sound_env env"
  shows "channels_step (dropped_by a) s (act dbg debug a s)
    \<and> (asks q a \<longrightarrow> rn_channels (act dbg debug a s) = Suc (rn_channels s) \<and> rn_channels s \<in> rn_open (act dbg debug a s)
        \<and> awaited (act dbg debug a s) = awaited s)"
proof (cases "perform dbg debug a s")
  case Panics
  have "channels_step (dropped_by a) s (perish a s)"
    by (rule channels_step_same) (cases a; simp add: perish_def)+
  with Panics panic_reads_nothing [OF assms Panics, of q] show ?thesis by (simp add: act_def)
next
  case (Returns t)
  with perform_channels [OF Returns, of q] show ?thesis by (simp add: act_def)
qed

text \<open>Every listener for answers and every channel of a ping was made before.\<close>

definition channels_inv :: "('pk, 'sk, 'rng) running \<Rightarrow> bool" where
  "channels_inv s \<longleftrightarrow>
     (\<forall>q. fst ` set (listeners (answer_listeners q (rn_node s))) \<subseteq> {..<rn_channels s}) \<and> awaited s \<subseteq> {..<rn_channels s}"

lemma set_broadcast: "fst ` set (broadcast (deliver opened) e ls) = fst ` set ls \<inter> opened"
  by (induction ls) (auto simp: deliver_def split: if_splits)

lemma told_ids: "fst ` set (listeners (told opened e l)) \<subseteq> fst ` set (listeners l)"
  by (cases e) (auto simp: told_def set_broadcast)

lemma running_new_channels: "channels_inv (running_new env)"
proof -
  have "listeners (answer_listeners q (node_new env c)) = []" for q and c :: channel
    by (cases q) (simp_all add: node_new_def Let_def listeners_default_def)
  then show ?thesis by (simp add: channels_inv_def running_new_def awaited_def)
qed

lemma act_channels_inv:
  assumes "running_inv env s" and "sound_env env" and "channels_inv s"
  shows "channels_inv (act dbg debug a s)"
proof -
  let ?t = "act dbg debug a s"
  note step = act_channels [OF assms(1,2), of a dbg debug]
  note step1 = step [THEN conjunct1]
  have le: "rn_channels s \<le> rn_channels ?t" using step1 by (auto simp: channels_step_def)
  have "fst ` set (listeners (answer_listeners q (rn_node ?t))) \<subseteq> {..<rn_channels ?t}" for q
  proof -
    have old: "fst ` set (listeners (answer_listeners q (rn_node s))) \<subseteq> {..<rn_channels s}"
      using assms(3) by (simp add: channels_inv_def)
    show ?thesis
    proof (cases "asks q a")
      case True
      with step [of q] old show ?thesis
        by (auto simp: act_listeners [OF assms(1,2)] listen_def dest: less_SucI)
    next
      case False
      with told_ids [of "rn_open s" "answer_read q a s" "answer_listeners q (rn_node s)"] old le show ?thesis
        by (force simp: act_listeners [OF assms(1,2)])
    qed
  qed
  moreover have "awaited ?t \<subseteq> {..<rn_channels ?t}"
    using step1 assms(3) by (auto simp: channels_step_def channels_inv_def subset_iff less_Suc_eq)
  ultimately show ?thesis by (simp add: channels_inv_def)
qed

lemma run_channels_inv:
  "running_inv env s \<Longrightarrow> sound_env env \<Longrightarrow> \<forall>a\<in>set as. fair_action a \<Longrightarrow> channels_inv s \<Longrightarrow>
    channels_inv (run_node dbg debug as s)"
proof (induction as arbitrary: s)
  case (Cons a as)
  have "running_inv env (act dbg debug a s)"
    using act_good [OF Cons.prems(1,2)] Cons.prems(3) by (simp add: good_step_def)
  with Cons.IH act_channels_inv [OF Cons.prems(1,2,4)] Cons.prems(2,3) show ?case by simp
qed simp

section \<open>A task that listens\<close>

definition tuned :: "question \<Rightarrow> nat \<Rightarrow> ('pk, 'sk, 'rng) running \<Rightarrow> bool" where
  "tuned q k s \<longleftrightarrow>
     listening k (answer_listeners q (rn_node s)) \<and> k \<in> rn_open s \<and> k \<notin> awaited s \<and> k < rn_channels s"

lemma listening_told: "k \<in> opened \<Longrightarrow> listening k (told opened e l) = listening k l"
  by (cases e) (auto simp: told_def listening_def set_broadcast)

lemma messages_told:
  "k \<in> opened \<Longrightarrow> listening k l \<Longrightarrow> messages k (told opened e l) = messages k l @ (case e of None \<Rightarrow> [] | Some e \<Rightarrow> [e])"
  by (cases e) (simp_all add: told_def messages_broadcast)

lemma messages_other: "k \<noteq> j \<Longrightarrow> messages k (listen (j, ms) l) = messages k l"
proof -
  have "k \<noteq> j \<Longrightarrow> find (\<lambda>c. fst c = k) (ls @ [(j, ms)]) = find (\<lambda>c. fst c = k) ls" for ls :: "channel list"
    by (induction ls) auto
  then show "k \<noteq> j \<Longrightarrow> messages k (listen (j, ms) l) = messages k l"
    by (simp add: messages_def listen_def)
qed

lemma tuned_act:
  assumes "running_inv env s" and "sound_env env" and "tuned q k s" and "a \<noteq> DropReceiver k"
  shows "tuned q k (act dbg debug a s)"
    and "messages k (answer_listeners q (rn_node (act dbg debug a s))) =
      messages k (answer_listeners q (rn_node s)) @ (case answer_read q a s of None \<Rightarrow> [] | Some e \<Rightarrow> [e])"
proof -
  have k: "listening k (answer_listeners q (rn_node s))" "k \<in> rn_open s" "k \<notin> awaited s" "k < rn_channels s"
    using assms(3) by (simp_all add: tuned_def)
  have "k \<notin> dropped_by a" using assms(4) by (cases a) auto
  with k act_channels [OF assms(1,2), of a dbg debug, THEN conjunct1] have
    "k \<in> rn_open (act dbg debug a s) \<and> k \<notin> awaited (act dbg debug a s) \<and> k < rn_channels (act dbg debug a s)"
    by (auto simp: channels_step_def)
  moreover have "asks q a \<Longrightarrow> answer_read q a s = None" by (cases q; cases a) simp_all
  ultimately show "tuned q k (act dbg debug a s)"
    "messages k (answer_listeners q (rn_node (act dbg debug a s))) =
      messages k (answer_listeners q (rn_node s)) @ (case answer_read q a s of None \<Rightarrow> [] | Some e \<Rightarrow> [e])"
    using k by (auto simp: tuned_def act_listeners [OF assms(1,2)] listening_told messages_told messages_other)
      (simp add: listening_def listen_def)
qed

lemma tuned_run:
  "running_inv env s \<Longrightarrow> sound_env env \<Longrightarrow> \<forall>a\<in>set as. fair_action a \<and> a \<noteq> DropReceiver k \<Longrightarrow> tuned q k s \<Longrightarrow>
    tuned q k (run_node dbg debug as s)
    \<and> messages k (answer_listeners q (rn_node (run_node dbg debug as s))) =
        messages k (answer_listeners q (rn_node s)) @ answers_read q dbg debug as s"
proof (induction as arbitrary: s)
  case (Cons a as)
  have "running_inv env (act dbg debug a s)"
    using act_good [OF Cons.prems(1,2)] Cons.prems(3) by (simp add: good_step_def)
  with Cons.IH tuned_act [OF Cons.prems(1,2,4)] Cons.prems(2,3) show ?case by simp
qed simp

text \<open>The task that asks is listening from then on, on a channel without messages.\<close>

lemma asks_tuned:
  assumes "running_inv env s" and "sound_env env" and "channels_inv s" and "asks q a"
  shows "tuned q (rn_channels s) (act dbg debug a s)"
    and "messages (rn_channels s) (answer_listeners q (rn_node (act dbg debug a s))) = []"
proof -
  have "\<not> listening (rn_channels s) (answer_listeners q (rn_node s))"
    using assms(3) by (auto simp: channels_inv_def listening_def)
  then show "messages (rn_channels s) (answer_listeners q (rn_node (act dbg debug a s))) = []"
    using messages_listen(2) assms(4) by (simp add: act_listeners [OF assms(1,2)])
  have "listening (rn_channels s) (answer_listeners q (rn_node (act dbg debug a s)))"
    using assms(4) messages_listen(1) by (simp add: act_listeners [OF assms(1,2)])
  moreover have "rn_channels s \<notin> awaited s" using assms(3) by (auto simp: channels_inv_def)
  ultimately show "tuned q (rn_channels s) (act dbg debug a s)"
    using act_channels [OF assms(1,2), of a dbg debug q] assms(4) by (simp add: tuned_def)
qed

section \<open>Properties\<close>

text \<open>
  C13: no answer is lost. From the moment at which a task of a lookup or a discovery asks, until it drops
  its receiver, the messages of its channel are exactly the answers of that kind, not too long, that the node
  has read since from its connected peers, in the order in which it read them, whatever else its tasks
  do in between; in particular no answer that comes early is missed, unlike a pong.
\<close>

theorem no_answer_is_lost:
  assumes "sound_env env" and "\<forall>a\<in>set as. fair_action a" and "s = run_node dbg debug as (running_new env)"
    and "asks q a" and "k = rn_channels s" and "\<forall>b\<in>set bs. fair_action b \<and> b \<noteq> DropReceiver k"
    and "t = run_node dbg debug bs (act dbg debug a s)"
  shows "k \<in> rn_open t \<and> listening k (answer_listeners q (rn_node t))
    \<and> messages k (answer_listeners q (rn_node t)) = answers_read q dbg debug bs (act dbg debug a s)"
proof -
  have inv: "running_inv env s" "channels_inv s"
    using run_node_inv [OF running_new_inv [OF assms(1)] assms(1,2)]
      run_channels_inv [OF running_new_inv [OF assms(1)] assms(1,2) running_new_channels] assms(3) by simp_all
  have "fair_action a" using assms(4) by (cases q; cases a) simp_all
  from act_good [OF inv(1) assms(1) this] have "running_inv env (act dbg debug a s)" by (simp add: good_step_def)
  note asked = asks_tuned [OF inv(1) assms(1) inv(2) assms(4), of dbg debug, folded assms(5)]
  from tuned_run [OF \<open>running_inv env (act dbg debug a s)\<close> assms(1,6) asked(1), of dbg debug] asked(2) show ?thesis
    by (simp add: tuned_def assms(7))
qed

theorem no_answer_is_lost_witness:
  "\<exists>as s k t frame. s = run_node True (\<lambda>c. []) as (running_new (sample_env 1)) \<and> k = rn_channels s
    \<and> t = run_node True (\<lambda>c. []) [PingRound, Arrives (\<lambda>ps. ps) (PeerID (2 # 3 # replicate 30 0)) frame]
          (act True (\<lambda>c. []) (AskValue (sample_peer 9) (PeerID (2 # 3 # replicate 30 0))) s)
    \<and> messages k (answer_listeners ForValue (rn_node t)) =
        [EvFindDhtValueResp (PeerID (2 # 3 # replicate 30 0)) \<lparr>fvr_request_id = 0, fvr_result = NotFound []\<rparr>]"
proof -
  let ?n = "PeerID (2 # 3 # replicate 30 0)" and ?debug = "\<lambda>c :: Command. [] :: string"
  obtain as s where fair: "\<forall>a\<in>set as. fair_action a" and s: "s = run_node True ?debug as (running_new (sample_env 1))"
    and start: "rn_dead s = {}" "rn_channels s = 1"
    and node: "rn_node s = (node_new (sample_env 1) (0, []))\<lparr>nd_connections :=
        connected (nd_connections (node_new (sample_env 1) (0 :: nat, [] :: node_event list))) ?n (new_connection 7 8 (ne_addr (sample_env 2)))\<rparr>"
    using sample_connected [of ?debug] by blast
  have env: "nd_env (rn_node s) = sample_env 1" by (simp add: node node_new_def Let_def)
  have c: "contains (nd_connections (rn_node s)) ?n"
    unfolding node using contains_connected [of "nd_connections (node_new (sample_env 1) (0, []))"]
    by (simp add: node_new_def Let_def set_node_ref_inv pool_new_inv wf_peer_def)
  have inv: "node_inv (rn_node s)"
    using run_node_inv [OF running_new_inv [OF sample_env_sound] sample_env_sound fair] running_invD(1) unfolding s by blast
  from ask_provider_frame [OF inv] obtain node' effs i where
    ask: "ask_provider (1, []) (rn_node s) (sample_peer 9) ?n = Returns (node', effs, i)"
    and pool: "nd_connections node' = nd_connections (rn_node s)" by blast
  have env': "nd_env node' = sample_env 1"
    using ask_provider_evolves [OF inv ask] env by (simp add: evolves_def)
  let ?a = "AskValue (sample_peer 9) ?n :: unit action" and ?frame = "framed (table_codec sample_packets) sample_answer"
  have t1: "act True ?debug ?a s = (new_channel s)\<lparr>rn_node := node'\<rparr>"
    using ask start by (simp add: act_def ask_on_new_channel_def settle_nobody_dead new_channel_def)
  have read: "reader_round (table_codec sample_packets) ?frame = Handle sample_answer []"
    using reader_round_framed [OF sample_packets_law fits_table [OF sample_talk_mem(2)], of "[]"] by simp
  let ?bs = "[PingRound, Arrives (\<lambda>ps. ps) ?n ?frame] :: unit action list"
  have "answers_read ForValue True ?debug ?bs (act True ?debug ?a s) =
      [EvFindDhtValueResp ?n \<lparr>fvr_request_id = 0, fvr_result = NotFound []\<rparr>]"
    using c pool start env' read unfolding t1
    by (simp add: act_def ping_round_def settle_nobody_dead sample_answer_def too_many_results_def)
  with no_answer_is_lost [OF sample_env_sound fair s, of ForValue ?a "rn_channels s" ?bs] s show ?thesis
    by (intro exI [of _ as] exI [of _ s] exI [of _ "rn_channels s"]
        exI [of _ "run_node True ?debug ?bs (act True ?debug ?a s)"] exI [of _ ?frame]) simp
qed

end
