(* ===== verification/Typed_Frames.thy ===== *)
theory Typed_Frames
  imports Conversation
begin

text \<open>
  The types of the packets that a node writes after its handshakes, and that well-typed frames do no
  harm: the Rust types say what the serialisation can carry, the limits below what the receivers
  (\<open>src/node/node.rs\<close>) accept.
\<close>

section \<open>Well-typed packets\<close>

fun typed_packet :: "Packet \<Rightarrow> bool" where
  "typed_packet (DiscoverPeers p) \<longleftrightarrow> wf_peer (dp_target p) \<and> length (dp_mask p) \<le> 32"
| "typed_packet (DiscoverPeersResp p) \<longleftrightarrow>
     length (dpr_peers p) \<le> 64 \<and> (\<forall>e\<in>set (dpr_peers p). wf_peer (fst e))"
| "typed_packet (FindDhtValue p) \<longleftrightarrow> wf_peer (fv_key p)"
| "typed_packet (FindDhtValueResp p) \<longleftrightarrow>
     (case fvr_result p of
        Found values \<Rightarrow> length values \<le> 64
      | NotFound ps \<Rightarrow> length ps \<le> 32 \<and> (\<forall>e\<in>set ps. wf_peer (fst e)))"
| "typed_packet (FindPeer p) \<longleftrightarrow> wf_peer (fp_peer_id p)"
| "typed_packet (FindPeerResp p) \<longleftrightarrow>
     length (fpr_peers p) \<le> 32 \<and> (\<forall>e\<in>set (fpr_peers p). wf_peer (fst e))"
| "typed_packet (StoreDhtValue p) \<longleftrightarrow> wf_peer (sv_key_id p)"
| "typed_packet (Ping p) \<longleftrightarrow> True"
| "typed_packet (Pong p) \<longleftrightarrow> True"
| "typed_packet (Quit p) \<longleftrightarrow> True"
| "typed_packet (ProtocolVersion p) \<longleftrightarrow> False"
| "typed_packet (InitRsa p) \<longleftrightarrow> False"
| "typed_packet (InitAes p) \<longleftrightarrow> False"
| "typed_packet (Ehlo p) \<longleftrightarrow> False"

lemma typed_packetD: "typed_packet p \<Longrightarrow> wf_packet p \<and> \<not> handshake_packet p"
  by (cases p) auto

section \<open>What a node writes\<close>

text \<open>
  The operations of a node that write to its peers, and their effects: answering a packet, pinging,
  the questions of discoveries and lookups, and disconnecting.
\<close>

inductive emits :: "('pk, 'sk, 'rng, 'c) Node \<Rightarrow> effect list \<Rightarrow> bool" where
  answer: "on_packet dbg shuffle send node n p = Returns (node', effs) \<Longrightarrow> wf_packet p \<Longrightarrow>
    (\<And>xs. mset (shuffle xs) = mset xs) \<Longrightarrow> emits node effs"
| ping: "ping_send node n = Returns (node', effs, i) \<Longrightarrow> emits node effs"
| value_question: "ask_provider fresh node key n = Returns (node', effs, i) \<Longrightarrow> wf_peer key \<Longrightarrow> emits node effs"
| discovery_question: "ask_discovery fresh node (generate_in_bucket (node_id node) l c) (bucket_mask l) n = Returns (node', effs, i) \<Longrightarrow>
    l < 128 \<Longrightarrow> emits node effs"
| leave: "disconnecting send node n q = Returns (node', effs) \<Longrightarrow> emits node effs"

text \<open>All frames among the effects are well-typed packets.\<close>

definition typed_frames :: "Packet codec \<Rightarrow> effect list \<Rightarrow> bool" where
  "typed_frames c effs \<longleftrightarrow>
     (\<forall>w f. Wrote w f \<in> set effs \<longrightarrow> (\<exists>q bs. f = write_frame bs \<and> raw_bytes c q = Inr bs \<and> typed_packet q))"

lemma typed_frames_Nil [simp]: "typed_frames c []"
  by (simp add: typed_frames_def)

text \<open>A packet that is sent, whatever is done with its effects.\<close>

lemma sending_typed:
  assumes "sending node n p k = Returns r" and "node_inv node" and "typed_packet p" and "\<forall>q. p \<noteq> Quit q"
  obtains effs where "typed_frames (node_codec node) effs" and "k effs = Returns r"
proof -
  have "cp_node_ref (nd_connections node)" using assms(2) by (simp add: node_inv_def)
  with assms(1,4) obtain effs where effs: "effs = (case raw_bytes (node_codec node) p of Inl e \<Rightarrow> []
       | Inr bs \<Rightarrow> (case bt_get (cp_connections (nd_connections node)) n of None \<Rightarrow> []
                     | Some peer \<Rightarrow> [Wrote (pi_write_stream peer) (write_frame bs)]))" and k: "k effs = Returns r"
    by (auto simp: sending_def send_packet_Returns)
  have "typed_frames (node_codec node) effs"
    using assms(3) by (cases "raw_bytes (node_codec node) p"; cases "bt_get (cp_connections (nd_connections node)) n")
      (auto simp: effs typed_frames_def)
  with k that show thesis by blast
qed

lemma disconnecting_typed:
  assumes "disconnecting send node n q = Returns (node', effs)"
  shows "typed_frames (node_codec node) effs"
proof -
  from assms obtain pool where "disconnect (node_codec node) (nd_connections node) n q = Returns (pool, effs)"
    by (auto simp: disconnecting_def bind_outcome_Returns_iff handled_def)
  then show ?thesis
    by (auto simp: disconnect_def send_packet_unchecked_def typed_frames_def bind_outcome_Returns_iff
        intro!: exI [of _ "Quit q"] split: sum.splits option.splits)
qed

lemma closest_peers_wf:
  "pool_inv pool \<Longrightarrow> e \<in> set (closest_peers m key (peers_with_addrs pool)) \<Longrightarrow> wf_peer (fst e)"
  using set_closest_peers peers_wf by blast

lemma answers_typed:
  assumes "node_inv node"
  shows "typed_packet (FindDhtValueResp (snd (answer_find_value node q)))"
    and "typed_packet (FindPeerResp (answer_find_peer node r))"
proof -
  have inv: "pool_inv (nd_connections node)" using assms by (simp add: node_inv_def)
  show "typed_packet (FindDhtValueResp (snd (answer_find_value node q)))"
    using closest_peers_wf [OF inv] by (simp add: find_value_result min.coboundedI2)
  show "typed_packet (FindPeerResp (answer_find_peer node r))"
    using closest_peers_wf [OF inv] by (auto simp: answer_find_peer_def unat_min)
qed

lemma discovery_answer_typed:
  assumes "pool_inv pool" and "wf_peer (dp_target p)" and "length (dp_mask p) \<le> 32"
    and "\<And>xs. mset (shuffle xs) = mset xs" and "prepare_discover_peers_response dbg shuffle pool p = Returns resp"
  shows "typed_packet (DiscoverPeersResp resp)"
proof -
  let ?found = "filter (\<lambda>e. matches (fst e) (dp_target p) (dp_mask p)) (peers_with_addrs pool)"
  from assms(5) have resp: "dpr_peers resp = trim_loop (min (unat (dp_limit p)) 64) (shuffle ?found)"
    unfolding prepare_response_eq [OF assms(1-3)] by (auto simp: unat_min)
  have "set (dpr_peers resp) \<subseteq> set (peers_with_addrs pool)"
    unfolding resp using set_trim_loop [of _ "shuffle ?found"] mset_eq_setD [OF assms(4) [of ?found]] by auto
  with peers_wf [OF assms(1)] show ?thesis by (auto simp: resp)
qed

lemma on_packet_typed:
  assumes "on_packet dbg shuffle send node n p = Returns (node', effs)" and "node_inv node" and "wf_packet p"
    and "\<And>xs. mset (shuffle xs) = mset xs"
  shows "typed_frames (node_codec node) effs"
proof -
  have inv: "pool_inv (nd_connections node)" using assms(2) by (simp add: node_inv_def)
  have sent: "typed_frames (node_codec node) effs"
    if "sending x m q k = Returns (node', effs)" "typed_packet q" "\<forall>z. q \<noteq> Quit z"
      "nd_env x = nd_env node" "node_inv x" "\<And>es. k es = Returns (node', effs) \<Longrightarrow> es = effs" for x m q k
    using sending_typed [OF that(1,5,2,3)] that(4,6) by metis
  show ?thesis
  proof (cases p)
    case (DiscoverPeers q)
    show ?thesis
    proof (cases "length (dp_mask q) > 32")
      case False
      with assms(1) obtain resp where
        resp: "prepare_discover_peers_response dbg shuffle (nd_connections node) q = Returns resp" and
        s: "sending node n (DiscoverPeersResp resp) (\<lambda>effs.
           bind_outcome (event send (EvDiscoverPeers n q) (nd_on_discover_peers_packet node))
             (\<lambda>ls. handled (node\<lparr>nd_on_discover_peers_packet := ls\<rparr>) effs)) = Returns (node', effs)"
        by (auto simp: DiscoverPeers bind_outcome_Returns_iff)
      show ?thesis
        by (rule sent [OF s discovery_answer_typed [OF inv _ _ assms(4) resp]])
          (use assms(2,3) DiscoverPeers False in \<open>auto simp: event_eq handled_def\<close>)
    qed (use assms(1) DiscoverPeers in \<open>simp add: handled_def\<close>)
  next
    case (FindDhtValue q)
    obtain store ans where ans: "answer_find_value node q = (store, ans)" by fastforce
    then have "store = fst (dht_get (nd_dht node) (fv_key q))" using answer_store [of node q] by simp
    then have "node_inv (node\<lparr>nd_dht := store\<rparr>)" using assms(2) by (simp add: node_inv_def dht_get_inv)
    moreover have "typed_packet (FindDhtValueResp ans)" using answers_typed(1) [OF assms(2), of q] ans by simp
    moreover obtain k where k: "sending (node\<lparr>nd_dht := store\<rparr>) n (FindDhtValueResp ans) k = Returns (node', effs)"
      and "\<And>es. k es = Returns (node', effs) \<Longrightarrow> es = effs"
      using assms(1) by (auto simp: FindDhtValue ans event_eq handled_def Let_def)
    ultimately show ?thesis by (intro sent [OF k]) simp_all
  next
    case (FindPeer q)
    obtain k where k: "sending node n (FindPeerResp (answer_find_peer node q)) k = Returns (node', effs)"
      and "\<And>es. k es = Returns (node', effs) \<Longrightarrow> es = effs"
      using assms(1) by (auto simp: FindPeer event_eq handled_def)
    with answers_typed(2) [OF assms(2), of q] assms(2) show ?thesis by (intro sent [OF k]) simp_all
  next
    case (Ping q)
    obtain k where k: "sending node n (Pong q) k = Returns (node', effs)"
      and "\<And>es. k es = Returns (node', effs) \<Longrightarrow> es = effs"
      using assms(1) by (auto simp: Ping event_eq handled_def)
    with assms(2) show ?thesis by (intro sent [OF k]) simp_all
  next
    case (Quit q)
    with assms(1) obtain node1 where "disconnecting send node n quit_received = Returns (node1, effs)"
      by (auto simp: bind_outcome_Returns_iff handled_def)
    then show ?thesis by (rule disconnecting_typed)
  qed (use assms(1) in \<open>auto simp: bind_outcome_Returns_iff handled_def split: if_splits\<close>)
qed

lemma emits_typed: "emits node effs \<Longrightarrow> node_inv node \<Longrightarrow> typed_frames (node_codec node) effs"
proof (induction rule: emits.induct)
  case (answer dbg shuffle send node n p node' effs)
  then show ?case by (intro on_packet_typed [of dbg shuffle send node n p])
next
  case (ping node n node' effs i)
  obtain j c where j: "counter_next (nd_ping_id_counter node) = (j, c)" by fastforce
  let ?node = "node\<lparr>nd_ping_id_counter := c\<rparr>"
  have "node_inv ?node" using ping(2) by (simp add: node_inv_def)
  moreover obtain x where "sending ?node n (Ping \<lparr>pp_ping_id = j\<rparr>) (handled ?node) = Returns (x, effs)"
    using ping(1) by (auto simp: ping_send_def j Let_def bind_outcome_Returns_iff)
  ultimately obtain es where "typed_frames (node_codec ?node) es" "handled ?node es = Returns (x, effs)"
    by (elim sending_typed [where p = "Ping \<lparr>pp_ping_id = j\<rparr>"]) auto
  then show ?case by (simp add: handled_def)
next
  case (value_question fresh node key n node' effs i)
  obtain j c where j: "counter_next (nd_dht_req_counter node) = (j, c)" by fastforce
  let ?node = "node\<lparr>nd_dht_req_counter := c,
      nd_on_find_dht_value_resp_packet := listen fresh (nd_on_find_dht_value_resp_packet node)\<rparr>"
  let ?p = "FindDhtValue (value_request j key)"
  have "node_inv ?node" using value_question(3) by (simp add: node_inv_def)
  moreover obtain x where "sending ?node n ?p (handled ?node) = Returns (x, effs)"
    using value_question(1) by (auto simp: ask_provider_def j Let_def bind_outcome_Returns_iff)
  moreover have "typed_packet ?p" using value_question(2) by (simp add: value_request_def)
  ultimately obtain es where "typed_frames (node_codec ?node) es" "handled ?node es = Returns (x, effs)"
    by (elim sending_typed [where p = ?p]) auto
  then show ?case by (simp add: handled_def)
next
  case (discovery_question fresh node l c n node' effs i)
  obtain j d where j: "counter_next (nd_discover_peer_req_counter node) = (j, d)" by fastforce
  let ?node = "node\<lparr>nd_discover_peer_req_counter := d,
      nd_on_discover_peers_resp_packet := listen fresh (nd_on_discover_peers_resp_packet node)\<rparr>"
  let ?p = "DiscoverPeers (discover_request j (generate_in_bucket (node_id node) l c) (bucket_mask l))"
  have "node_inv ?node" using discovery_question(3) by (simp add: node_inv_def)
  moreover obtain x where "sending ?node n ?p (handled ?node) = Returns (x, effs)"
    using discovery_question(1) by (auto simp: ask_discovery_def j Let_def bind_outcome_Returns_iff)
  moreover have "typed_packet ?p"
    using discovery_question(2) wf_node_id [OF discovery_question(3)] by (simp add: discover_request_def)
  ultimately obtain es where "typed_frames (node_codec ?node) es" "handled ?node es = Returns (x, effs)"
    by (elim sending_typed [where p = ?p]) auto
  then show ?case by (simp add: handled_def)
next
  case (leave send node n q node' effs)
  from leave(1) show ?case by (rule disconnecting_typed)
qed

section \<open>Properties\<close>

text \<open>
  C14: what a node writes is well typed, and well-typed frames do no harm. Every frame that a node writes
  once it is connected (its answers to whatever its peers send, pings, the questions of its
  discoveries and lookups, its quit packets) is a packet whose identities have 32 bytes and whose
  lists and masks are within the limits of the protocol, and no packet of the handshake; and a
  connected node that reads the frame, if it is not longer than allowed, gets that packet and
  handles it without a panic.
\<close>

theorem written_frames_are_typed:
  assumes "emits a effs" and "node_inv a" and "Wrote w f \<in> set effs"
    and "node_inv b" and "node_codec b = node_codec a" and "codec_law (node_codec a)"
  shows "\<exists>q bs. f = write_frame bs \<and> raw_bytes (node_codec a) q = Inr bs \<and> typed_packet q
    \<and> (length bs < 1000000 \<longrightarrow>
        reader_round (node_codec b) (f @ rest) = Handle q rest
        \<and> hears dbg shuffle send b n (f @ rest) \<noteq> Panics)"
proof -
  from emits_typed [OF assms(1,2)] assms(3) obtain q bs where f: "f = write_frame bs"
    and q: "raw_bytes (node_codec a) q = Inr bs" "typed_packet q"
    unfolding typed_frames_def by blast
  have "reader_round (node_codec b) (f @ rest) = Handle q rest
        \<and> hears dbg shuffle send b n (f @ rest) \<noteq> Panics" if "length bs < 1000000"
  proof -
    have "fits (node_codec b) q" "f = framed (node_codec b) q" "codec_law (node_codec b)"
      using q that by (simp_all add: fits_def framed_def f assms(5,6))
    with hears_framed [of b q] reader_round_framed [of "node_codec b" q] on_packet_panics [OF assms(4), of q]
      typed_packetD [OF q(2)] show ?thesis by simp
  qed
  with f q show ?thesis by blast
qed

theorem written_frames_are_typed_witness:
  "let c = table_codec [Pong \<lparr>pp_ping_id = 6\<rparr>]
   in \<exists>node'. on_packet True (\<lambda>ps. ps) (deliver {}) (talker c 1 2) (sample_id 2) (Ping \<lparr>pp_ping_id = 6\<rparr>)
        = Returns (node', [Wrote 7 (write_frame [0])])
      \<and> hears True (\<lambda>ps. ps) (deliver {}) (talker c 2 1) (sample_id 1) (write_frame [0] @ []) \<noteq> Panics"
proof -
  let ?c = "table_codec [Pong \<lparr>pp_ping_id = 6\<rparr>]"
  let ?one = "talker ?c 1 2" and ?two = "talker ?c 2 1"
  have inv: "node_inv ?one" "node_inv ?two" by (simp_all add: talker_inv)
  have "codec_law ?c" by (rule table_codec_law) simp
  then have "connects ?one 7 ?two" by (rule talker_connects)
  from sending_connected [OF inv(1) this, of "Pong \<lparr>pp_ping_id = 6\<rparr>"]
  have "\<exists>node'. on_packet True (\<lambda>ps. ps) (deliver {}) ?one (sample_id 2) (Ping \<lparr>pp_ping_id = 6\<rparr>)
      = Returns (node', [Wrote 7 (write_frame [0])])"
    by (simp add: fits_table event_eq handled_def framed_def raw_bytes_table)
  then obtain node' where p: "on_packet True (\<lambda>ps. ps) (deliver {}) ?one (sample_id 2) (Ping \<lparr>pp_ping_id = 6\<rparr>)
      = Returns (node', [Wrote 7 (write_frame [0])])" ..
  then have e: "emits ?one [Wrote 7 (write_frame [0])]"
    by (rule emits.answer) simp_all
  have "\<exists>q bs. write_frame [0] = write_frame bs \<and> raw_bytes (node_codec ?one) q = Inr bs \<and> typed_packet q
    \<and> (length bs < 1000000 \<longrightarrow> reader_round (node_codec ?two) (write_frame [0] @ []) = Handle q []
        \<and> hears True (\<lambda>ps. ps) (deliver {}) ?two (sample_id 1) (write_frame [0] @ []) \<noteq> Panics)"
    by (rule written_frames_are_typed [OF e inv(1) _ inv(2)]) (simp_all add: \<open>codec_law ?c\<close>)
  then have "hears True (\<lambda>ps. ps) (deliver {}) ?two (sample_id 1) (write_frame [0] @ []) \<noteq> Panics"
    by (auto simp: write_frame_def)
  with p show ?thesis unfolding Let_def by blast
qed

end
