(* ===== verification/Account_Data.thy ===== *)
theory Account_Data
  imports Segmented_Array Peer_Id Ordered_Map "HOL-Library.Char_ord"
begin

text \<open>
  \<open>src/account/account.rs\<close>: the data of an account. The program has no operation on it yet. A \<open>f64\<close>
  is a value of the type \<open>'f\<close>, a signed integer the word whose value is \<open>sint\<close>; a \<open>BTreeMap\<close> is a list
  of entries ordered by key (\<^theory_text>\<open>Ordered_Map\<close>).
\<close>

type_synonym i64 = "64 word"

record UserMention =
  um_username :: string
  um_peer_id :: PeerID
  um_cached_addr :: "string option"
  um_providers_addrs :: "(PeerID \<times> string) list"

datatype 'f PropValue =
    Bool bool
  | Uint u64
  | Int i64
  | Float 'f
  | Date u64
  | String string
  | User UserMention
  | Blob bytes
  | BoolArray "bool list"
  | UintArray "u64 list"
  | IntArray "i64 list"
  | FloatArray "'f list"
  | DateArray "u64 list"
  | StringArray "string list"
  | UserArray "UserMention list"
  | BlobArray "bytes list"
  | Array "'f PropValue list"
  | Map "(string, 'f PropValue) btree_map"

text \<open>The lists of users are arrays of at most 32 segments per node.\<close>

record 'f AccountData =
  ad_username :: string
  ad_followers :: "UserMention SegmentedArray"
  ad_follower_count :: u32
  ad_following :: "UserMention SegmentedArray"
  ad_following_count :: u32
  ad_backup_peer_id :: PeerID
  ad_props :: "(string, 'f PropValue) btree_map"

text \<open>The maps inside a value are ordered, at every depth.\<close>

fun wf_prop :: "'f PropValue \<Rightarrow> bool" where
  "wf_prop (Array vs) \<longleftrightarrow> (\<forall>v\<in>set vs. wf_prop v)"
| "wf_prop (Map m) \<longleftrightarrow> bt_inv m \<and> (\<forall>e\<in>set m. wf_prop (snd e))"
| "wf_prop _ \<longleftrightarrow> True"

text \<open>Replacing a property of an account keeps its properties well formed.\<close>

lemma wf_props_insert:
  assumes "bt_inv m" and "\<forall>e\<in>set m. wf_prop (snd e)" and "wf_prop v"
  shows "wf_prop (Map (bt_insert k v m))"
  using assms by (auto simp: bt_insert_inv dest!: set_bt_insert)

end
