(* ===== verification/Command_Channel.thy ===== *)
theory Command_Channel
  imports Command_Parsing
begin

text \<open>
  \<open>src/commands/channel.rs\<close>: the wrapper of the channel on which a node receives the commands of its
  user. The channel is an unbounded one of the crate \<open>async_channel\<close>: \<open>unbounded\<close> is the pair that
  the crate makes, \<open>recv\<close> what its receiver \<open>'r\<close> reports when it is polled.
\<close>

datatype 'r received = Pending | Closed | Message Command 'r

record 'r CommandReceiver =
  receiver :: 'r

definition command_receiver_new :: "'s \<times> 'r \<Rightarrow> 'r CommandReceiver \<times> 's" where
  "command_receiver_new unbounded =
     (let (sender, receiver) = unbounded in (\<lparr>receiver = receiver\<rparr>, sender))"

text \<open>\<open>None\<close> still waits; \<open>unwrap\<close> panics on a channel that is closed.\<close>

definition wait_command ::
  "('r \<Rightarrow> 'r received) \<Rightarrow> 'r CommandReceiver \<Rightarrow> (Command \<times> 'r CommandReceiver) outcome option" where
  "wait_command recv cr =
     (case recv (receiver cr) of
        Pending \<Rightarrow> None
      | Closed \<Rightarrow> Some Panics
      | Message c r \<Rightarrow> Some (Returns (c, cr\<lparr>receiver := r\<rparr>)))"

text \<open>
  The documented behaviour of the channel: \<open>recv\<close> takes the first of the queued messages, waits on
  an empty queue, and fails on an empty queue without senders.
\<close>

definition fifo :: "('r \<Rightarrow> 'r received) \<Rightarrow> ('r \<Rightarrow> Command list) \<Rightarrow> ('r \<Rightarrow> bool) \<Rightarrow> bool" where
  "fifo recv queue closed \<longleftrightarrow>
     (\<forall>r. case queue r of
            [] \<Rightarrow> recv r = (if closed r then Closed else Pending)
          | c # cs \<Rightarrow> (\<exists>r'. recv r = Message c r' \<and> queue r' = cs \<and> closed r' = closed r))"

lemma fifoD:
  assumes "fifo recv queue closed"
  shows "queue r = [] \<Longrightarrow> recv r = (if closed r then Closed else Pending)"
    and "queue r = c # cs \<Longrightarrow> \<exists>r'. recv r = Message c r' \<and> queue r' = cs \<and> closed r' = closed r"
  using assms [unfolded fifo_def, THEN spec, of r] by simp_all

text \<open>The commands that a task gets that waits \<open>n\<close> times, and how its next wait ends.\<close>

fun take_commands ::
  "('r \<Rightarrow> 'r received) \<Rightarrow> nat \<Rightarrow> 'r CommandReceiver \<Rightarrow> Command list \<times> (Command \<times> 'r CommandReceiver) outcome option" where
  "take_commands recv 0 cr = ([], wait_command recv cr)"
| "take_commands recv (Suc n) cr =
     (case wait_command recv cr of
        Some (Returns (c, cr)) \<Rightarrow> (case take_commands recv n cr of (cs, r) \<Rightarrow> (c # cs, r))
      | r \<Rightarrow> ([], r))"

text \<open>
  The commands arrive in the order in which they were sent, none is lost, and the task panics only
  when all of them have been taken and no sender is left.
\<close>

theorem commands_arrive_in_order:
  assumes "fifo recv queue closed"
  shows "fst (take_commands recv n cr) = take n (queue (receiver cr))
    \<and> (snd (take_commands recv n cr) = Some Panics \<longleftrightarrow> length (queue (receiver cr)) \<le> n \<and> closed (receiver cr))"
proof (induction n arbitrary: cr)
  case 0
  show ?case
  proof (cases "queue (receiver cr)")
    case Nil
    with fifoD(1) [OF assms Nil] show ?thesis by (simp add: wait_command_def)
  next
    case (Cons c cs)
    from fifoD(2) [OF assms Cons] Cons show ?thesis by (auto simp: wait_command_def)
  qed
next
  case (Suc n)
  show ?case
  proof (cases "queue (receiver cr)")
    case Nil
    with fifoD(1) [OF assms Nil] show ?thesis by (simp add: wait_command_def)
  next
    case (Cons c cs)
    from fifoD(2) [OF assms Cons] obtain r' where
      r': "recv (receiver cr) = Message c r'" "queue r' = cs" "closed r' = closed (receiver cr)" by blast
    let ?cr = "cr\<lparr>receiver := r'\<rparr>"
    have "take_commands recv (Suc n) cr = (c # fst (take_commands recv n ?cr), snd (take_commands recv n ?cr))"
      by (simp add: wait_command_def r'(1) split: prod.split)
    with Suc [of ?cr] r'(2,3) Cons show ?thesis by simp
  qed
qed

end
