(* ===== verification/Spec2Isabelle.thy ===== *)
theory Spec2Isabelle
  imports Tewta_Prelude Peer_Id Peer_Text Counter Log_Level Events Segmented_Array Command_Parsing
    Discovery Test_Stream Local_Network Handshake_Theorems Node_Theorems Network_Tasks Crossing
    Running_Node_Theorems Lookup_Completeness Discovery_Completeness Conversation Round_Trip Answer_Delivery Typed_Frames Account_Data Command_Channel
begin

text \<open>
  A model of tewta, a peer-to-peer node written in Rust, in the configuration with the feature
  \<open>test\<close> (the only one that compiles), with the theorems that make it correct. All paths below
  are under \<open>src/src/\<close>.

  \<^bold>\<open>How the program works.\<close>
  A node has an RSA key pair and is identified by the hash of its public key (\<open>peers.rs\<close>). It
  keeps a table of connections (\<open>node/connections.rs\<close>), each with a task that reads packets
  (\<open>packets.rs\<close>) and hands them to \<open>on_packet\<close> (\<open>node/node.rs\<close>). A connection starts with a
  handshake (\<open>node/handshake.rs\<close>) over a stream (\<open>stream.rs\<close>). Peers are ordered by their XOR
  distance and fall into 384 buckets; a node fills its buckets by asking its peers
  (\<open>node/discovery.rs\<close>) and finds the values of a key by asking ever closer peers
  (\<open>node/dht.rs\<close>). Tasks wait for answers on channels that \<open>on_packet\<close> feeds
  (\<open>node/events.rs\<close>).

  \<^bold>\<open>Conventions.\<close>
  Rust's \<open>u8\<close>, \<open>u16\<close>, \<open>u32\<close> are words, \<open>usize\<close> is \<open>nat\<close> with its bound written out where it
  matters. A function that may panic returns an \<open>outcome\<close>; \<open>Result\<close> is a sum with the error on the
  left. Rust's strings are lists of bytes (characters). A definition whose name ends in \<open>_in\<close> or
  \<open>_checked\<close> is the code's loop or array update with its uninitialised buffer and its panics; the
  one without the ending is what it is proved to compute, and is what the other theories use.
  Random draws, the content of uninitialised memory and the permutation of a shuffle are
  arguments. An operation on shared state under its mutex is one step, and returns the new state
  with the list of its effects on streams, tasks and events.

  \<^bold>\<open>The theories,\<close> from the bottom up.
  \<^item> \<^theory_text>\<open>Tewta_Prelude\<close>: types, the outcome of a panic, lemmas on lists and words.
  \<^item> \<^theory_text>\<open>Peer_Id\<close>, \<^theory_text>\<open>Peer_Text\<close> (\<open>peers.rs\<close>): distance, masks, buckets, generation in a bucket, the
    textual form. The bucket is the first base-4 digit in which two identities differ; buckets
    refine the distance. \<^theory_text>\<open>Closest\<close>: sorting by distance, for any injective distance.
  \<^item> \<^theory_text>\<open>Ordered_Map\<close>: the interface of \<open>BTreeMap\<close> and the sorted list that implements it here.
  \<^item> \<^theory_text>\<open>Counter\<close>, \<^theory_text>\<open>Log_Level\<close>, \<^theory_text>\<open>Events\<close> (\<open>node/counter.rs\<close>, \<open>logging.rs\<close>, \<open>node/events.rs\<close>): unique
    identifiers until the counter wraps, levels, and the equivalence of the loop of \<open>event\<close> with
    a broadcast that drops closed channels.
  \<^item> \<^theory_text>\<open>Segmented_Array\<close> (\<open>segmented_array.rs\<close>): the tree built from a vector, its hash, and that
    redaction keeps the hash.
  \<^item> \<^theory_text>\<open>Crypto_Lib\<close>, \<^theory_text>\<open>Signed_Data\<close>, \<^theory_text>\<open>Packets\<close> (\<open>hash.rs\<close>, \<open>signed_data.rs\<close>, \<open>packets.rs\<close>): the
    parameters for RSA, SHA-256 and the derived serialisation, and what uses them.
    \<^theory_text>\<open>Samples\<close> has concrete instances for the witnesses.
  \<^item> \<^theory_text>\<open>Wire\<close>: frames with their length prefix, and that they are read as they were written.
  \<^item> \<^theory_text>\<open>Connections\<close> (\<open>node/connections.rs\<close>): the table with its invariant, every operation on it,
    the answer to a discovery, the refresh of the buckets.
  \<^item> \<^theory_text>\<open>Process\<close>: tasks that receive, send and access the pool, their execution up to the next wait,
    and two tasks at the ends of a connection. The order of their steps does not matter (the
    locale \<open>commuting\<close>).
  \<^item> \<^theory_text>\<open>Handshake\<close>, \<^theory_text>\<open>Handshake_Theorems\<close> (\<open>node/handshake.rs\<close>): the handshake as a task; what an
    accepted peer has shown, what a failure leaves and tells, that nothing panics, and that two
    honest nodes always connect. \<^theory_text>\<open>Sample_Nodes\<close> has two such nodes.
  \<^item> \<^theory_text>\<open>Dht_Store\<close> (\<open>node/dht.rs\<close>): the local store, a refinement of a map to lists of values.
  \<^item> \<^theory_text>\<open>Decimal\<close>, \<^theory_text>\<open>Local_Network\<close> (\<open>lib.rs\<close>), \<^theory_text>\<open>Command_Parsing\<close> (\<open>commands/\<close>): numbers in
    text, connecting by address, the destinators of a command line.
  \<^item> \<^theory_text>\<open>Node\<close>, \<^theory_text>\<open>Node_Theorems\<close> (\<open>node/node.rs\<close>): the state of a node, its packet and command
    handlers, pings; invariant, panics, answers, and the race of the pings.
  \<^item> \<^theory_text>\<open>Dht_Lookup\<close> (\<open>node/dht.rs\<close>): the iterative lookup as a state machine driven by answers; it
    asks the closest first, at most three at a time, and ends.
  \<^item> \<^theory_text>\<open>Lookup_Completeness\<close> (\<open>node/dht.rs\<close>): the lookup in a network that stands still, as the search
    of a graph: in every order of the answers it ends, and it finds the value if suggestions lead to
    a node that stores it.
  \<^item> \<^theory_text>\<open>Discovery\<close> (\<open>node/discovery.rs\<close>): mask and loop, for any network. \<^theory_text>\<open>Discovery_Completeness\<close>: in
    a network of honest nodes that stands still, the loop fills the bucket or connects to every peer
    of it that the providers know.
  \<^item> \<^theory_text>\<open>Dialing\<close>, \<^theory_text>\<open>Network_Tasks\<close> (\<open>node/node.rs\<close>, \<open>node/dht.rs\<close>, \<open>node/discovery.rs\<close>): connecting and
    shaking hands as the tasks do, time limits, joining the network, the question to one provider,
    and the discovery loop on the model's own \<open>connect\<close>, handshake and requests.
  \<^item> \<^theory_text>\<open>Crossing\<close> (\<open>node/handshake.rs\<close>, \<open>node/connections.rs\<close>): two nodes that dial each other at
    the same time, and how they can lose both connections.
  \<^item> \<^theory_text>\<open>Running_Node\<close>, \<^theory_text>\<open>Running_Node_Theorems\<close> (\<open>node/node.rs\<close>): a node with all its tasks. An action
    is one stretch of one task between two points of waiting: a round of a reading task, a step
    or a failure of a handshake, one of the three stretches of a ping, a refresh, the start of a
    discovery, a question, a command. The theorems hold after every sequence of actions: the
    invariant, which stretches panic, that pongs are not confused, and that every peer that leaves
    is announced to the task that refreshes the buckets.
  \<^item> \<^theory_text>\<open>Conversation\<close>: a question of a lookup or a discovery between two nodes, composed of asking,
    framing, reading, answering, and the listener of the task that asks, with anything else in
    between. \<^theory_text>\<open>Round_Trip\<close>: the same with a provider that is not connected yet, with the dialing,
    the handshakes of both and the disconnection. \<^theory_text>\<open>Answer_Delivery\<close>: among all the tasks of
    a running node, a task that asks gets every answer that the node reads until it drops its receiver. \<^theory_text>\<open>Typed_Frames\<close>: every frame that a node writes is well typed, and does no harm to the
    node that reads it.
  \<^item> \<^theory_text>\<open>Account_Data\<close> (\<open>account/account.rs\<close>): data types only. \<^theory_text>\<open>Command_Channel\<close>
    (\<open>commands/channel.rs\<close>): commands arrive in the order in which they were sent.
  \<^item> \<^theory_text>\<open>Test_Stream\<close> (\<open>stream.rs\<close>): the in-memory streams with their shared buffers, wakers and
    locks, as a state machine.

  \<^bold>\<open>Bounds and termination.\<close>
  Loops are total functions with a measure, except the construction of a segmented array, which
  does not end for all sizes and is a \<open>partial_function\<close> with a theorem that says when it
  returns. The lookup is driven by the list of the answers that arrive; that it ends is stated for
  any finite set of suggested peers, and for every schedule of a finite network. The discovery loop ends on every network because each round
  uses up a candidate or a provider. No fuel is used.

  \<^bold>\<open>Parameters.\<close>
  The crates \<open>rsa\<close>, \<open>sha2\<close>, \<open>protocol\<close>, \<open>structopt\<close> and \<open>async_channel\<close> are arguments of the
  definitions that call them. Theorems name the documented behaviour that they need: a
  serialisation that is parsed back (\<open>codec_law\<close>), 32-byte digests (\<open>sha_law\<close>), keys that are
  rebuilt from their numbers (\<open>key_law\<close>), signatures that verify, encryption that decrypts.

  \<^bold>\<open>Not modelled.\<close>
  Time (how often the endless loops of \<open>Node::new\<close> go round; that a time limit can end a wait at
  any point is modelled) and the end of a node, after which its loops stop; writes to a stream
  that fail outside a handshake (the in-memory streams never do); the cancellation of a reading
  task in the middle of the quit packet that it handles; \<open>prelude.rs\<close>, which only re-exports, and
  \<open>main.rs\<close>, which is \<open>unimplemented!()\<close>. What is only logged is left
  out, except for the texts of the commands. AES keys are computed but the program does not use
  them yet.
\<close>

end
